(* ===== verification/Prelude.thy ===== *)
theory Prelude
  imports Main "HOL-Library.Word"
begin

unbundle bit_operations_syntax

text \<open>
  Shared vocabulary of the development: the C integer types as words of their width, the
  collections of simplification rules the components add to, and generic lemmas on words and
  lists that more than one component needs.
\<close>

type_synonym u8 = "8 word"
type_synonym u16 = "16 word"
type_synonym u32 = "32 word"
type_synonym u64 = "64 word"

text \<open>Addresses are 64-bit words; memory is byte addressed.\<close>

type_synonym addr = "64 word"
type_synonym mem = "64 word \<Rightarrow> 8 word"

text \<open>One \<open>printk\<close> call: the format and its arguments.\<close>

type_synonym print = "string \<times> u64 list"

named_theorems mem_simps \<open>read-over-write laws of the memory\<close>
named_theorems layout_simps \<open>selectors and setters of packed bit fields\<close>

subsection \<open>Words read as natural numbers\<close>

lemma unat_lt_pow: "unat (x :: 'a::len word) < 2 ^ LENGTH('a)"
  by (rule unsigned_less)

lemma unat_u8_lt: "unat (x :: u8) < 256"
  using unat_lt_pow [of x] by simp

lemma unat_u32_lt: "unat (x :: u32) < 4294967296"
  using unat_lt_pow [of x] by simp

lemma unat_u64_lt: "unat (x :: u64) < 18446744073709551616"
  using unat_lt_pow [of x] by simp

lemma unat_add_exact:
  "unat a + unat b < 2 ^ LENGTH('a) \<Longrightarrow> unat (a + b :: 'a::len word) = unat a + unat b"
  by (simp add: unat_word_ariths)

lemma unat_add_of_nat:
  "unat a + n < 2 ^ LENGTH('a) \<Longrightarrow> unat (a + word_of_nat n :: 'a::len word) = unat a + n"
  by (simp add: unat_word_ariths unat_of_nat)

lemma unat_mult_exact:
  "unat a * unat b < 2 ^ LENGTH('a) \<Longrightarrow> unat (a * b :: 'a::len word) = unat a * unat b"
  by (simp add: unat_word_ariths)

lemma unat_sub_exact: "b \<le> a \<Longrightarrow> unat (a - b :: 'a::len word) = unat a - unat b"
  by (rule unat_sub)

lemma unat_ucast_up:
  "LENGTH('a) \<le> LENGTH('b) \<Longrightarrow> unat (ucast (x :: 'a::len word) :: 'b::len word) = unat x"
proof -
  assume "LENGTH('a) \<le> LENGTH('b)"
  then have "(2::nat) ^ LENGTH('a) \<le> 2 ^ LENGTH('b)" by (rule power_increasing) simp
  with unat_lt_pow [of x] have "unat x < 2 ^ LENGTH('b)" by (rule less_le_trans)
  then show ?thesis by (simp add: unsigned_ucast_eq take_bit_nat_eq_self_iff)
qed

lemma word_eq_unatI: "unat a = unat b \<Longrightarrow> a = (b :: 'a::len word)"
  by (rule word_unat_eq_iff [THEN iffD2])

text \<open>An aligned address has zeroes at its end.\<close>

lemma aligned_bits: "2 ^ n dvd unat a \<Longrightarrow> i < n \<Longrightarrow> \<not> bit (a :: u64) i"
proof
  assume "2 ^ n dvd unat a" "i < n" "bit a i"
  then have "bit (take_bit n a) i" by (simp add: bit_take_bit_iff)
  moreover have "unat (take_bit n a) = 0"
    unfolding unsigned_take_bit_eq using \<open>2 ^ n dvd unat a\<close> by (simp add: take_bit_eq_mod)
  then have "take_bit n a = 0" by (simp add: unsigned_eq_0_iff)
  ultimately show False by simp
qed

end
