(* ===== verification/Memory.thy ===== *)
theory Memory
  imports Prelude
begin

unbundle bit_operations_syntax

text \<open>
  The byte-addressed memory the kernel works on, little-endian loads and stores of the C
  integer types, and the two block routines of the standard library, \<open>memset\<close>
  (stdlib/memset.c, and the copy the boot loader links, boot/boot.c) and \<open>memcpy\<close>
  (the byte loop of boot/boot.c; the kernel links the \<open>rep movsb\<close> of stdlib/memcpy.s, which
  copies the same bytes in the same order).
\<close>

subsection \<open>Loads and stores\<close>

fun load :: "nat \<Rightarrow> mem \<Rightarrow> addr \<Rightarrow> nat" where
  "load 0 h a = 0"
| "load (Suc n) h a = unat (h a) + 256 * load n h (a + 1)"

fun store :: "nat \<Rightarrow> addr \<Rightarrow> nat \<Rightarrow> mem \<Rightarrow> mem" where
  "store 0 a v h = h"
| "store (Suc n) a v h = store n (a + 1) (v div 256) (h(a := word_of_nat v))"

lemma load_numeral:
  "load (numeral k) h a = unat (h a) + 256 * load (pred_numeral k) h (a + 1)"
  by (simp add: numeral_eq_Suc)

definition read16 :: "mem \<Rightarrow> addr \<Rightarrow> u16" where
  "read16 h a = word_of_nat (load 2 h a)"

definition read32 :: "mem \<Rightarrow> addr \<Rightarrow> u32" where
  "read32 h a = word_of_nat (load 4 h a)"

definition read64 :: "mem \<Rightarrow> addr \<Rightarrow> u64" where
  "read64 h a = word_of_nat (load 8 h a)"

definition write32 :: "addr \<Rightarrow> u32 \<Rightarrow> mem \<Rightarrow> mem" where
  "write32 a v h = store 4 a (unat v) h"

definition write64 :: "addr \<Rightarrow> u64 \<Rightarrow> mem \<Rightarrow> mem" where
  "write64 a v h = store 8 a (unat v) h"

definition bytes_at :: "addr \<Rightarrow> nat \<Rightarrow> addr set" where
  "bytes_at a n = (\<lambda>i. a + word_of_nat i) ` {..<n}"

lemma bytes_at_0 [simp]: "bytes_at a 0 = {}"
  by (simp add: bytes_at_def)

lemma bytes_at_Suc: "bytes_at a (Suc n) = insert a (bytes_at (a + 1) n)"
  by (auto simp: bytes_at_def image_iff lessThan_Suc_eq_insert_0 algebra_simps)

lemma bytes_at_I: "i < n \<Longrightarrow> a + word_of_nat i \<in> bytes_at a n"
  by (simp add: bytes_at_def)

lemma in_bytes_at:
  assumes "unat a + n \<le> 2 ^ 64"
  shows "x \<in> bytes_at a n \<longleftrightarrow> unat a \<le> unat x \<and> unat x < unat a + n"
proof -
  have u: "unat (a + word_of_nat i) = unat a + i" if "i < n" for i
    using that assms by (simp add: unat_add_of_nat)
  show ?thesis
  proof
    assume "x \<in> bytes_at a n"
    then show "unat a \<le> unat x \<and> unat x < unat a + n"
      by (auto simp: bytes_at_def u)
  next
    assume x: "unat a \<le> unat x \<and> unat x < unat a + n"
    then have "x = a + word_of_nat (unat x - unat a)"
      by (intro word_eq_unatI) (simp add: u)
    with x show "x \<in> bytes_at a n"
      unfolding bytes_at_def by (intro image_eqI [where x = "unat x - unat a"]) auto
  qed
qed

lemma load_cong: "(\<And>x. x \<in> bytes_at a n \<Longrightarrow> h x = h' x) \<Longrightarrow> load n h a = load n h' a"
  by (induction n arbitrary: a) (auto simp: bytes_at_Suc)

lemma store_other: "x \<notin> bytes_at a n \<Longrightarrow> store n a v h x = h x"
  by (induction n arbitrary: a v h) (auto simp: bytes_at_Suc)

lemma load_store_other:
  "bytes_at a n \<inter> bytes_at b k = {} \<Longrightarrow> load n (store k b v h) a = load n h a"
  by (rule load_cong) (auto simp: store_other disjoint_iff)

lemma load_bound: "load n h a < 256 ^ n"
proof (induction n arbitrary: a)
  case (Suc n)
  from Suc [of "a + 1"] unat_u8_lt [of "h a"] show ?case by simp
qed simp

lemma notin_bytes_at_next: "n < 2 ^ 64 \<Longrightarrow> a \<notin> bytes_at (a + 1) n"
proof
  assume n: "n < 2 ^ 64" and "a \<in> bytes_at (a + 1) n"
  then obtain i where "i < n" and "a = a + 1 + word_of_nat i"
    by (auto simp: bytes_at_def)
  then have "word_of_nat (Suc i) = (0 :: addr)" by (simp add: algebra_simps)
  then have "unat (word_of_nat (Suc i) :: addr) = 0" by simp
  with n \<open>i < n\<close> show False by (simp add: unat_of_nat del: of_nat_Suc)
qed

lemma load_store_same: "n < 2 ^ 64 \<Longrightarrow> load n (store n a v h) a = v mod 256 ^ n"
proof (induction n arbitrary: a v h)
  case (Suc n)
  have "store n (a + 1) (v div 256) (h(a := word_of_nat v)) a = word_of_nat v"
    using Suc.prems by (simp add: store_other notin_bytes_at_next)
  with Suc show ?case by (simp add: unat_of_nat mod_mult2_eq)
qed simp

text \<open>The C-typed laws: a load after a store of the same object, and of a disjoint one.\<close>

lemma read64_write64 [simp, mem_simps]: "read64 (write64 a v h) a = v"
  using unat_u64_lt [of v]
  by (simp add: read64_def write64_def load_store_same)

lemma read32_write32 [simp, mem_simps]: "read32 (write32 a v h) a = v"
  using unat_u32_lt [of v]
  by (simp add: read32_def write32_def load_store_same)

lemma read64_write64_other [mem_simps]:
  "bytes_at a 8 \<inter> bytes_at b 8 = {} \<Longrightarrow> read64 (write64 b v h) a = read64 h a"
  by (simp add: read64_def write64_def load_store_other)

lemma read64_write32_other [mem_simps]:
  "bytes_at a 8 \<inter> bytes_at b 4 = {} \<Longrightarrow> read64 (write32 b v h) a = read64 h a"
  by (simp add: read64_def write32_def load_store_other)

lemma read32_write64_other [mem_simps]:
  "bytes_at a 4 \<inter> bytes_at b 8 = {} \<Longrightarrow> read32 (write64 b v h) a = read32 h a"
  by (simp add: read32_def write64_def load_store_other)

lemma read32_write32_other [mem_simps]:
  "bytes_at a 4 \<inter> bytes_at b 4 = {} \<Longrightarrow> read32 (write32 b v h) a = read32 h a"
  by (simp add: read32_def write32_def load_store_other)

lemma write64_other: "x \<notin> bytes_at a 8 \<Longrightarrow> write64 a v h x = h x"
  by (simp add: write64_def store_other)

lemma write32_other: "x \<notin> bytes_at a 4 \<Longrightarrow> write32 a v h x = h x"
  by (simp add: write32_def store_other)

lemma read64_cong: "(\<And>x. x \<in> bytes_at a 8 \<Longrightarrow> h x = h' x) \<Longrightarrow> read64 h a = read64 h' a"
  unfolding read64_def by (metis load_cong)

lemma read32_cong: "(\<And>x. x \<in> bytes_at a 4 \<Longrightarrow> h x = h' x) \<Longrightarrow> read32 h a = read32 h' a"
  unfolding read32_def by (metis load_cong)

text \<open>Disjointness of byte ranges that do not wrap is interval arithmetic.\<close>

lemma bytes_at_disjoint:
  assumes "unat a + n \<le> 2 ^ 64" and "unat b + k \<le> 2 ^ 64"
    and "unat a + n \<le> unat b \<or> unat b + k \<le> unat a"
  shows "bytes_at a n \<inter> bytes_at b k = {}"
  using assms by (auto simp: in_bytes_at)

lemma bytes_at_mono: "n \<le> k \<Longrightarrow> bytes_at a n \<subseteq> bytes_at a k"
  by (auto simp: bytes_at_def)

lemma bytes_at_add: "bytes_at a (n + k) = bytes_at a n \<union> bytes_at (a + word_of_nat n) k"
  by (induction n arbitrary: a) (auto simp: bytes_at_Suc algebra_simps)

lemma bytes_at_shift: "off + k \<le> n \<Longrightarrow> bytes_at (a + word_of_nat off) k \<subseteq> bytes_at a n"
  using bytes_at_add [of a off k] bytes_at_mono [of "off + k" n a] by auto

lemma bytes_apart:
  assumes "n + k \<le> 2 ^ 64"
  shows "bytes_at a n \<inter> bytes_at (a + word_of_nat n) k = {}"
proof -
  have "word_of_nat i \<noteq> (word_of_nat (n + j) :: addr)" if "i < n" "j < k" for i j
  proof
    assume "word_of_nat i = (word_of_nat (n + j) :: addr)"
    then have "unat (word_of_nat i :: addr) = unat (word_of_nat (n + j) :: addr)" by simp
    with that assms show False by (simp add: unat_of_nat del: of_nat_add)
  qed
  then show ?thesis by (fastforce simp: bytes_at_def add.assoc)
qed

subsection \<open>\<open>memset\<close> and \<open>memcpy\<close>\<close>

text \<open>
  The loops of the two routines, on the number of bytes still to write. The C parameter
  \<open>n\<close> is a \<open>size_t\<close>, which include/stdlib/stddef.h makes 32 bits wide.
\<close>

fun memset_loop :: "addr \<Rightarrow> u8 \<Rightarrow> nat \<Rightarrow> mem \<Rightarrow> mem" where
  "memset_loop p ch 0 h = h"
| "memset_loop p ch (Suc n) h = memset_loop (p + 1) ch n (h(p := ch))"

definition memset :: "addr \<Rightarrow> u32 \<Rightarrow> u32 \<Rightarrow> mem \<Rightarrow> mem" where
  "memset buf ch n h = memset_loop buf (ucast ch) (unat n) h"

fun memcpy_loop :: "addr \<Rightarrow> addr \<Rightarrow> nat \<Rightarrow> mem \<Rightarrow> mem" where
  "memcpy_loop x y 0 h = h"
| "memcpy_loop x y (Suc n) h = memcpy_loop (x + 1) (y + 1) n (h(x := h y))"

definition memcpy :: "addr \<Rightarrow> addr \<Rightarrow> u32 \<Rightarrow> mem \<Rightarrow> mem" where
  "memcpy buf1 buf2 n h = memcpy_loop buf1 buf2 (unat n) h"

lemma memset_loop_eq: "memset_loop p ch n h x = (if x \<in> bytes_at p n then ch else h x)"
  by (induction n arbitrary: p h) (auto simp: bytes_at_Suc)

lemma memset_apply: "memset p ch n h x = (if x \<in> bytes_at p (unat n) then ucast ch else h x)"
  by (simp add: memset_def memset_loop_eq)

lemma memcpy_loop_other: "x \<notin> bytes_at p n \<Longrightarrow> memcpy_loop p q n h x = h x"
  by (induction n arbitrary: p q h) (auto simp: bytes_at_Suc)

lemma memcpy_loop_at:
  "bytes_at p n \<inter> bytes_at q n = {} \<Longrightarrow> n \<le> 2 ^ 64 \<Longrightarrow> i < n \<Longrightarrow>
   memcpy_loop p q n h (p + word_of_nat i) = h (q + word_of_nat i)"
proof (induction n arbitrary: p q h i)
  case (Suc n)
  have p: "p \<notin> bytes_at (p + 1) n" using Suc.prems(2) by (intro notin_bytes_at_next) simp
  show ?case
  proof (cases i)
    case 0
    with p show ?thesis by (simp add: memcpy_loop_other)
  next
    case (Suc j)
    let ?h = "h(p := h q)"
    have "memcpy_loop (p + 1) (q + 1) n ?h (p + 1 + word_of_nat j) = ?h (q + 1 + word_of_nat j)"
      using Suc.prems Suc by (intro Suc.IH) (auto simp: bytes_at_Suc)
    moreover have "q + 1 + word_of_nat j \<noteq> p"
      using Suc.prems Suc bytes_at_I [of j n "q + 1"] by (auto simp: bytes_at_Suc)
    ultimately show ?thesis using Suc by (simp add: algebra_simps)
  qed
qed simp

lemma memcpy_other: "x \<notin> bytes_at p (unat n) \<Longrightarrow> memcpy p q n h x = h x"
  by (simp add: memcpy_def memcpy_loop_other)

lemma memcpy_at:
  assumes "bytes_at p (unat n) \<inter> bytes_at q (unat n) = {}" and "i < unat n"
  shows "memcpy p q n h (p + word_of_nat i) = h (q + word_of_nat i)"
  using assms unat_u32_lt [of n] by (simp add: memcpy_def memcpy_loop_at)

text \<open>Zeroed memory reads as zero at every width.\<close>

lemma load_zero: "(\<And>x. x \<in> bytes_at a n \<Longrightarrow> h x = 0) \<Longrightarrow> load n h a = 0"
  by (induction n arbitrary: a) (auto simp: bytes_at_Suc)

lemma read64_zero: "(\<And>x. x \<in> bytes_at a 8 \<Longrightarrow> h x = 0) \<Longrightarrow> read64 h a = 0"
  by (simp add: read64_def load_zero)

end
