(* ===== verification/Cpu.thy ===== *)
theory Cpu
  imports Memory
begin

unbundle bit_operations_syntax

text \<open>
  The processor as far as the assembler files need it: general registers, the bits of RFLAGS the
  code uses, segment and control registers, model specific registers and memory. One definition
  per instruction, with the operands in the order of the AT\&T syntax; a routine is the list of
  its instructions. Of the status flags only ZF is kept, the one the code tests. Addresses of
  instructions are not modelled: the program counter is what a return or a gate loads.
\<close>

subsection \<open>State\<close>

datatype reg = RAX | RBX | RCX | RDX | RSI | RDI | RBP | RSP | R8 | R9 | R10 | R11 | R12 | R13 | R14 | R15

datatype segment_reg = CS | SS | DS | ES | FS | GS

datatype control_reg = CR0 | CR2 | CR3 | CR4 | XCR0

record cpu =
  gpr :: "reg \<Rightarrow> u64"
  eflags :: u64
  pc :: addr
  seg :: "segment_reg \<Rightarrow> u16"
  creg :: "control_reg \<Rightarrow> u64"
  msrs :: "u32 \<Rightarrow> u64"
  ram :: mem

type_synonym instr = "cpu \<Rightarrow> cpu"

definition run_code :: "instr list \<Rightarrow> instr" where
  "run_code is = fold id is"

lemma run_code_simps [simp]: "run_code [] c = c" "run_code (i # is) c = run_code is (i c)"
  "run_code (is @ js) c = run_code js (run_code is c)"
  by (simp_all add: run_code_def)

subsection \<open>Moves and the stack\<close>

definition set_reg :: "reg \<Rightarrow> u64 \<Rightarrow> instr" where
  "set_reg r v c = c\<lparr>gpr := (gpr c)(r := v)\<rparr>"

definition movq :: "reg \<Rightarrow> reg \<Rightarrow> instr" where
  "movq s d c = set_reg d (gpr c s) c"

text \<open>The 32-bit forms clear the upper half of their destination.\<close>

definition movl :: "reg \<Rightarrow> reg \<Rightarrow> instr" where
  "movl s d c = set_reg d (take_bit 32 (gpr c s)) c"

definition xorq :: "reg \<Rightarrow> reg \<Rightarrow> instr" where
  "xorq s d c = set_reg d (gpr c d XOR gpr c s) c"

definition orq :: "reg \<Rightarrow> reg \<Rightarrow> instr" where
  "orq s d c = set_reg d (gpr c d OR gpr c s) c"

definition addq :: "u64 \<Rightarrow> reg \<Rightarrow> instr" where
  "addq v d c = set_reg d (gpr c d + v) c"

definition push :: "u64 \<Rightarrow> instr" where
  "push v c = (let sp = gpr c RSP - 8 in (set_reg RSP sp c)\<lparr>ram := write64 sp v (ram c)\<rparr>)"

definition top :: "cpu \<Rightarrow> u64" where
  "top c = read64 (ram c) (gpr c RSP)"

definition drop_top :: instr where
  "drop_top c = set_reg RSP (gpr c RSP + 8) c"

definition pushq :: "reg \<Rightarrow> instr" where
  "pushq r c = push (gpr c r) c"

definition popq :: "reg \<Rightarrow> instr" where
  "popq r c = set_reg r (top c) (drop_top c)"

definition retq :: instr where
  "retq c = (drop_top c)\<lparr>pc := top c\<rparr>"

subsection \<open>Flags\<close>

definition ZF :: nat where "ZF = 6"
definition IF :: nat where "IF = 9"
definition DF :: nat where "DF = 10"

definition flag :: "nat \<Rightarrow> cpu \<Rightarrow> bool" where
  "flag n c = bit (eflags c) n"

definition set_flag :: "nat \<Rightarrow> bool \<Rightarrow> instr" where
  "set_flag n b c = c\<lparr>eflags := (if b then set_bit n (eflags c) else unset_bit n (eflags c))\<rparr>"

definition cld :: instr where "cld = set_flag DF False"
definition cli :: instr where "cli = set_flag IF False"

definition pushfq :: instr where "pushfq c = push (eflags c) c"

definition popfq :: instr where "popfq c = (drop_top c)\<lparr>eflags := top c\<rparr>"

text \<open>Results decide ZF; a shift by 0 would not, and does not occur.\<close>

definition set_result :: "reg \<Rightarrow> u64 \<Rightarrow> instr" where
  "set_result r v c = set_flag ZF (v = 0) (set_reg r v c)"

definition shrq :: "nat \<Rightarrow> reg \<Rightarrow> instr" where "shrq n r c = set_result r (drop_bit n (gpr c r)) c"
definition shlq :: "nat \<Rightarrow> reg \<Rightarrow> instr" where "shlq n r c = set_result r (push_bit n (gpr c r)) c"
definition subq :: "reg \<Rightarrow> reg \<Rightarrow> instr" where "subq s d c = set_result d (gpr c d - gpr c s) c"
definition cmpq0 :: "reg \<Rightarrow> instr" where "cmpq0 r c = set_flag ZF (gpr c r = 0) c"

subsection \<open>Laws\<close>

lemma set_reg_simps [simp]:
  "gpr (set_reg r v c) = (gpr c)(r := v)" "eflags (set_reg r v c) = eflags c" "pc (set_reg r v c) = pc c"
  "seg (set_reg r v c) = seg c" "creg (set_reg r v c) = creg c" "msrs (set_reg r v c) = msrs c" "ram (set_reg r v c) = ram c"
  by (simp_all add: set_reg_def)

lemma set_flag_simps [simp]:
  "gpr (set_flag n b c) = gpr c" "pc (set_flag n b c) = pc c"
  "seg (set_flag n b c) = seg c" "creg (set_flag n b c) = creg c" "msrs (set_flag n b c) = msrs c" "ram (set_flag n b c) = ram c"
  by (simp_all add: set_flag_def)

lemma flag_set_flag [simp]: "n < 64 \<Longrightarrow> flag m (set_flag n b c) = (if m = n then b else flag m c)"
  by (auto simp: flag_def set_flag_def bit_simps)

lemma eflags_set_flag [simp]:
  "set_bit n (set_bit n (x :: u64)) = set_bit n x" "set_bit n (unset_bit n x) = set_bit n x"
  "unset_bit n (set_bit n x) = unset_bit n x" "unset_bit n (unset_bit n x) = unset_bit n x"
  by (rule bit_word_eqI; auto simp: bit_simps)+

lemma set_flag_same [simp]: "set_flag n (flag n c) c = c"
proof -
  have "(if bit x n then set_bit n x else unset_bit n x) = x" for x :: u64 by (rule bit_word_eqI) (auto simp: bit_simps)
  then show ?thesis by (simp add: set_flag_def flag_def)
qed

lemma flag_cong [simp]: "flag n (set_reg r v c) = flag n c" "flag n (c\<lparr>ram := h\<rparr>) = flag n c"
  by (simp_all add: flag_def)

lemma push_simps [simp]:
  "gpr (push v c) = (gpr c)(RSP := gpr c RSP - 8)" "eflags (push v c) = eflags c" "pc (push v c) = pc c"
  "seg (push v c) = seg c" "creg (push v c) = creg c" "msrs (push v c) = msrs c"
  "ram (push v c) = write64 (gpr c RSP - 8) v (ram c)"
  by (simp_all add: push_def Let_def)

lemma drop_top_simps [simp]:
  "gpr (drop_top c) = (gpr c)(RSP := gpr c RSP + 8)" "eflags (drop_top c) = eflags c" "pc (drop_top c) = pc c"
  "seg (drop_top c) = seg c" "creg (drop_top c) = creg c" "msrs (drop_top c) = msrs c" "ram (drop_top c) = ram c"
  by (simp_all add: drop_top_def)

lemma flag_push [simp]: "flag n (push v c) = flag n c" "flag n (drop_top c) = flag n c"
  by (simp_all add: flag_def)

lemmas instr_defs = movq_def movl_def xorq_def orq_def addq_def pushq_def popq_def retq_def cld_def cli_def pushfq_def popfq_def
  set_result_def shrq_def shlq_def subq_def cmpq0_def

subsection \<open>What is on the stack\<close>

text \<open>The words from an address upwards.\<close>

fun words_at :: "addr \<Rightarrow> u64 list \<Rightarrow> mem \<Rightarrow> bool" where
  "words_at a [] h \<longleftrightarrow> True"
| "words_at a (w # ws) h \<longleftrightarrow> read64 h a = w \<and> words_at (a + 8) ws h"

lemma words_at_cong:
  "(\<And>x. x \<in> bytes_at a (8 * length ws) \<Longrightarrow> h x = h' x) \<Longrightarrow> words_at a ws h = words_at a ws h'"
proof (induction ws arbitrary: a)
  case (Cons w ws)
  have b: "bytes_at a (8 * length (w # ws)) = bytes_at a 8 \<union> bytes_at (a + 8) (8 * length ws)"
    using bytes_at_add [of a 8 "8 * length ws"] by simp
  with Cons show ?case by (simp add: read64_cong [of a h h'])
qed simp

lemma words_push:
  assumes "words_at (a + 8) ws h" "8 * Suc (length ws) \<le> 2 ^ 64"
  shows "words_at a (v # ws) (write64 a v h)"
proof -
  have "bytes_at a 8 \<inter> bytes_at (a + 8) (8 * length ws) = {}" using bytes_apart [of 8 "8 * length ws" a] assms(2) by simp
  then have "words_at (a + 8) ws (write64 a v h) = words_at (a + 8) ws h"
    by (intro words_at_cong write64_other) blast
  with assms(1) show ?thesis by simp
qed

lemma push_words: "words_at (gpr c RSP) ws (ram c) \<Longrightarrow> 8 * Suc (length ws) \<le> 2 ^ 64 \<Longrightarrow>
  words_at (gpr (push v c) RSP) (v # ws) (ram (push v c))"
  using words_push [of "gpr c RSP - 8" ws "ram c" v] by simp

lemma words_at_append: "words_at a (vs @ ws) h \<longleftrightarrow> words_at a vs h \<and> words_at (a + 8 * word_of_nat (length vs)) ws h"
  by (induction vs arbitrary: a) (simp_all add: algebra_simps)

text \<open>Pushing from the first to the last leaves the last on top.\<close>

definition pushes :: "u64 list \<Rightarrow> instr" where
  "pushes vs = fold push vs"

lemma pushes_Nil [simp]: "pushes [] c = c"
  by (simp add: pushes_def)

lemma pushes_Cons: "pushes (v # vs) c = pushes vs (push v c)"
  by (simp add: pushes_def)

lemma pushes_append: "pushes (vs @ ws) c = pushes ws (pushes vs c)"
  by (simp add: pushes_def)

lemma pushes_simps [simp]:
  "gpr (pushes vs c) = (gpr c)(RSP := gpr c RSP - 8 * word_of_nat (length vs))" "eflags (pushes vs c) = eflags c"
  "pc (pushes vs c) = pc c" "seg (pushes vs c) = seg c" "creg (pushes vs c) = creg c" "msrs (pushes vs c) = msrs c"
  by (induction vs arbitrary: c) (simp_all add: pushes_Cons algebra_simps)

lemma pushes_words:
  assumes "words_at (gpr c RSP) ws (ram c)" "8 * (length vs + length ws) \<le> 2 ^ 64"
  shows "words_at (gpr c RSP - 8 * word_of_nat (length vs)) (rev vs @ ws) (ram (pushes vs c))"
  using assms
proof (induction vs arbitrary: c ws)
  case (Cons v vs)
  have "words_at (gpr (push v c) RSP) (v # ws) (ram (push v c))" using Cons.prems by (intro push_words) simp_all
  from Cons.IH [OF this] Cons.prems(2) show ?case by (simp add: pushes_Cons algebra_simps)
qed simp

lemma pushes_other:
  "x \<notin> bytes_at (gpr c RSP - 8 * word_of_nat (length vs)) (8 * length vs) \<Longrightarrow> ram (pushes vs c) x = ram c x"
proof (induction vs arbitrary: c)
  case (Cons v vs)
  let ?a = "gpr c RSP - 8 - 8 * word_of_nat (length vs)"
  have "bytes_at ?a (8 * length vs + 8) = bytes_at ?a (8 * length vs) \<union> bytes_at (gpr c RSP - 8) 8"
    using bytes_at_add [of ?a "8 * length vs" 8] by simp
  with Cons show ?case by (simp add: pushes_Cons algebra_simps write64_other)
qed simp

lemma pushq_pushes: "RSP \<notin> set rs \<Longrightarrow> run_code (map pushq rs) c = pushes (map (gpr c) rs) c"
proof (induction rs arbitrary: c)
  case (Cons r rs)
  then have "map (gpr (push (gpr c r) c)) rs = map (gpr c) rs" by auto
  with Cons show ?case by (simp add: pushq_def pushes_Cons)
qed simp

end
