(* ===== verification/Addresses.thy ===== *)
theory Addresses
  imports Memory
begin

unbundle bit_operations_syntax

text \<open>
  The two linear windows of the kernel's address space (include/paging.h): all physical memory
  is mapped from \<open>PAGE_OFFSET\<close>, and the kernel image from \<open>KERNEL_MAPPING\<close> onto the physical
  addresses from 1 MB. \<open>P2V\<close> is the macro of include/paging.h, \<open>v2p\<close> the function
  \<open>_v2p\<close> of kernel/paging.c behind the macro \<open>V2P\<close>.
\<close>

definition KERNEL_MAPPING :: addr where
  "KERNEL_MAPPING = 0xffff800000000000"

definition PAGE_OFFSET :: addr where
  "PAGE_OFFSET = 0xffff806000000000"

definition P2V :: "u64 \<Rightarrow> addr" where
  "P2V a = PAGE_OFFSET + a"

definition v2p :: "addr \<Rightarrow> u64" where
  "v2p v = (if v - PAGE_OFFSET < v then v - PAGE_OFFSET else v - KERNEL_MAPPING + 0x100000)"

text \<open>The test of \<open>_v2p\<close> decides exactly which window an address lies in.\<close>

lemma v2p_test: "v - PAGE_OFFSET < v \<longleftrightarrow> PAGE_OFFSET \<le> v"
proof
  assume "PAGE_OFFSET \<le> v"
  then show "v - PAGE_OFFSET < v"
    by (simp add: word_less_nat_alt word_le_nat_alt unat_sub PAGE_OFFSET_def)
next
  assume l: "v - PAGE_OFFSET < v"
  show "PAGE_OFFSET \<le> v"
  proof (rule ccontr)
    assume "\<not> PAGE_OFFSET \<le> v"
    with l show False
      by (simp add: word_less_nat_alt word_le_nat_alt unat_sub_if_size word_size PAGE_OFFSET_def)
  qed
qed

lemma v2p_direct: "PAGE_OFFSET \<le> v \<Longrightarrow> v2p v = v - PAGE_OFFSET"
  by (auto simp: v2p_def v2p_test)

lemma v2p_image: "v < PAGE_OFFSET \<Longrightarrow> v2p v = v - KERNEL_MAPPING + 0x100000"
  by (auto simp: v2p_def v2p_test)

lemma P2V_window: "unat p < 2 ^ 64 - unat PAGE_OFFSET \<Longrightarrow> PAGE_OFFSET \<le> P2V p"
  by (simp add: P2V_def word_le_nat_alt unat_word_ariths PAGE_OFFSET_def)

lemma v2p_P2V: "unat p < 2 ^ 64 - unat PAGE_OFFSET \<Longrightarrow> v2p (P2V p) = p"
  using P2V_window [of p] by (simp add: v2p_direct) (simp add: P2V_def)

lemma P2V_v2p: "PAGE_OFFSET \<le> v \<Longrightarrow> P2V (v2p v) = v"
  by (simp add: v2p_direct P2V_def)

end
