(* ===== verification/Alloc_Contract.thy ===== *)
theory Alloc_Contract
  imports Memory
begin

text \<open>
  The contract between the page allocator and its clients (page tables, rings, device
  contexts). \<open>inv s F\<close> says that in state \<open>s\<close> the allocator owns the bytes \<open>F\<close>; the clients
  own all other memory. \<open>alloc\<close> returns \<open>None\<close> when it does not return, and pointer 0 for
  \<open>NULL\<close>. A client may change any memory it owns without telling the allocator.
\<close>

locale page_allocator =
  fixes alloc :: "u32 \<Rightarrow> 's \<Rightarrow> (addr \<times> 's) option"
    and mem_of :: "'s \<Rightarrow> mem"
    and put_mem :: "mem \<Rightarrow> 's \<Rightarrow> 's"
    and inv :: "'s \<Rightarrow> addr set \<Rightarrow> bool"
  assumes alloc_returns: "inv s F \<Longrightarrow> p \<noteq> 0 \<Longrightarrow> unat p < 2 ^ 20 \<Longrightarrow> \<exists>r s'. alloc p s = Some (r, s')"
    and alloc_null: "inv s F \<Longrightarrow> p \<noteq> 0 \<Longrightarrow> unat p < 2 ^ 20 \<Longrightarrow> alloc p s = Some (0, s') \<Longrightarrow> s' = s"
    and alloc_block: "inv s F \<Longrightarrow> p \<noteq> 0 \<Longrightarrow> unat p < 2 ^ 20 \<Longrightarrow> alloc p s = Some (r, s') \<Longrightarrow> r \<noteq> 0 \<Longrightarrow>
      4096 dvd unat r \<and> unat r + 4096 * unat p < 2 ^ 64 \<and> bytes_at r (4096 * unat p) \<subseteq> F \<and>
      inv s' (F - bytes_at r (4096 * unat p)) \<and>
      (\<forall>x. x \<notin> F - bytes_at r (4096 * unat p) \<longrightarrow> mem_of s' x = mem_of s x)"
    and mem_of_put: "mem_of (put_mem h s) = h"
    and inv_put: "inv s F \<Longrightarrow> (\<forall>x \<in> F. h x = mem_of s x) \<Longrightarrow> inv (put_mem h s) F"
begin

text \<open>The clients' idiom \<open>p = alloc_mem(n); memset(p, 0, k)\<close>.\<close>

lemma alloc_zeroed:
  assumes "inv s F" and "p \<noteq> 0" and "unat p < 2 ^ 20" and al: "alloc p s = Some (r, s')" "r \<noteq> 0"
    and k: "unat k \<le> 4096 * unat p"
  defines "t \<equiv> put_mem (memset r 0 k (mem_of s')) s'" and "B \<equiv> bytes_at r (4096 * unat p)"
  shows "inv t (F - B)" "\<forall>x \<in> bytes_at r (unat k). mem_of t x = 0"
    "\<forall>x. x \<notin> F \<longrightarrow> mem_of t x = mem_of s x"
proof -
  note blk = alloc_block [OF assms(1-3) al, folded B_def]
  have sub: "bytes_at r (unat k) \<subseteq> B" using k by (simp add: B_def bytes_at_mono)
  show "inv t (F - B)"
    unfolding t_def using blk sub by (intro inv_put) (auto simp: memset_apply)
  show "\<forall>x \<in> bytes_at r (unat k). mem_of t x = 0"
    by (simp add: t_def mem_of_put memset_apply)
  show "\<forall>x. x \<notin> F \<longrightarrow> mem_of t x = mem_of s x"
    using blk sub by (auto simp: t_def mem_of_put memset_apply)
qed

text \<open>Two blocks handed out one after the other do not overlap.\<close>

lemma alloc_twice_disjoint:
  assumes "inv s F" and "p \<noteq> 0" "unat p < 2 ^ 20" "q \<noteq> 0" "unat q < 2 ^ 20"
    and "alloc p s = Some (r, s1)" "r \<noteq> 0" and "alloc q s1 = Some (r', s2)" "r' \<noteq> 0"
  shows "bytes_at r (4096 * unat p) \<inter> bytes_at r' (4096 * unat q) = {}"
proof -
  note b1 = alloc_block [OF assms(1-3) assms(6,7)]
  then have "inv s1 (F - bytes_at r (4096 * unat p))" by simp
  note alloc_block [OF this assms(4,5) assms(8,9)]
  then show ?thesis by blast
qed

end

end
