(* ===== verification/Page_Alloc.thy ===== *)
theory Page_Alloc
  imports Addresses Alloc_Contract
begin

unbundle bit_operations_syntax

text \<open>
  The page allocator of kernel/mem.c: a singly linked list of free blocks whose nodes
  (\<open>struct memlist\<close> of include/mem.h) live in the first bytes of the blocks themselves, behind
  the static list head \<open>memlist\<close>.
\<close>

subsection \<open>State and nodes\<close>

text \<open>
  \<open>heap\<close> is all of memory, \<open>ml_next\<close> and \<open>ml_pages\<close> the two fields of the static head.
  A pointer to a node is the head itself (\<open>&memlist\<close> in the code) or an address.
\<close>

record mem_state =
  heap :: mem
  ml_next :: addr
  ml_pages :: u32

datatype node = Memlist | At addr

fun next_of :: "node \<Rightarrow> mem_state \<Rightarrow> addr" where
  "next_of Memlist s = ml_next s"
| "next_of (At m) s = read64 (heap s) m"

fun pages_of :: "node \<Rightarrow> mem_state \<Rightarrow> u32" where
  "pages_of Memlist s = ml_pages s"
| "pages_of (At m) s = read32 (heap s) (m + 8)"

fun set_next :: "node \<Rightarrow> addr \<Rightarrow> mem_state \<Rightarrow> mem_state" where
  "set_next Memlist p s = s\<lparr>ml_next := p\<rparr>"
| "set_next (At m) p s = s\<lparr>heap := write64 m p (heap s)\<rparr>"

fun set_pages :: "node \<Rightarrow> u32 \<Rightarrow> mem_state \<Rightarrow> mem_state" where
  "set_pages Memlist n s = s\<lparr>ml_pages := n\<rparr>"
| "set_pages (At m) n s = s\<lparr>heap := write32 (m + 8) n (heap s)\<rparr>"

text \<open>
  The C expression \<open>4096 * pages\<close> of a \<open>uint32_t\<close> is a 32-bit product; it is widened only
  when it is added to a 64-bit address.
\<close>

definition bytes32 :: "u32 \<Rightarrow> u64" where
  "bytes32 n = ucast (4096 * n)"

subsection \<open>\<open>alloc_mem\<close>\<close>

text \<open>
  The list may be cyclic in a corrupted memory, so the loop is a partial function: \<open>None\<close> is
  a loop that does not end. The result is the pointer (0 for \<open>NULL\<close>) and the new state.
\<close>

partial_function (option) alloc_loop ::
  "u32 \<Rightarrow> node \<Rightarrow> addr \<Rightarrow> mem_state \<Rightarrow> (addr \<times> mem_state) option" where
  "alloc_loop pages prev m s =
     (if m = 0 then Some (0, s)
      else if pages_of (At m) s = pages then Some (m, set_next prev (next_of (At m) s) s)
      else if pages \<le> pages_of (At m) s then
        (let ml = m + bytes32 pages;
             s1 = set_next prev ml s;
             s2 = set_next (At ml) (next_of (At m) s1) s1;
             s3 = set_pages (At ml) (pages_of (At m) s2 - pages) s2
         in Some (m, s3))
      else alloc_loop pages (At m) (next_of (At m) s) s)"

definition alloc_mem :: "u32 \<Rightarrow> mem_state \<Rightarrow> (addr \<times> mem_state) option" where
  "alloc_mem pages s = alloc_loop pages Memlist (ml_next s) s"

subsection \<open>The free list and its abstraction\<close>

text \<open>
  A block is its address and its number of pages. \<open>flist h a bs\<close> says that the nodes reached
  from \<open>a\<close> in memory \<open>h\<close> are those of the blocks \<open>bs\<close>, in order.
\<close>

type_synonym block = "addr \<times> u32"

fun flist :: "mem \<Rightarrow> addr \<Rightarrow> block list \<Rightarrow> bool" where
  "flist h a [] = (a = 0)"
| "flist h a ((b, n) # bs) =
     (a = b \<and> a \<noteq> 0 \<and> read32 h (a + 8) = n \<and> flist h (read64 h a) bs)"

fun block_bytes :: "block \<Rightarrow> addr set" where
  "block_bytes (a, n) = bytes_at a (4096 * unat n)"

definition free_bytes :: "block list \<Rightarrow> addr set" where
  "free_bytes bs = (\<Union>b \<in> set bs. block_bytes b)"

text \<open>A block is page aligned, not empty, not at \<open>NULL\<close>, and ends before the top of the address space.\<close>

fun wf_block :: "block \<Rightarrow> bool" where
  "wf_block (a, n) \<longleftrightarrow>
     a \<noteq> 0 \<and> n \<noteq> 0 \<and> 4096 dvd unat a \<and> unat a + 4096 * unat n < 2 ^ 64"

definition wf_blocks :: "block list \<Rightarrow> bool" where
  "wf_blocks bs \<longleftrightarrow>
     (\<forall>b \<in> set bs. wf_block b) \<and> sorted_wrt (\<lambda>b c. block_bytes b \<inter> block_bytes c = {}) bs"

definition total_pages :: "block list \<Rightarrow> nat" where
  "total_pages bs = (\<Sum>(a, n) \<leftarrow> bs. unat n)"

definition alloc_inv :: "mem_state \<Rightarrow> block list \<Rightarrow> bool" where
  "alloc_inv s bs \<longleftrightarrow> flist (heap s) (ml_next s) bs \<and> wf_blocks bs"

text \<open>First fit on the abstract list: an exact block is unlinked, a larger one split.\<close>

fun abs_alloc :: "u32 \<Rightarrow> block list \<Rightarrow> (addr \<times> block list) option" where
  "abs_alloc p [] = None"
| "abs_alloc p ((a, n) # bs) =
     (if n = p then Some (a, bs)
      else if p \<le> n then Some (a, (a + bytes32 p, n - p) # bs)
      else map_option (\<lambda>(r, bs'). (r, (a, n) # bs')) (abs_alloc p bs))"

subsection \<open>Facts on blocks\<close>

lemma free_bytes_simps [simp]:
  "free_bytes [] = {}"
  "free_bytes (b # bs) = block_bytes b \<union> free_bytes bs"
  by (auto simp: free_bytes_def)

lemma wf_blocks_simps [simp]:
  "wf_blocks []"
  "wf_blocks (b # bs) \<longleftrightarrow> wf_block b \<and> block_bytes b \<inter> free_bytes bs = {} \<and> wf_blocks bs"
  by (auto simp: wf_blocks_def free_bytes_def)

lemma total_pages_simps [simp]:
  "total_pages [] = 0" "total_pages ((a, n) # bs) = unat n + total_pages bs"
  by (simp_all add: total_pages_def)

lemma bytes32_exact: "unat n < 2 ^ 20 \<Longrightarrow> unat (bytes32 n) = 4096 * unat n"
  by (simp add: bytes32_def unat_ucast_up unat_mult_exact)

lemma unat_pos: "n \<noteq> (0 :: 'a::len word) \<Longrightarrow> 1 \<le> unat n"
  by (simp add: Suc_le_eq unat_gt_0)

text \<open>The node of a well-formed block lies inside the block.\<close>

lemma hdr_in_block: "wf_block (a, n) \<Longrightarrow> bytes_at a 12 \<subseteq> block_bytes (a, n)"
  using unat_pos [of n] bytes_at_mono [of 12 "4096 * unat n" a] by simp

lemma hdr_fields:
  "bytes_at a 8 \<subseteq> bytes_at a 12" "bytes_at (a + 8) 4 \<subseteq> bytes_at a 12"
  using bytes_at_shift [of 8 4 12 a] bytes_at_mono [of 8 12 a] by simp_all

lemma hdr_fields_disjoint: "wf_block (a, n) \<Longrightarrow> bytes_at a 8 \<inter> bytes_at (a + 8) 4 = {}"
  using unat_pos [of n] unat_add_of_nat [of a 8]
  by (intro bytes_at_disjoint) auto

lemma flist_cong:
  "flist h a bs \<Longrightarrow> wf_blocks bs \<Longrightarrow> (\<And>x. x \<in> free_bytes bs \<Longrightarrow> h' x = h x) \<Longrightarrow> flist h' a bs"
proof (induction bs arbitrary: a)
  case (Cons b bs)
  obtain c n where b: "b = (c, n)" by force
  from Cons.prems b have wf: "wf_block (a, n)" and a: "c = a" by auto
  from Cons.prems b a have h: "h' x = h x" if "x \<in> bytes_at a 12" for x
    using that hdr_in_block [OF wf] by auto
  have "read32 h' (a + 8) = read32 h (a + 8)" "read64 h' a = read64 h a"
    using hdr_fields [of a] by (auto intro!: read32_cong read64_cong h)
  with Cons b show ?case by auto
qed simp

lemma flist_det: "flist h a bs \<Longrightarrow> flist h a cs \<Longrightarrow> bs = cs"
proof (induction bs arbitrary: a cs)
  case Nil
  then show ?case by (cases cs) auto
next
  case (Cons b bs)
  then show ?case by (cases b; cases cs) auto
qed

text \<open>What first fit does to the blocks.\<close>

lemma abs_alloc_None: "abs_alloc p bs = None \<longleftrightarrow> (\<forall>(a, n) \<in> set bs. n < p)"
  by (induction bs) (auto split: if_splits)

lemma split_block:
  assumes wf: "wf_block (a, n)" and p: "p \<noteq> 0" "unat p < 2 ^ 20" "p < n"
  shows "wf_block (a, p)" "wf_block (a + bytes32 p, n - p)"
    "block_bytes (a, p) \<inter> block_bytes (a + bytes32 p, n - p) = {}"
    "block_bytes (a, p) \<union> block_bytes (a + bytes32 p, n - p) = block_bytes (a, n)"
proof -
  have pn: "unat p < unat n" using p by (simp add: word_less_nat_alt)
  have np: "unat (n - p) = unat n - unat p" using p by (intro unat_sub_exact) simp
  have a: "unat a + 4096 * unat n < 2 ^ 64" using wf by simp
  have u: "unat (a + bytes32 p) = unat a + 4096 * unat p"
    using a p pn by (subst unat_add_exact) (auto simp: bytes32_exact)
  have "unat a + 4096 * unat p \<noteq> 0" using wf p by (simp add: unat_eq_0)
  then have "a + bytes32 p \<noteq> 0" using u by (metis unat_0)
  moreover have "n - p \<noteq> 0" using p by auto
  ultimately show wf2: "wf_block (a + bytes32 p, n - p)"
    using wf a pn by (auto simp: u np)
  show wf1: "wf_block (a, p)" using wf p pn a by auto
  from wf1 wf2 wf show "block_bytes (a, p) \<inter> block_bytes (a + bytes32 p, n - p) = {}"
    "block_bytes (a, p) \<union> block_bytes (a + bytes32 p, n - p) = block_bytes (a, n)"
    using pn by (auto simp: in_bytes_at u np)
qed

lemma abs_alloc_Some:
  assumes "abs_alloc p bs = Some (r, bs')" and "wf_blocks bs" and "p \<noteq> 0" and "unat p < 2 ^ 20"
  shows "wf_blocks bs' \<and> wf_block (r, p) \<and> block_bytes (r, p) \<inter> free_bytes bs' = {} \<and>
         block_bytes (r, p) \<union> free_bytes bs' = free_bytes bs \<and>
         unat p + total_pages bs' = total_pages bs"
  using assms
proof (induction bs arbitrary: bs')
  case (Cons b bs)
  obtain a n where b: "b = (a, n)" by force
  consider "n = p" | "n \<noteq> p" "p \<le> n" | "n \<noteq> p" "\<not> p \<le> n" by blast
  then show ?case
  proof cases
    case 1
    with Cons.prems b show ?thesis by auto
  next
    case 2
    with Cons.prems b have r: "r = a" and bs': "bs' = (a + bytes32 p, n - p) # bs" by auto
    from 2 have "p < n" by simp
    with Cons.prems b have wf: "wf_block (a, n)" and pn: "unat p < unat n"
      by (auto simp: word_less_nat_alt)
    have np: "unat (n - p) = unat n - unat p" using \<open>p \<le> n\<close> by (rule unat_sub_exact)
    note sp = split_block [OF wf \<open>p \<noteq> 0\<close> \<open>unat p < 2 ^ 20\<close> \<open>p < n\<close>]
    from Cons.prems b have "block_bytes (a, n) \<inter> free_bytes bs = {}" and "wf_blocks bs" by auto
    with sp np pn show ?thesis unfolding r bs' b by (simp del: block_bytes.simps wf_block.simps) blast
  next
    case 3
    with Cons.prems b obtain bs'' where al: "abs_alloc p bs = Some (r, bs'')"
      and bs': "bs' = (a, n) # bs''" by auto
    from Cons.IH [OF al] Cons.prems b have "wf_blocks bs'' \<and> wf_block (r, p) \<and>
      block_bytes (r, p) \<inter> free_bytes bs'' = {} \<and>
      block_bytes (r, p) \<union> free_bytes bs'' = free_bytes bs \<and>
      unat p + total_pages bs'' = total_pages bs" by simp
    with Cons.prems b bs' show ?thesis
      by (simp del: block_bytes.simps wf_block.simps) blast
  qed
qed simp

subsection \<open>\<open>alloc_mem\<close> implements first fit\<close>

text \<open>The part of memory in which the loop may redirect the predecessor.\<close>

fun next_field :: "node \<Rightarrow> addr set" where
  "next_field Memlist = {}"
| "next_field (At q) = bytes_at q 8"

lemma next_of_set_next [simp]: "next_of nd (set_next nd p s) = p"
  by (cases nd) simp_all

lemma set_next_heap: "x \<notin> next_field nd \<Longrightarrow> heap (set_next nd p s) x = heap s x"
  by (cases nd) (simp_all add: write64_other)

lemma set_next_static [simp]:
  "ml_pages (set_next nd p s) = ml_pages s"
  "nd \<noteq> Memlist \<Longrightarrow> ml_next (set_next nd p s) = ml_next s"
  by (cases nd; simp)+

lemma next_of_cong:
  "(\<And>x. x \<in> next_field nd \<Longrightarrow> heap t x = heap s x) \<Longrightarrow> (nd = Memlist \<Longrightarrow> ml_next t = ml_next s) \<Longrightarrow>
   next_of nd t = next_of nd s"
  by (cases nd) (auto intro!: read64_cong)

definition alloc_post ::
  "node \<Rightarrow> block list \<Rightarrow> addr \<times> mem_state \<Rightarrow> addr \<Rightarrow> mem_state \<Rightarrow> bool" where
  "alloc_post prev bs' rs r s \<longleftrightarrow>
     fst rs = r \<and> flist (heap (snd rs)) (next_of prev (snd rs)) bs' \<and>
     (\<forall>x. x \<notin> next_field prev \<union> free_bytes bs' \<longrightarrow> heap (snd rs) x = heap s x) \<and>
     ml_pages (snd rs) = ml_pages s \<and> (prev \<noteq> Memlist \<longrightarrow> ml_next (snd rs) = ml_next s)"

lemma alloc_unlink:
  assumes "flist (heap s) a ((a, n) # bs)" and "wf_blocks ((a, n) # bs)"
    and "next_field prev \<inter> free_bytes ((a, n) # bs) = {}"
  shows "alloc_post prev bs (a, set_next prev (next_of (At a) s) s) a s"
proof -
  have "flist (heap s) (read64 (heap s) a) bs" using assms by simp
  then have "flist (heap (set_next prev (read64 (heap s) a) s)) (read64 (heap s) a) bs"
    by (rule flist_cong) (use assms in \<open>auto intro: set_next_heap\<close>)
  then show ?thesis by (simp add: alloc_post_def set_next_heap)
qed

lemma alloc_split:
  assumes fl: "flist (heap s) a ((a, n) # bs)" and wfs: "wf_blocks ((a, n) # bs)"
    and prev: "next_field prev \<inter> free_bytes ((a, n) # bs) = {}"
    and p: "p \<noteq> 0" "unat p < 2 ^ 20" "p < n"
    and ml: "ml = a + bytes32 p"
    and s1: "s1 = set_next prev ml s"
    and s2: "s2 = set_next (At ml) (next_of (At a) s1) s1"
    and s3: "s3 = set_pages (At ml) (pages_of (At a) s2 - p) s2"
  shows "alloc_post prev ((ml, n - p) # bs) (a, s3) a s"
proof -
  from wfs have wf: "wf_block (a, n)" and dj: "block_bytes (a, n) \<inter> free_bytes bs = {}" by auto
  note sp = split_block [OF wf p, folded ml]
  have hdr: "bytes_at a 12 \<subseteq> block_bytes (a, p)" by (rule hdr_in_block [OF sp(1)])
  have hdr': "bytes_at ml 12 \<subseteq> block_bytes (ml, n - p)" by (rule hdr_in_block [OF sp(2)])
  have djh: "bytes_at a 12 \<inter> bytes_at ml 12 = {}" using hdr hdr' sp(3) by blast
  have sub: "bytes_at ml 12 \<subseteq> block_bytes (a, n)" "bytes_at a 12 \<subseteq> block_bytes (a, n)"
    using hdr hdr' sp(4) by blast+
  note f = hdr_fields [of a] hdr_fields [of ml]
  have h1: "heap s1 x = heap s x" if "x \<in> free_bytes ((a, n) # bs)" for x
    using prev that unfolding s1 by (intro set_next_heap) auto
  have na: "next_of (At a) s1 = next_of (At a) s"
    using sub f h1 by (intro next_of_cong) auto
  have h2: "heap s2 x = heap s1 x" if "x \<notin> bytes_at ml 8" for x
    using that unfolding s2 by (simp add: write64_other)
  have pa: "pages_of (At a) s2 = n"
  proof -
    have "heap s2 x = heap s x" if x: "x \<in> bytes_at (a + 8) 4" for x
    proof -
      from x f have "x \<in> bytes_at a 12" by blast
      moreover from this djh f have "x \<notin> bytes_at ml 8" by blast
      ultimately show ?thesis using sub h1 h2 by (auto simp del: block_bytes.simps)
    qed
    then have "pages_of (At a) s2 = pages_of (At a) s"
      by (auto intro!: read32_cong)
    then show ?thesis using fl by simp
  qed
  have h3: "heap s3 x = heap s2 x" if "x \<notin> bytes_at (ml + 8) 4" for x
    using that unfolding s3 by (simp add: write32_other)
  have frame: "heap s3 x = heap s x" if "x \<notin> next_field prev" "x \<notin> block_bytes (ml, n - p)" for x
  proof -
    from that(2) hdr' f have "x \<notin> bytes_at ml 8" "x \<notin> bytes_at (ml + 8) 4" by blast+
    then have "heap s3 x = heap s1 x" using h2 h3 by simp
    also have "\<dots> = heap s x" using that(1) by (simp add: s1 set_next_heap)
    finally show ?thesis .
  qed
  have nm: "next_of (At ml) s3 = read64 (heap s) a"
  proof -
    have "next_of (At ml) s3 = next_of (At ml) s2"
      using hdr_fields_disjoint [OF sp(2)] h3 by (intro next_of_cong) auto
    then show ?thesis using na by (simp add: s2)
  qed
  have "flist (heap s) (read64 (heap s) a) bs" using fl by simp
  then have tl: "flist (heap s3) (read64 (heap s) a) bs"
    by (rule flist_cong) (use wfs sp(4) dj prev frame in \<open>auto simp del: block_bytes.simps\<close>)
  have np: "next_of prev s3 = ml"
  proof -
    have "heap s3 x = heap s1 x" if "x \<in> next_field prev" for x
    proof -
      from that prev have "x \<notin> block_bytes (a, n)" by auto
      with sub f have "x \<notin> bytes_at ml 8" "x \<notin> bytes_at (ml + 8) 4" by blast+
      then show ?thesis using h2 h3 by simp
    qed
    then have "next_of prev s3 = next_of prev s1"
      by (rule next_of_cong) (simp_all add: s3 s2)
    then show ?thesis by (simp add: s1)
  qed
  have "read32 (heap s3) (ml + 8) = n - p" using pa by (simp add: s3)
  moreover have "ml \<noteq> 0" using sp(2) by simp
  ultimately have "flist (heap s3) ml ((ml, n - p) # bs)" using tl nm by simp
  moreover have "ml_pages s3 = ml_pages s" "prev \<noteq> Memlist \<longrightarrow> ml_next s3 = ml_next s"
    by (simp_all add: s3 s2 s1)
  ultimately show ?thesis
    using np frame by (auto simp: alloc_post_def simp del: block_bytes.simps)
qed

lemma alloc_loop_spec:
  assumes "flist (heap s) m bs" and "wf_blocks bs" and "p \<noteq> 0" and "unat p < 2 ^ 20"
    and "next_of prev s = m" and "next_field prev \<inter> free_bytes bs = {}"
  shows "case abs_alloc p bs of
           None \<Rightarrow> alloc_loop p prev m s = Some (0, s)
         | Some (r, bs') \<Rightarrow>
             \<exists>rs. alloc_loop p prev m s = Some rs \<and> alloc_post prev bs' rs r s"
  using assms
proof (induction bs arbitrary: m prev)
  case Nil
  then show ?case by (simp add: alloc_loop.simps)
next
  case (Cons b bs)
  obtain a n where b: "b = (a, n)" by force
  with Cons.prems have m: "m = a" "a \<noteq> 0" and n: "read32 (heap s) (a + 8) = n" by auto
  consider "n = p" | "n \<noteq> p" "p \<le> n" | "n \<noteq> p" "\<not> p \<le> n" by blast
  then show ?case
  proof cases
    case 1
    then show ?thesis using Cons.prems b m n alloc_unlink [of s a n bs prev]
      by (simp add: alloc_loop.simps del: block_bytes.simps)
  next
    case 2
    then have "p < n" by simp
    from 2 show ?thesis using Cons.prems b m n
        alloc_split [of s a n bs prev p "a + bytes32 p", OF _ _ _ _ _ \<open>p < n\<close> refl refl refl refl]
      by (simp add: alloc_loop.simps [of p prev a s] Let_def
               del: block_bytes.simps set_next.simps set_pages.simps)
  next
    case 3
    let ?m = "read64 (heap s) a"
    from Cons.prems b m have wf: "wf_block (a, n)" and dj: "block_bytes (a, n) \<inter> free_bytes bs = {}"
      by auto
    note hdr = hdr_in_block [OF wf] hdr_fields [of a]
    have step: "alloc_loop p prev m s = alloc_loop p (At a) ?m s"
      using 3 m n by (simp add: alloc_loop.simps [of p prev a s])
    have IH: "case abs_alloc p bs of None \<Rightarrow> alloc_loop p (At a) ?m s = Some (0, s)
         | Some (r, bs') \<Rightarrow> \<exists>rs. alloc_loop p (At a) ?m s = Some rs \<and> alloc_post (At a) bs' rs r s"
      using Cons.prems b m dj hdr by (intro Cons.IH) auto
    show ?thesis
    proof (cases "abs_alloc p bs")
      case None
      with IH 3 b step show ?thesis by simp
    next
      case (Some x)
      then obtain r bs' where al: "abs_alloc p bs = Some (r, bs')" by (cases x) auto
      with IH obtain rs where rs: "alloc_loop p (At a) ?m s = Some rs"
        and post: "alloc_post (At a) bs' rs r s" by auto
      have sub: "free_bytes bs' \<subseteq> free_bytes bs"
        using abs_alloc_Some [OF al] Cons.prems b by auto
      have pn: "read32 (heap (snd rs)) (a + 8) = n"
        unfolding n [symmetric]
      proof (rule read32_cong)
        fix x assume x: "x \<in> bytes_at (a + 8) 4"
        with hdr_fields_disjoint [OF wf] have "x \<notin> next_field (At a)" by auto
        moreover from x sub dj hdr have "x \<notin> free_bytes bs'" by blast
        ultimately show "heap (snd rs) x = heap s x" using post by (simp add: alloc_post_def)
      qed
      have np: "next_of prev (snd rs) = a"
        unfolding m(1) [symmetric] Cons.prems(5) [symmetric]
      proof (rule next_of_cong)
        fix x assume "x \<in> next_field prev"
        with Cons.prems(6) b hdr sub have "x \<notin> next_field (At a)" "x \<notin> free_bytes bs'"
          by (auto simp del: block_bytes.simps)
        with post show "heap (snd rs) x = heap s x" by (simp add: alloc_post_def)
      qed (use post in \<open>simp add: alloc_post_def\<close>)
      from post np pn m hdr have "alloc_post prev ((a, n) # bs') rs r s"
        by (auto simp: alloc_post_def simp del: block_bytes.simps)
      with 3 al b step rs show ?thesis by auto
    qed
  qed
qed

text \<open>Every successful allocation keeps the invariant; the block leaves the free memory.\<close>

lemma alloc_mem_Some:
  assumes "alloc_inv s bs" and "p \<noteq> 0" and "unat p < 2 ^ 20"
    and "abs_alloc p bs = Some (r, bs')"
  shows "\<exists>s'. alloc_mem p s = Some (r, s') \<and> alloc_inv s' bs' \<and>
             (\<forall>x. x \<notin> free_bytes bs' \<longrightarrow> heap s' x = heap s x) \<and> ml_pages s' = ml_pages s"
  using alloc_loop_spec [of s "ml_next s" bs p Memlist] abs_alloc_Some [of p bs r bs'] assms
  by (auto simp: alloc_mem_def alloc_inv_def alloc_post_def)

lemma alloc_mem_None:
  assumes "alloc_inv s bs" and "p \<noteq> 0" and "unat p < 2 ^ 20" and "abs_alloc p bs = None"
  shows "alloc_mem p s = Some (0, s)"
  using alloc_loop_spec [of s "ml_next s" bs p Memlist] assms
  by (simp add: alloc_mem_def alloc_inv_def)

text \<open>
  A request whose byte size is 0 in 32 bits (no page at all, or a multiple of \<open>2 ^ 20\<close> pages)
  is "split" at the start of the block itself.
\<close>

lemma alloc_mem_zero_bytes:
  assumes inv: "alloc_inv s ((a, n) # bs)" and z: "bytes32 p = 0" and p: "p < n"
  shows "\<exists>s'. alloc_mem p s = Some (a, s') \<and> alloc_inv s' ((a, n - p) # bs) \<and>
    (\<forall>x. x \<notin> block_bytes (a, n) \<longrightarrow> heap s' x = heap s x)"
proof -
  from inv have fl: "flist (heap s) a ((a, n) # bs)" and nx: "ml_next s = a" "a \<noteq> 0"
    and wfs: "wf_blocks ((a, n) # bs)" and n: "read32 (heap s) (a + 8) = n"
    by (auto simp: alloc_inv_def)
  from wfs have wf: "wf_block (a, n)" and dj: "block_bytes (a, n) \<inter> free_bytes bs = {}" by auto
  note hdr = hdr_in_block [OF wf] hdr_fields [of a] hdr_fields_disjoint [OF wf]
  define h where "h = write64 a (read64 (heap s) a) (heap s)"
  define s' where "s' = s\<lparr>heap := write32 (a + 8) (n - p) h\<rparr>"
  have rn: "read32 h (a + 8) = n"
    unfolding h_def using hdr n by (subst read32_write64_other) auto
  have al: "alloc_mem p s = Some (a, s')"
    using nx n rn z p
    by (auto simp: alloc_mem_def alloc_loop.simps [of p Memlist a s] Let_def s'_def h_def)
  have out: "heap s' x = heap s x" if "x \<notin> bytes_at a 12" for x
  proof -
    from that hdr have "x \<notin> bytes_at a 8" "x \<notin> bytes_at (a + 8) 4" by blast+
    then show ?thesis by (simp add: s'_def h_def write64_other write32_other)
  qed
  have r: "read64 (heap s') a = read64 (heap s) a" "read32 (heap s') (a + 8) = n - p"
    using hdr by (simp_all add: s'_def h_def read64_write32_other)
  have "flist (heap s) (read64 (heap s) a) bs" using fl by simp
  then have "flist (heap s') (read64 (heap s) a) bs"
  proof (rule flist_cong)
    fix x assume "x \<in> free_bytes bs"
    with dj hdr have "x \<notin> bytes_at a 12" by blast
    then show "heap s' x = heap s x" by (rule out)
  qed (use wfs in simp)
  moreover have "wf_block (a, n - p)"
    using wf p unat_sub_exact [of p n] by auto
  moreover have "block_bytes (a, n - p) \<subseteq> block_bytes (a, n)"
    using p unat_sub_exact [of p n] bytes_at_mono [of "4096 * unat (n - p)" "4096 * unat n" a]
    by auto
  ultimately have "alloc_inv s' ((a, n - p) # bs)"
    using r nx wfs dj by (auto simp: alloc_inv_def s'_def simp del: block_bytes.simps)
  moreover have "\<forall>x. x \<notin> block_bytes (a, n) \<longrightarrow> heap s' x = heap s x" using out hdr by blast
  ultimately show ?thesis using al by blast
qed

subsection \<open>The allocator provides its contract\<close>

definition owns :: "mem_state \<Rightarrow> addr set \<Rightarrow> bool" where
  "owns s F \<longleftrightarrow> (\<exists>bs. alloc_inv s bs \<and> free_bytes bs = F)"

lemma owns_put: "owns s F \<Longrightarrow> (\<forall>x \<in> F. h x = heap s x) \<Longrightarrow> owns (s\<lparr>heap := h\<rparr>) F"
  by (auto simp: owns_def alloc_inv_def intro!: flist_cong [of "heap s"])

lemma owns_alloc:
  assumes "owns s F" and "p \<noteq> 0" and "unat p < 2 ^ 20" and "alloc_mem p s = Some (r, s')" and "r \<noteq> 0"
  shows "4096 dvd unat r \<and> unat r + 4096 * unat p < 2 ^ 64 \<and> bytes_at r (4096 * unat p) \<subseteq> F \<and>
    owns s' (F - bytes_at r (4096 * unat p)) \<and>
    (\<forall>x. x \<notin> F - bytes_at r (4096 * unat p) \<longrightarrow> heap s' x = heap s x)"
proof -
  from assms(1) obtain bs where bs: "alloc_inv s bs" "free_bytes bs = F" by (auto simp: owns_def)
  with assms have "abs_alloc p bs \<noteq> None" using alloc_mem_None [of s bs p] by fastforce
  then obtain r1 bs' where al: "abs_alloc p bs = Some (r1, bs')" by auto
  from alloc_mem_Some [OF bs(1) assms(2,3) al] assms(4) have r: "r1 = r" "alloc_inv s' bs'"
    "\<forall>x. x \<notin> free_bytes bs' \<longrightarrow> heap s' x = heap s x" by auto
  have "wf_blocks bs" using bs(1) by (simp add: alloc_inv_def)
  note f = abs_alloc_Some [OF al this assms(2,3)]
  from f r bs have "free_bytes bs' = F - bytes_at r (4096 * unat p)" by auto
  with f r bs show ?thesis by (auto simp: owns_def)
qed

text \<open>A request for no page is answered with the first block, which the next allocation of a page returns again.\<close>

lemma owns_alloc_zero:
  assumes "owns s F"
  shows "\<exists>s'. alloc_mem 0 s = Some (ml_next s', s') \<and> owns s' F \<and> (\<forall>x. x \<notin> F \<longrightarrow> heap s' x = heap s x)"
proof -
  from assms obtain bs where bs: "alloc_inv s bs" "free_bytes bs = F" by (auto simp: owns_def)
  show ?thesis
  proof (cases bs)
    case Nil
    then have "alloc_mem 0 s = Some (ml_next s, s)"
      using bs(1) by (simp add: alloc_mem_def alloc_inv_def alloc_loop.simps)
    then show ?thesis using assms by blast
  next
    case (Cons b cs)
    obtain a n where b: "b = (a, n)" by force
    have "n \<noteq> 0" using bs(1) Cons b by (auto simp: alloc_inv_def)
    then obtain s' where s': "alloc_mem 0 s = Some (a, s')" "alloc_inv s' bs"
      "\<forall>x. x \<notin> block_bytes (a, n) \<longrightarrow> heap s' x = heap s x"
      using alloc_mem_zero_bytes [of s a n cs 0] bs(1) Cons b by (auto simp: bytes32_def word_gt_0)
    moreover have "ml_next s' = a" using s'(2) Cons b by (simp add: alloc_inv_def)
    moreover have "block_bytes (a, n) \<subseteq> F" using bs(2) Cons b by (auto simp: free_bytes_def)
    ultimately show ?thesis using bs(2) by (auto simp: owns_def)
  qed
qed

lemma owns_alloc_first:
  assumes "owns s F" "alloc_mem 1 s = Some (r, s')"
  shows "r = ml_next s"
proof -
  from assms(1) obtain bs where bs: "alloc_inv s bs" by (auto simp: owns_def)
  show ?thesis
  proof (cases bs)
    case Nil
    then show ?thesis using bs assms(2) by (simp add: alloc_mem_def alloc_inv_def alloc_loop.simps)
  next
    case (Cons b cs)
    obtain a n where b: "b = (a, n)" by force
    have "1 \<le> n" using bs Cons b by (auto simp: alloc_inv_def word_le_nat_alt unat_gt_0 Suc_le_eq)
    then have "\<exists>bs'. abs_alloc 1 bs = Some (a, bs')" using Cons b by simp
    then have "r = a" using alloc_mem_Some [OF bs, of 1] assms(2) by auto
    then show ?thesis using bs Cons b by (simp add: alloc_inv_def)
  qed
qed

interpretation pages: page_allocator alloc_mem heap "\<lambda>h s. s\<lparr>heap := h\<rparr>" owns
proof
  fix s :: mem_state and F and p :: u32 assume o: "owns s F" "p \<noteq> 0" "unat p < 2 ^ 20"
  then obtain bs where bs: "alloc_inv s bs" by (auto simp: owns_def)
  show "\<exists>r s'. alloc_mem p s = Some (r, s')"
    using alloc_mem_None [OF bs o(2,3)] alloc_mem_Some [OF bs o(2,3)]
    by (cases "abs_alloc p bs") fastforce+
  fix s' assume z: "alloc_mem p s = Some (0, s')"
  show "s' = s"
  proof (cases "abs_alloc p bs")
    case None
    with alloc_mem_None [OF bs o(2,3)] z show ?thesis by simp
  next
    case (Some x)
    then obtain r bs' where al: "abs_alloc p bs = Some (r, bs')" by (cases x) auto
    from alloc_mem_Some [OF bs o(2,3) al] z have "r = 0" by auto
    with abs_alloc_Some [OF al _ o(2,3)] bs show ?thesis by (auto simp: alloc_inv_def)
  qed
qed (use owns_alloc owns_put in \<open>auto 0 0\<close>)

text \<open>A request for at most two pages fails only when every free block is smaller.\<close>

lemma owns_alloc_fails:
  assumes o: "owns s F" and p: "unat p \<le> 2" and z: "alloc_mem p s = Some (0, s')"
  shows "\<exists>bs. alloc_inv s' bs \<and> (\<forall>(a, n) \<in> set bs. n < 2)"
proof (cases "p = 0")
  case True
  with owns_alloc_zero [OF o] z have "ml_next s' = 0" "owns s' F" by auto
  moreover from this(2) obtain bs where "alloc_inv s' bs" by (auto simp: owns_def)
  ultimately have "bs = []" by (cases bs) (auto simp: alloc_inv_def)
  with \<open>alloc_inv s' bs\<close> show ?thesis by (intro exI [of _ bs]) simp
next
  case False
  have small: "unat p < 2 ^ 20" using p by simp
  obtain bs where bs: "alloc_inv s bs" using o by (auto simp: owns_def)
  have "abs_alloc p bs = None"
  proof (rule ccontr)
    assume "abs_alloc p bs \<noteq> None"
    then obtain r bs' where al: "abs_alloc p bs = Some (r, bs')" by auto
    from alloc_mem_Some [OF bs False small al] z have "r = 0" by auto
    with abs_alloc_Some [OF al _ False small] bs show False by (auto simp: alloc_inv_def)
  qed
  moreover have "p \<le> 2" using p by (simp add: word_le_nat_alt)
  ultimately have "\<forall>(a, n) \<in> set bs. n < 2" unfolding abs_alloc_None by fastforce
  moreover have "s' = s" by (rule pages.alloc_null [OF o False small z])
  ultimately show ?thesis using bs by (intro exI [of _ bs]) simp
qed

end
