(* ===== verification/Bitfields.thy ===== *)
theory Bitfields
  imports Prelude
begin

unbundle bit_operations_syntax

text \<open>
  C bit fields. A packed structure is modelled by the machine word it occupies; a field of
  \<open>w\<close> bits that starts at bit \<open>lo\<close> is read by \<open>bf_get\<close> and assigned by \<open>bf_set\<close>, which keeps
  the other bits and truncates the value to the width, as the C assignment does.
\<close>

definition bf_get :: "nat \<Rightarrow> nat \<Rightarrow> 'a::len word \<Rightarrow> 'a word" where
  "bf_get lo w x = take_bit w (drop_bit lo x)"

definition bf_set :: "nat \<Rightarrow> nat \<Rightarrow> 'a::len word \<Rightarrow> 'a word \<Rightarrow> 'a word" where
  "bf_set lo w v x = (x AND NOT (push_bit lo (mask w))) OR push_bit lo (take_bit w v)"

lemma bit_bf_get: "bit (bf_get lo w x) i \<longleftrightarrow> i < w \<and> bit x (lo + i)" for x :: "'a::len word"
  by (auto simp: bf_get_def bit_simps)

lemma bit_bf_set:
  "bit (bf_set lo w v x) i \<longleftrightarrow>
     i < LENGTH('a) \<and> (if lo \<le> i \<and> i < lo + w then bit v (i - lo) else bit x i)"
  for x :: "'a::len word"
  by (auto simp: bf_set_def bit_simps)

text \<open>A field reads back what was assigned, cut to its width; other fields keep their value.\<close>

lemma bf_get_set [layout_simps]:
  "lo + w \<le> LENGTH('a) \<Longrightarrow> bf_get lo w (bf_set lo w v x) = take_bit w v" for x :: "'a::len word"
  by (rule bit_word_eqI) (auto simp: bit_bf_get bit_bf_set bit_take_bit_iff)

lemma bf_get_set_other [layout_simps]:
  "lo' + w' \<le> lo \<or> lo + w \<le> lo' \<Longrightarrow> lo' + w' \<le> LENGTH('a) \<Longrightarrow>
   bf_get lo' w' (bf_set lo w v x) = bf_get lo' w' x" for x :: "'a::len word"
  by (rule bit_word_eqI) (auto simp: bit_bf_get bit_bf_set)

lemma bf_get_0 [simp]: "bf_get lo w 0 = 0"
  by (simp add: bf_get_def)

lemma bf_get_bound: "unat (bf_get lo w x) < 2 ^ w"
  by (simp add: bf_get_def unsigned_take_bit_eq)

lemma bf_get_eq_bit: "bf_get lo 1 x = (if bit x lo then 1 else 0)" for x :: "'a::len word"
  by (rule bit_word_eqI) (auto simp: bit_bf_get bit_1_iff)

text \<open>The masks of the C code are truncations.\<close>

named_theorems mask_simps \<open>conjunction with a C mask constant as truncation\<close>

lemma and_masks [mask_simps]:
  "x AND 0x0f = take_bit 4 x" "x AND 0xff = take_bit 8 x" "x AND 0xfff = take_bit 12 x"
  "x AND 0xffff = take_bit 16 x" "x AND 0xffffffff = take_bit 32 x"
  for x :: "'a::len word"
  by (simp_all add: take_bit_eq_mask mask_eq_exp_minus_1)

lemma bit_beyond: "LENGTH('a) \<le> n \<Longrightarrow> \<not> bit (x :: 'a::len word) n"
  using bit_imp_le_length [of x n] by linarith

text \<open>Reading a field of a word put together from shifted parts.\<close>

lemma bf_get_or [layout_simps]: "bf_get lo w (x OR y) = bf_get lo w x OR bf_get lo w y"
  for x :: "'a::len word"
  by (rule bit_word_eqI) (auto simp: bit_bf_get bit_or_iff)

lemma bf_get_part_inside [layout_simps]:
  "lo \<le> k \<Longrightarrow> k + LENGTH('b) \<le> lo + w \<Longrightarrow>
   bf_get lo w (push_bit k (ucast (x :: 'b::len word))) = push_bit (k - lo) (ucast x :: 'a::len word)"
  if "lo + w \<le> LENGTH('a)"
  using that
  by (intro bit_word_eqI)
    (auto simp: bit_bf_get bit_push_bit_iff bit_ucast_iff add.commute [of lo] dest: bit_imp_le_length)

lemma bf_get_part_outside [layout_simps]:
  "k + LENGTH('b) \<le> lo \<or> lo + w \<le> k \<Longrightarrow>
   bf_get lo w (push_bit k (ucast (x :: 'b::len word)) :: 'a::len word) = 0"
  by (rule bit_word_eqI)
    (auto simp: bit_bf_get bit_push_bit_iff bit_ucast_iff dest: bit_imp_le_length)

lemmas bf_get_low = bf_get_part_inside [of 0 0, simplified]
  bf_get_part_outside [of 0, simplified]

end
