(* ===== verification/Paging.thy ===== *)
theory Paging
  imports Page_Alloc Bitfields
begin

unbundle bit_operations_syntax

text \<open>
  Four-level page tables of kernel/paging.c: the bit layouts of include/paging.h, the recursive
  \<open>setupPageMap\<close> that maps a range of pages, and, as its specification, the address
  translation the processor performs on such tables.
\<close>

subsection \<open>Layouts\<close>

text \<open>\<open>PML4E\<close>: present, writable and user bits, and the 40-bit frame number at bit 12.\<close>

definition pte_p :: "u64 \<Rightarrow> bool" where "pte_p e \<longleftrightarrow> bit e 0"
definition pte_rw :: "u64 \<Rightarrow> bool" where "pte_rw e \<longleftrightarrow> bit e 1"
definition pte_us :: "u64 \<Rightarrow> bool" where "pte_us e \<longleftrightarrow> bit e 2"
definition pte_addr :: "u64 \<Rightarrow> u64" where "pte_addr e = bf_get 12 40 e"

definition set_p :: "u64 \<Rightarrow> u64 \<Rightarrow> u64" where "set_p v e = bf_set 0 1 v e"
definition set_rw :: "bool \<Rightarrow> u64 \<Rightarrow> u64" where "set_rw v e = bf_set 1 1 (of_bool v) e"
definition set_us :: "u64 \<Rightarrow> u64 \<Rightarrow> u64" where "set_us v e = bf_set 2 1 v e"
definition set_addr :: "u64 \<Rightarrow> u64 \<Rightarrow> u64" where "set_addr v e = bf_set 12 40 v e"

text \<open>\<open>LinearAddress4L\<close>: page offset (level 0) and one 9-bit index per level 1 to 4.\<close>

definition part_lo :: "nat \<Rightarrow> nat" where
  "part_lo level = (if level = 0 then 0 else 12 + 9 * (level - 1))"

definition part_width :: "nat \<Rightarrow> nat" where
  "part_width level = (if level = 0 then 12 else 9)"

definition part :: "u64 \<Rightarrow> nat \<Rightarrow> nat" where
  "part l level = (if level \<le> 4 then unat (bf_get (part_lo level) (part_width level) l) else 0)"

definition setPart :: "u64 \<Rightarrow> nat \<Rightarrow> nat \<Rightarrow> u64" where
  "setPart l level v =
     (if level \<le> 4 then bf_set (part_lo level) (part_width level) (word_of_nat v) l else l)"

subsection \<open>Page maps\<close>

definition pointer :: "u64 \<Rightarrow> addr" where
  "pointer e = P2V (push_bit 12 (pte_addr e))"

definition setPointer :: "addr \<Rightarrow> addr \<Rightarrow> mem_state \<Rightarrow> mem_state" where
  "setPointer p0 p1 s =
     s\<lparr>heap := write64 p0 (set_addr (drop_bit 12 (v2p p1)) (read64 (heap s) p0)) (heap s)\<rparr>"

definition newPageMap :: "mem_state \<Rightarrow> (addr \<times> mem_state) option" where
  "newPageMap s =
     (case alloc_mem 1 s of
        None \<Rightarrow> None
      | Some (e, s1) \<Rightarrow>
          if e = 0 then Some (0, s1)
          else Some (e, s1\<lparr>heap := memset e 0 4096 (heap s1)\<rparr>))"

definition update_entry :: "addr \<Rightarrow> (u64 \<Rightarrow> u64) \<Rightarrow> mem_state \<Rightarrow> mem_state" where
  "update_entry p f s = s\<lparr>heap := write64 p (f (read64 (heap s) p)) (heap s)\<rparr>"

definition setNewPageMapIfNotPresent :: "addr \<Rightarrow> mem_state \<Rightarrow> (addr \<times> mem_state) option" where
  "setNewPageMapIfNotPresent entry s =
     (if entry = 0 then Some (0, s)
      else if pte_p (read64 (heap s) entry) then Some (pointer (read64 (heap s) entry), s)
      else case newPageMap s of
             None \<Rightarrow> None
           | Some (child_map, s1) \<Rightarrow>
               if child_map = 0 then Some (0, s1)
               else Some (child_map, update_entry entry (set_p 1) (setPointer entry child_map s1)))"

text \<open>The index of this level is advanced, the lower ones start again at 0.\<close>

fun clear_parts :: "nat \<Rightarrow> u64 \<Rightarrow> u64" where
  "clear_parts 0 l = l"
| "clear_parts (Suc level) l = clear_parts level (setPart l (Suc level) 0)"

definition advance :: "u64 \<Rightarrow> nat \<Rightarrow> nat \<Rightarrow> u64" where
  "advance l level entry_index = clear_parts (level - 1) (setPart l level (entry_index + 1))"

lemma part_setPart_same:
  "1 \<le> level \<Longrightarrow> level \<le> 4 \<Longrightarrow> v < 512 \<Longrightarrow> part (setPart l level v) level = v"
  by (simp add: part_def setPart_def part_lo_def part_width_def bf_get_set
      unsigned_take_bit_eq unat_of_nat take_bit_nat_eq_self_iff)

lemma part_setPart_other:
  "level \<noteq> level' \<Longrightarrow> level \<le> 4 \<Longrightarrow> level' \<le> 4 \<Longrightarrow> part (setPart l level v) level' = part l level'"
  unfolding part_def setPart_def part_lo_def part_width_def
  by (auto intro!: bf_get_set_other arg_cong [where f = unat])

lemma part_clear: "k < level \<Longrightarrow> level \<le> 4 \<Longrightarrow> part (clear_parts k l) level = part l level"
  by (induction k arbitrary: l) (auto simp: part_setPart_other)

lemma part_advance:
  "1 \<le> level \<Longrightarrow> level \<le> 4 \<Longrightarrow> i < 511 \<Longrightarrow> part (advance l level i) level = i + 1"
  by (simp add: advance_def part_clear part_setPart_same)

lemma part_less: "1 \<le> level \<Longrightarrow> part l level < 512"
  using bf_get_bound [of "part_lo level" "part_width level" l]
  by (auto simp: part_def part_width_def)

text \<open>
  The result is the C return value (\<open>-1\<close>, all ones, for out of memory), the linear address
  as the code leaves it, and the new state. \<open>None\<close> is a call that does not return: an
  allocator loop that does not end, or a level outside 1 to 4, where the code recurses for ever.
\<close>

function setupPageMap ::
  "nat \<Rightarrow> addr \<Rightarrow> u64 \<Rightarrow> u32 \<Rightarrow> bool \<Rightarrow> mem_state \<Rightarrow> (u32 \<times> u64 \<times> mem_state) option" where
  "setupPageMap level page_map l num_pages rw s =
     (if num_pages = 0 then Some (num_pages, l, s)
      else if level = 0 \<or> 4 < level then None
      else
        let entry_index = part l level;
            entry = page_map + 8 * word_of_nat entry_index
        in case setNewPageMapIfNotPresent entry s of
             None \<Rightarrow> None
           | Some (child_map, s1) \<Rightarrow>
               if child_map = 0 then Some (-1, l, s1)
               else
                 let s2 = update_entry entry (set_us 1) (update_entry entry (set_rw rw) s1)
                 in case (if level = 1 then Some (num_pages - 1, l, s2)
                          else setupPageMap (level - 1) child_map l num_pages rw s2) of
                      None \<Rightarrow> None
                    | Some (remain, l', s3) \<Rightarrow>
                        if level \<noteq> 1 \<and> remain = -1 then Some (-1, l', s3)
                        else if entry_index = 511 then Some (remain, l', s3)
                        else setupPageMap level page_map (advance l' level entry_index) remain rw s3)"
  by pat_completeness auto
termination
proof (relation "measures [\<lambda>(level, pm, l, n, rw, s). level, \<lambda>(level, pm, l, n, rw, s). 512 - part l level]",
    goal_cases)
  case (3 level pm l n rw s x xa x2 xb y xc x2a xd ya xe yb)
  then have "part l level < 511" using part_less [of level l] by force
  with 3 show ?case by (simp add: part_advance)
qed auto

declare setupPageMap.simps [simp del]

definition setupPageMaps ::
  "addr \<Rightarrow> u64 \<Rightarrow> u32 \<Rightarrow> bool \<Rightarrow> mem_state \<Rightarrow> (u32 \<times> u64 \<times> mem_state) option" where
  "setupPageMaps cr3 l num_pages rw s = setupPageMap 4 (P2V cr3) l num_pages rw s"

definition actual_init_paging :: "u64 \<Rightarrow> mem_state \<Rightarrow> mem_state" where
  "actual_init_paging cr3 s = s\<lparr>heap := write64 (P2V cr3) 0 (heap s)\<rparr>"

subsection \<open>The processor's translation\<close>

text \<open>
  The specification: the x86-64 walk from a table of level \<open>k\<close> at physical address \<open>t\<close>.
  \<open>pv\<close> says where physical memory is visible in \<open>h\<close>: at \<open>P2V\<close> once the kernel runs, at the
  address itself under the boot loader's identity mapping. Bit 7 of an entry of level 2 or 3
  makes it map a large page. The result is the physical address and the conjunction of the
  writable and of the user bits on the way.
\<close>

record xlate =
  xaddr :: u64
  xrw :: bool
  xus :: bool

definition pte_frame :: "u64 \<Rightarrow> u64" where
  "pte_frame e = push_bit 12 (pte_addr e)"

fun walk :: "(u64 \<Rightarrow> addr) \<Rightarrow> mem \<Rightarrow> nat \<Rightarrow> u64 \<Rightarrow> u64 \<Rightarrow> xlate option" where
  "walk pv h 0 t v = None"
| "walk pv h (Suc k) t v =
     (let e = read64 h (pv t + 8 * word_of_nat (part v (Suc k)))
      in if \<not> pte_p e then None
         else if k = 0 \<or> ((k = 1 \<or> k = 2) \<and> bit e 7)
         then Some \<lparr>xaddr = (pte_frame e AND NOT (mask (part_lo (Suc k)))) + (v AND mask (part_lo (Suc k))),
                   xrw = pte_rw e, xus = pte_us e\<rparr>
         else case walk pv h k (pte_frame e) v of
                None \<Rightarrow> None
              | Some x \<Rightarrow> Some (x\<lparr>xrw := pte_rw e \<and> xrw x, xus := pte_us e \<and> xus x\<rparr>))"


subsection \<open>One entry\<close>

lemmas pte_defs = pte_p_def pte_rw_def pte_us_def set_p_def set_rw_def set_us_def set_addr_def

lemma pte_bits [simp]:
  "pte_p (set_p 1 e)" "pte_p (set_rw b e) = pte_p e" "pte_p (set_us 1 e) = pte_p e"
  "pte_p (set_addr a e) = pte_p e"
  "pte_rw (set_rw b e) = b" "pte_rw (set_us 1 e) = pte_rw e" "pte_us (set_us 1 e)"
  by (auto simp: pte_defs bit_bf_set bit_1_iff)

lemma pte_addr_bits [simp]:
  "pte_addr (set_p 1 e) = pte_addr e" "pte_addr (set_rw b e) = pte_addr e"
  "pte_addr (set_us 1 e) = pte_addr e" "pte_addr (set_addr a e) = take_bit 40 a"
  by (simp_all add: pte_addr_def pte_defs layout_simps)

lemma pte_large_bit [simp]:
  "bit (set_p 1 e) 7 = bit e 7" "bit (set_rw b e) 7 = bit e 7" "bit (set_us 1 e) 7 = bit e 7"
  "bit (set_addr a e) 7 = bit e 7"
  by (simp_all add: pte_defs bit_bf_set)

lemma pointer_frame: "pointer e = P2V (pte_frame e)"
  by (simp add: pointer_def pte_frame_def)

lemma pte_frame_aligned: "pte_frame e AND NOT (mask 12) = pte_frame e"
  by (rule bit_word_eqI) (auto simp: pte_frame_def bit_simps)

lemma page_frame_roundtrip:
  assumes "4096 dvd unat x" and "unat x < 2 ^ 52"
  shows "push_bit 12 (take_bit 40 (drop_bit 12 x)) = (x :: u64)"
proof -
  have "unat (drop_bit 12 x) = unat x div 4096"
    unfolding unat_drop_bit_eq by (simp add: drop_bit_eq_div)
  with assms have d: "unat (drop_bit 12 x) = unat x div 4096" "unat x div 4096 < 2 ^ 40" by auto
  then have "take_bit 40 (drop_bit 12 x) = drop_bit 12 x"
    by (intro word_eq_unatI) (simp add: unsigned_take_bit_eq take_bit_nat_eq_self_iff)
  moreover have "unat (push_bit 12 (drop_bit 12 x)) = unat x"
  proof -
    have "push_bit 12 (drop_bit 12 x) = drop_bit 12 x * 4096" by (simp add: push_bit_eq_mult)
    moreover have "unat (drop_bit 12 x * 4096) = unat (drop_bit 12 x) * 4096"
      using d by (subst unat_mult_exact) auto
    ultimately show ?thesis using assms d by simp
  qed
  ultimately show ?thesis by (simp add: word_eq_unatI)
qed

text \<open>The page of a table, and the slot of an index in it.\<close>

definition slot :: "addr \<Rightarrow> u64 \<Rightarrow> nat \<Rightarrow> addr" where
  "slot pm v level = pm + 8 * word_of_nat (part v level)"

lemma slot_in_page: "1 \<le> level \<Longrightarrow> bytes_at (slot pm v level) 8 \<subseteq> bytes_at pm 4096"
  using bytes_at_shift [of "8 * part v level" 8 4096 pm] part_less [of level v]
  by (simp add: slot_def)

lemma slot_nonzero:
  assumes "PAGE_OFFSET \<le> pm" and "unat pm + 4096 \<le> 2 ^ 64" and "1 \<le> level"
  shows "slot pm v level \<noteq> 0"
proof -
  have "unat (slot pm v level) = unat pm + 8 * part v level"
    using part_less [OF assms(3), of v] assms(2)
      unat_add_of_nat [of pm "8 * part v level"] by (simp add: slot_def)
  with assms(1) show ?thesis by (auto simp: word_le_nat_alt PAGE_OFFSET_def)
qed

definition page_ok :: "addr \<Rightarrow> bool" where
  "page_ok pm \<longleftrightarrow> PAGE_OFFSET \<le> pm \<and> unat pm + 4096 \<le> 2 ^ 64"

lemma page_ok_nonzero: "page_ok c \<Longrightarrow> c \<noteq> 0"
  by (auto simp: page_ok_def PAGE_OFFSET_def)

text \<open>
  Making an entry present. \<open>F\<close> is the memory the allocator owns; the slot is not in it.
\<close>

lemma alloc_one_fails:
  assumes "owns s F" and "alloc_mem 1 s = Some (0, s')"
  shows "F = {}"
proof -
  from assms(1) obtain bs where bs: "alloc_inv s bs" "free_bytes bs = F" by (auto simp: owns_def)
  have wf: "wf_blocks bs" using bs(1) by (simp add: alloc_inv_def)
  show ?thesis
  proof (cases bs)
    case (Cons b cs)
    then have "snd b \<noteq> 0" using wf by (cases b) auto
    then have "abs_alloc 1 bs \<noteq> None"
      using Cons by (auto simp: abs_alloc_None word_less_nat_alt unat_eq_0)
    then obtain r bs' where al: "abs_alloc 1 bs = Some (r, bs')" by auto
    from alloc_mem_Some [OF bs(1) _ _ al] abs_alloc_Some [OF al wf] assms(2) show ?thesis by auto
  qed (use bs in simp)
qed

lemma newPageMap_spec:
  assumes "owns s F"
  shows "\<exists>c s1. newPageMap s = Some (c, s1) \<and> (c = 0 \<longrightarrow> s1 = s \<and> F = {}) \<and>
    (c \<noteq> 0 \<longrightarrow> 4096 dvd unat c \<and> unat c + 4096 \<le> 2 ^ 64 \<and> bytes_at c 4096 \<subseteq> F \<and>
       owns s1 (F - bytes_at c 4096) \<and> (\<forall>x \<in> bytes_at c 4096. heap s1 x = 0) \<and>
       (\<forall>x. x \<notin> F \<longrightarrow> heap s1 x = heap s x))"
proof -
  have one: "(1 :: u32) \<noteq> 0" "unat (1 :: u32) < 2 ^ 20" by simp_all
  obtain c s1 where al: "alloc_mem 1 s = Some (c, s1)"
    using pages.alloc_returns [OF assms one] by auto
  show ?thesis
  proof (cases "c = 0")
    case True
    with al pages.alloc_null [OF assms one, of s1] alloc_one_fails [OF assms, of s1]
    show ?thesis by (simp add: newPageMap_def)
  next
    case False
    note pages.alloc_block [OF assms one al False] pages.alloc_zeroed [OF assms one al False, of 4096]
    with al False show ?thesis by (auto simp: newPageMap_def)
  qed
qed

lemma update_entry_facts:
  "read64 (heap (update_entry p f s)) p = f (read64 (heap s) p)"
  "x \<notin> bytes_at p 8 \<Longrightarrow> heap (update_entry p f s) x = heap s x"
  by (simp_all add: update_entry_def write64_other)

lemma owns_update_entry:
  "owns s F \<Longrightarrow> bytes_at p 8 \<inter> F = {} \<Longrightarrow> owns (update_entry p f s) F"
  unfolding update_entry_def by (erule owns_put) (blast intro: write64_other)

lemma setPointer_update: "setPointer p0 p1 = update_entry p0 (set_addr (drop_bit 12 (v2p p1)))"
  by (rule ext) (simp add: setPointer_def update_entry_def)

lemma v2p_frame:
  assumes "PAGE_OFFSET \<le> c" and "4096 dvd unat c"
  shows "push_bit 12 (take_bit 40 (drop_bit 12 (v2p c))) = v2p c"
proof (rule page_frame_roundtrip)
  have "unat (v2p c) = unat c - unat PAGE_OFFSET"
    using assms(1) by (simp add: v2p_direct unat_sub_exact)
  moreover have "4096 dvd unat PAGE_OFFSET" by (simp add: PAGE_OFFSET_def)
  moreover have "unat c - unat PAGE_OFFSET < 2 ^ 52"
    using unat_lt_pow [of c] by (simp add: PAGE_OFFSET_def)
  ultimately show "4096 dvd unat (v2p c)" "unat (v2p c) < 2 ^ 52"
    using assms(2) by (simp_all add: dvd_diff_nat)
qed

text \<open>
  The entry step of \<open>setupPageMap\<close>: the slot ends up present, with the requested flags, and
  pointing to the child; a new child is a zeroed page taken from the allocator.
\<close>

definition entry_step :: "addr \<Rightarrow> bool \<Rightarrow> mem_state \<Rightarrow> mem_state" where
  "entry_step entry rw s1 = update_entry entry (set_us 1) (update_entry entry (set_rw rw) s1)"

definition entry_post ::
  "addr set \<Rightarrow> addr \<Rightarrow> bool \<Rightarrow> mem_state \<Rightarrow> addr \<Rightarrow> mem_state \<Rightarrow> addr set \<Rightarrow> bool" where
  "entry_post F entry rw s c s2 F2 \<longleftrightarrow>
     (let e = read64 (heap s) entry; e2 = read64 (heap s2) entry in
        owns s2 F2 \<and> F2 \<subseteq> F \<and> pte_p e2 \<and> pte_rw e2 = rw \<and> pte_us e2 \<and> bit e2 7 = bit e 7 \<and>
        P2V (pte_frame e2) = c \<and>
        (\<forall>x. x \<notin> F \<union> bytes_at entry 8 \<longrightarrow> heap s2 x = heap s x) \<and>
        (if pte_p e
         then pte_frame e2 = pte_frame e \<and> F2 = F \<and>
              (\<forall>x. x \<notin> bytes_at entry 8 \<longrightarrow> heap s2 x = heap s x)
         else 4096 dvd unat c \<and> page_ok c \<and> bytes_at c 4096 \<subseteq> F \<and> F2 = F - bytes_at c 4096 \<and>
              (\<forall>x \<in> bytes_at c 4096. heap s2 x = 0)))"

lemma entry_step_spec:
  assumes o: "owns s F" and F: "\<forall>x \<in> F. PAGE_OFFSET \<le> x"
    and en: "entry \<noteq> 0" "bytes_at entry 8 \<inter> F = {}"
  shows "\<exists>c s1. setNewPageMapIfNotPresent entry s = Some (c, s1) \<and>
     ((c = 0 \<and> \<not> pte_p (read64 (heap s) entry) \<and> s1 = s \<and> F = {}) \<or>
      (\<exists>F2. entry_post F entry rw s c (entry_step entry rw s1) F2))"
proof (cases "pte_p (read64 (heap s) entry)")
  case True
  let ?s2 = "entry_step entry rw s"
  have "entry_post F entry rw s (pointer (read64 (heap s) entry)) ?s2 F"
    unfolding entry_post_def entry_step_def Let_def
    using True o en
    by (auto simp: update_entry_facts pointer_frame pte_frame_def owns_update_entry)
  with True en show ?thesis by (auto simp: setNewPageMapIfNotPresent_def)
next
  case False
  from newPageMap_spec [OF o] obtain c s1 where np: "newPageMap s = Some (c, s1)"
    and z: "c = 0 \<longrightarrow> s1 = s \<and> F = {}"
    and nz: "c \<noteq> 0 \<longrightarrow> 4096 dvd unat c \<and> unat c + 4096 \<le> 2 ^ 64 \<and> bytes_at c 4096 \<subseteq> F \<and>
       owns s1 (F - bytes_at c 4096) \<and> (\<forall>x \<in> bytes_at c 4096. heap s1 x = 0) \<and>
       (\<forall>x. x \<notin> F \<longrightarrow> heap s1 x = heap s x)" by blast
  show ?thesis
  proof (cases "c = 0")
    case True
    with np z False en show ?thesis by (simp add: setNewPageMapIfNotPresent_def)
  next
    case cnz: False
    let ?t = "update_entry entry (set_p 1) (setPointer entry c s1)"
    let ?s2 = "entry_step entry rw ?t"
    from cnz nz have c: "4096 dvd unat c" "unat c + 4096 \<le> 2 ^ 64" "bytes_at c 4096 \<subseteq> F"
      "owns s1 (F - bytes_at c 4096)" "\<forall>x \<in> bytes_at c 4096. heap s1 x = 0"
      "\<And>x. x \<notin> F \<Longrightarrow> heap s1 x = heap s x" by auto
    have "c \<in> bytes_at c 4096" using bytes_at_I [of 0 4096 c] by simp
    with c F have co: "PAGE_OFFSET \<le> c" by blast
    have re: "read64 (heap s1) entry = read64 (heap s) entry"
      using en c(6) by (intro read64_cong) auto
    have fr: "push_bit 12 (take_bit 40 (drop_bit 12 (v2p c))) = v2p c"
      by (rule v2p_frame [OF co c(1)])
    have dj: "bytes_at entry 8 \<inter> (F - bytes_at c 4096) = {}" "bytes_at entry 8 \<inter> bytes_at c 4096 = {}"
      using en c(3) by auto
    have "x \<notin> bytes_at entry 8" if "x \<in> bytes_at c 4096" for x using dj that by blast
    then have "entry_post F entry rw s c ?s2 (F - bytes_at c 4096)"
      unfolding entry_post_def entry_step_def Let_def setPointer_update
      using False c co re fr dj en
      by (auto simp: update_entry_facts pte_frame_def page_ok_def P2V_v2p
               intro!: owns_update_entry)
    with np cnz False en show ?thesis by (auto simp: setNewPageMapIfNotPresent_def)
  qed
qed

subsection \<open>The path of a linear address\<close>

text \<open>
  \<open>path_ok k h F U t v\<close>: the tables that translate \<open>v\<close> from the level-\<open>k\<close> table at physical
  \<open>t\<close> are pages of their own, apart from the allocator's memory \<open>F\<close>, from the memory \<open>U\<close> and
  from each other, map no large page, and no frame whose \<open>P2V\<close> address would be \<open>NULL\<close>. \<open>path_tables\<close> is the memory of these tables.
\<close>

definition entry_of :: "mem \<Rightarrow> u64 \<Rightarrow> u64 \<Rightarrow> nat \<Rightarrow> u64" where
  "entry_of h t v level = read64 h (slot (P2V t) v level)"

fun path_ok :: "nat \<Rightarrow> mem \<Rightarrow> addr set \<Rightarrow> addr set \<Rightarrow> u64 \<Rightarrow> u64 \<Rightarrow> bool" where
  "path_ok 0 h F U t v = True"
| "path_ok (Suc j) h F U t v \<longleftrightarrow>
     page_ok (P2V t) \<and> bytes_at (P2V t) 4096 \<inter> F = {} \<and> bytes_at (P2V t) 4096 \<inter> U = {} \<and>
     (let e = entry_of h t v (Suc j) in
        (pte_p e \<longrightarrow> P2V (pte_frame e) \<noteq> 0) \<and>
        (0 < j \<longrightarrow> \<not> bit e 7 \<and>
          (pte_p e \<longrightarrow> path_ok j h F (U \<union> bytes_at (P2V t) 4096) (pte_frame e) v)))"

fun path_tables :: "nat \<Rightarrow> mem \<Rightarrow> u64 \<Rightarrow> u64 \<Rightarrow> addr set" where
  "path_tables 0 h t v = {}"
| "path_tables (Suc j) h t v =
     bytes_at (P2V t) 4096 \<union>
     (let e = entry_of h t v (Suc j) in
        if 0 < j \<and> pte_p e then path_tables j h (pte_frame e) v else {})"

lemma entry_of_cong:
  "(\<And>x. x \<in> bytes_at (P2V t) 4096 \<Longrightarrow> h' x = h x) \<Longrightarrow> 1 \<le> level \<Longrightarrow>
   entry_of h' t v level = entry_of h t v level"
  unfolding entry_of_def using slot_in_page [of level "P2V t" v]
  by (intro read64_cong) auto

lemma path_tables_apart: "path_ok k h F U t v \<Longrightarrow> path_tables k h t v \<inter> (F \<union> U) = {}"
  by (induction k arbitrary: U t) (auto simp: Let_def split: if_splits)

declare walk.simps(2) [simp del]

lemma walk_Suc:
  "walk P2V h (Suc k) t v =
     (let e = entry_of h t v (Suc k)
      in if \<not> pte_p e then None
         else if k = 0 \<or> ((k = 1 \<or> k = 2) \<and> bit e 7)
         then Some \<lparr>xaddr = (pte_frame e AND NOT (mask (part_lo (Suc k)))) + (v AND mask (part_lo (Suc k))),
                   xrw = pte_rw e, xus = pte_us e\<rparr>
         else case walk P2V h k (pte_frame e) v of
                None \<Rightarrow> None
              | Some x \<Rightarrow> Some (x\<lparr>xrw := pte_rw e \<and> xrw x, xus := pte_us e \<and> xus x\<rparr>))"
  by (simp add: walk.simps entry_of_def slot_def)

text \<open>Memory outside the tables does not matter to the path, nor to the translation.\<close>

lemma path_cong:
  "path_ok k h F U t v \<Longrightarrow> (\<And>x. x \<notin> F \<union> U \<Longrightarrow> h' x = h x) \<Longrightarrow> F' \<subseteq> F \<Longrightarrow>
   path_ok k h' F' U t v \<and> path_tables k h' t v = path_tables k h t v \<and>
   walk P2V h' k t v = walk P2V h k t v"
proof (induction k arbitrary: U t)
  case (Suc j)
  let ?P = "bytes_at (P2V t) 4096"
  from Suc.prems(1) have P: "?P \<inter> F = {}" "?P \<inter> U = {}" by auto
  then have e: "entry_of h' t v (Suc j) = entry_of h t v (Suc j)"
    using Suc.prems(2) by (intro entry_of_cong) auto
  show ?case
  proof (cases "0 < j \<and> pte_p (entry_of h t v (Suc j))")
    case True
    with Suc.prems have "path_ok j h F (U \<union> ?P) (pte_frame (entry_of h t v (Suc j))) v"
      by (simp add: Let_def)
    then have "path_ok j h' F' (U \<union> ?P) (pte_frame (entry_of h t v (Suc j))) v \<and>
      path_tables j h' (pte_frame (entry_of h t v (Suc j))) v =
      path_tables j h (pte_frame (entry_of h t v (Suc j))) v \<and>
      walk P2V h' j (pte_frame (entry_of h t v (Suc j))) v =
      walk P2V h j (pte_frame (entry_of h t v (Suc j))) v"
      using Suc.prems(2,3) by (intro Suc.IH) auto
    with True Suc.prems P e show ?thesis
      by (auto simp: Let_def walk_Suc)
  next
    case False
    with Suc.prems P e show ?thesis
      by (auto simp: Let_def walk_Suc)
  qed
qed simp

text \<open>A zeroed page is an empty table of any level.\<close>

lemma entry_of_zero:
  "(\<And>x. x \<in> bytes_at (P2V t) 4096 \<Longrightarrow> h x = 0) \<Longrightarrow> 1 \<le> level \<Longrightarrow> entry_of h t v level = 0"
  unfolding entry_of_def using slot_in_page [of level "P2V t" v]
  by (intro read64_zero) auto

lemma empty_table:
  assumes "\<And>x. x \<in> bytes_at (P2V t) 4096 \<Longrightarrow> h x = 0" and "page_ok (P2V t)"
    and "bytes_at (P2V t) 4096 \<inter> F = {}" and "bytes_at (P2V t) 4096 \<inter> U = {}"
  shows "path_ok (Suc j) h F U t v" "path_tables (Suc j) h t v = bytes_at (P2V t) 4096"
    "walk P2V h (Suc j) t v = None"
  using assms entry_of_zero [of t h "Suc j" v]
  by (simp_all add: walk_Suc pte_p_def)

subsection \<open>Mapping one page\<close>

definition map_post ::
  "nat \<Rightarrow> addr set \<Rightarrow> addr set \<Rightarrow> u64 \<Rightarrow> u64 \<Rightarrow> bool \<Rightarrow> mem_state \<Rightarrow> u32 \<Rightarrow> mem_state \<Rightarrow> addr set \<Rightarrow> bool"
where
  "map_post k F U t v rw s res s' F' \<longleftrightarrow>
     F' \<subseteq> F \<and> owns s' F' \<and> path_ok k (heap s') F' U t v \<and>
     (\<forall>x. x \<notin> F \<union> path_tables k (heap s) t v \<longrightarrow> heap s' x = heap s x) \<and>
     (res = -1 \<and> F' = {} \<or>
      res = 0 \<and> (\<exists>c. walk P2V (heap s') k t v =
          Some \<lparr>xaddr = c + (v AND mask 12), xrw = rw, xus = True\<rparr> \<and>
        (case walk P2V (heap s) k t v of
           Some x \<Rightarrow> xaddr x = c + (v AND mask 12)
         | None \<Rightarrow> 4096 dvd unat (P2V c) \<and> bytes_at (P2V c) 4096 \<subseteq> F - F' \<and>
             (\<forall>x \<in> bytes_at (P2V c) 4096. heap s' x = 0))))"

lemma descend:
  assumes po: "path_ok (Suc j) (heap s) F U t v" and "0 < j"
    and UF: "U \<inter> F = {}"
    and ep: "entry_post F (slot (P2V t) v (Suc j)) rw s c s2 F2"
  defines "e \<equiv> entry_of (heap s) t v (Suc j)" and "e2 \<equiv> entry_of (heap s2) t v (Suc j)"
  shows "path_ok j (heap s2) F2 (U \<union> bytes_at (P2V t) 4096) (pte_frame e2) v"
    "path_tables j (heap s2) (pte_frame e2) v \<subseteq> F \<union> path_tables (Suc j) (heap s) t v"
    "walk P2V (heap s2) j (pte_frame e2) v =
       (if pte_p e then walk P2V (heap s) j (pte_frame e) v else None)"
proof -
  let ?P = "bytes_at (P2V t) 4096" and ?en = "slot (P2V t) v (Suc j)"
  have sl: "bytes_at ?en 8 \<subseteq> ?P" by (rule slot_in_page) simp
  obtain i where j: "j = Suc i" using \<open>0 < j\<close> by (cases j) auto
  have "path_ok j (heap s2) F2 (U \<union> ?P) (pte_frame e2) v \<and>
    path_tables j (heap s2) (pte_frame e2) v \<subseteq> F \<union> path_tables (Suc j) (heap s) t v \<and>
    walk P2V (heap s2) j (pte_frame e2) v =
       (if pte_p e then walk P2V (heap s) j (pte_frame e) v else None)"
  proof (cases "pte_p e")
    case True
    with ep have f: "pte_frame e2 = pte_frame e" "F2 = F"
      "\<And>x. x \<notin> bytes_at ?en 8 \<Longrightarrow> heap s2 x = heap s x"
      by (auto simp: entry_post_def e_def e2_def entry_of_def Let_def)
    from po True \<open>0 < j\<close> have "path_ok j (heap s) F (U \<union> ?P) (pte_frame e) v"
      by (simp add: e_def Let_def)
    from path_cong [OF this, of "heap s2" F] f sl True \<open>0 < j\<close> show ?thesis
      by (auto simp: e_def Let_def)
  next
    case False
    with ep have f: "P2V (pte_frame e2) = c" "page_ok c" "bytes_at c 4096 \<subseteq> F"
      "F2 = F - bytes_at c 4096" "\<And>x. x \<in> bytes_at c 4096 \<Longrightarrow> heap s2 x = 0"
      by (auto simp: entry_post_def e_def e2_def entry_of_def Let_def)
    have "bytes_at c 4096 \<inter> (U \<union> ?P) = {}" using po UF f(3) by auto
    with f False empty_table [of "pte_frame e2" "heap s2" F2 "U \<union> ?P" i v] show ?thesis
      by (auto simp: j)
  qed
  then show "path_ok j (heap s2) F2 (U \<union> ?P) (pte_frame e2) v"
    "path_tables j (heap s2) (pte_frame e2) v \<subseteq> F \<union> path_tables (Suc j) (heap s) t v"
    "walk P2V (heap s2) j (pte_frame e2) v =
       (if pte_p e then walk P2V (heap s) j (pte_frame e) v else None)" by auto
qed

lemma map_post_leaf:
  assumes po: "path_ok 1 (heap s) F U t v"
    and ep: "entry_post F (slot (P2V t) v 1) rw s c s2 F2"
  shows "map_post 1 F U t v rw s 0 s2 F2"
proof -
  let ?e = "entry_of (heap s) t v 1" and ?e2 = "entry_of (heap s2) t v 1"
  have sl: "bytes_at (slot (P2V t) v 1) 8 \<subseteq> bytes_at (P2V t) 4096" by (rule slot_in_page) simp
  have w: "walk P2V h 1 t v = (if pte_p (entry_of h t v 1)
      then Some \<lparr>xaddr = pte_frame (entry_of h t v 1) + (v AND mask 12),
                 xrw = pte_rw (entry_of h t v 1), xus = pte_us (entry_of h t v 1)\<rparr> else None)" for h
    using walk_Suc [of h 0 t v] by (simp add: Let_def part_lo_def pte_frame_aligned)
  have f: "owns s2 F2" "F2 \<subseteq> F" "pte_p ?e2" "pte_rw ?e2 = rw" "pte_us ?e2" "P2V (pte_frame ?e2) = c"
    "\<And>x. x \<notin> F \<union> bytes_at (slot (P2V t) v 1) 8 \<Longrightarrow> heap s2 x = heap s x"
    "pte_p ?e \<Longrightarrow> pte_frame ?e2 = pte_frame ?e"
    "\<not> pte_p ?e \<Longrightarrow> 4096 dvd unat c \<and> bytes_at c 4096 \<subseteq> F \<and> F2 = F - bytes_at c 4096 \<and>
       (\<forall>x \<in> bytes_at c 4096. heap s2 x = 0)"
    using ep by (auto simp: entry_post_def entry_of_def Let_def split: if_splits)
  have "P2V (pte_frame ?e2) \<noteq> 0"
    using po f(6,8) ep page_ok_nonzero [of c]
    by (auto simp: entry_post_def entry_of_def Let_def split: if_splits)
  then have "path_ok 1 (heap s2) F2 U t v" using po f(2) by (auto simp: Let_def)
  moreover have "\<forall>x. x \<notin> F \<union> path_tables 1 (heap s) t v \<longrightarrow> heap s2 x = heap s x"
    using f(7) sl by auto
  ultimately show ?thesis
    unfolding map_post_def w using f by (auto intro!: exI [of _ "pte_frame ?e2"])
qed

lemma map_post_node:
  assumes po: "path_ok (Suc j) (heap s) F U t v" and j: "0 < j" and UF: "U \<inter> F = {}"
    and ep: "entry_post F (slot (P2V t) v (Suc j)) rw s c s2 F2"
  defines "e2 \<equiv> entry_of (heap s2) t v (Suc j)" and "P \<equiv> bytes_at (P2V t) 4096"
  assumes mp: "map_post j F2 (U \<union> P) (pte_frame e2) v rw s2 res s3 F3"
  shows "map_post (Suc j) F U t v rw s res s3 F3"
proof -
  let ?e = "entry_of (heap s) t v (Suc j)" and ?en = "slot (P2V t) v (Suc j)"
  note d = descend [OF po j UF ep, folded e2_def P_def]
  have sl: "bytes_at ?en 8 \<subseteq> P" unfolding P_def by (rule slot_in_page) simp
  have f: "F2 \<subseteq> F" "pte_p e2" "pte_rw e2 = rw" "pte_us e2" "bit e2 7 = bit ?e 7"
    "\<And>x. x \<notin> F \<union> bytes_at ?en 8 \<Longrightarrow> heap s2 x = heap s x" and b7: "\<not> bit ?e 7"
    using ep po j by (auto simp: entry_post_def entry_of_def e2_def Let_def)
  from mp have m: "F3 \<subseteq> F2" "owns s3 F3" "path_ok j (heap s3) F3 (U \<union> P) (pte_frame e2) v"
    "\<And>x. x \<notin> F2 \<union> path_tables j (heap s2) (pte_frame e2) v \<Longrightarrow> heap s3 x = heap s2 x"
    by (auto simp: map_post_def)
  have PF: "P \<inter> F = {}" "P \<inter> U = {}" "page_ok (P2V t)" using po by (auto simp: P_def)
  have e3: "entry_of (heap s3) t v (Suc j) = e2"
    unfolding e2_def using PF f(1) path_tables_apart [OF d(1)]
    by (intro entry_of_cong m(4)) (auto simp: P_def)
  have nz: "P2V (pte_frame e2) \<noteq> 0"
    using d(1) j page_ok_nonzero by (cases j) auto
  have po3: "path_ok (Suc j) (heap s3) F3 U t v"
    using PF m(1,3) f(1,5) b7 e3 nz by (auto simp: P_def [symmetric] Let_def)
  have fr: "heap s3 x = heap s x" if "x \<notin> F \<union> path_tables (Suc j) (heap s) t v" for x
  proof -
    have "x \<notin> P" using that by (simp add: P_def)
    have "heap s3 x = heap s2 x" by (rule m(4), use that d(2) f(1) in blast)
    also have "\<dots> = heap s x" by (rule f(6), use that sl \<open>x \<notin> P\<close> in blast)
    finally show ?thesis .
  qed
  have wk: "walk P2V (heap u) (Suc j) t v =
      (if pte_p e then case walk P2V (heap u) j (pte_frame e) v of None \<Rightarrow> None
         | Some x \<Rightarrow> Some (x\<lparr>xrw := pte_rw e \<and> xrw x, xus := pte_us e \<and> xus x\<rparr>) else None)"
    if "e = entry_of (heap u) t v (Suc j)" "\<not> bit e 7" for u e
    using that j by (auto simp: walk_Suc Let_def split: option.split)
  have w: "walk P2V (heap s3) (Suc j) t v =
      (case walk P2V (heap s3) j (pte_frame e2) v of None \<Rightarrow> None
       | Some x \<Rightarrow> Some (x\<lparr>xrw := rw \<and> xrw x, xus := xus x\<rparr>))"
    using wk [OF e3 [symmetric]] f(2-5) b7 by (auto split: option.split)
  have w0: "walk P2V (heap s) (Suc j) t v =
      (case walk P2V (heap s2) j (pte_frame e2) v of None \<Rightarrow> None
       | Some x \<Rightarrow> Some (x\<lparr>xrw := pte_rw ?e \<and> xrw x, xus := pte_us ?e \<and> xus x\<rparr>))"
    using wk [OF refl b7] d(3) by simp
  have sub: "B \<subseteq> F2 - F3 \<Longrightarrow> B \<subseteq> F - F3" for B using f(1) by blast
  have res: "res = -1 \<and> F3 = {} \<or> res = 0 \<and> (\<exists>c. walk P2V (heap s3) (Suc j) t v =
          Some \<lparr>xaddr = c + (v AND mask 12), xrw = rw, xus = True\<rparr> \<and>
        (case walk P2V (heap s) (Suc j) t v of
           Some x \<Rightarrow> xaddr x = c + (v AND mask 12)
         | None \<Rightarrow> 4096 dvd unat (P2V c) \<and> bytes_at (P2V c) 4096 \<subseteq> F - F3 \<and>
             (\<forall>x \<in> bytes_at (P2V c) 4096. heap s3 x = 0)))"
    (is "_ \<or> _ \<and> (\<exists>c. ?G c)")
  proof (cases "res = -1 \<and> F3 = {}")
    case False
    with mp obtain c where c0: "res = 0" "walk P2V (heap s3) j (pte_frame e2) v =
        Some \<lparr>xaddr = c + (v AND mask 12), xrw = rw, xus = True\<rparr>"
      and c1: "case walk P2V (heap s2) j (pte_frame e2) v of
           Some x \<Rightarrow> xaddr x = c + (v AND mask 12)
         | None \<Rightarrow> 4096 dvd unat (P2V c) \<and> bytes_at (P2V c) 4096 \<subseteq> F2 - F3 \<and>
             (\<forall>x \<in> bytes_at (P2V c) 4096. heap s3 x = 0)"
      unfolding map_post_def by blast
    have "?G c"
    proof (cases "walk P2V (heap s2) j (pte_frame e2) v")
      case None
      with c1 have "4096 dvd unat (P2V c)" "bytes_at (P2V c) 4096 \<subseteq> F2 - F3"
        "\<forall>x \<in> bytes_at (P2V c) 4096. heap s3 x = 0" by simp_all
      with sub [of "bytes_at (P2V c) 4096"] None c0 show ?thesis by (simp add: w w0)
    next
      case (Some x)
      with c0 c1 show ?thesis by (simp add: w w0)
    qed
    with c0 show ?thesis by blast
  qed simp
  have "F3 \<subseteq> F" using f(1) m(1) by blast
  with res po3 fr m(2) show ?thesis unfolding map_post_def by blast
qed

lemma map_post_fail:
  "path_ok k (heap s) {} U t v \<Longrightarrow> owns s {} \<Longrightarrow> map_post k {} U t v rw s (-1) s {}"
  by (simp add: map_post_def)

lemma setupPageMap_0: "setupPageMap level pm l 0 rw s = Some (0, l, s)"
  by (simp add: setupPageMap.simps)

text \<open>One iteration of \<open>setupPageMap\<close> with one page to map.\<close>

lemma setupPageMap_1_unfold:
  assumes "1 \<le> k" "k \<le> 4"
  shows "setupPageMap k pm v 1 rw s =
    (case setNewPageMapIfNotPresent (slot pm v k) s of
       None \<Rightarrow> None
     | Some (c, s1) \<Rightarrow>
         if c = 0 then Some (-1, v, s1)
         else case (if k = 1 then Some (0, v, entry_step (slot pm v k) rw s1)
                    else setupPageMap (k - 1) c v 1 rw (entry_step (slot pm v k) rw s1)) of
                None \<Rightarrow> None
              | Some (r, l', s3) \<Rightarrow>
                  if k \<noteq> 1 \<and> r = -1 then Some (-1, l', s3)
                  else if part v k = 511 then Some (r, l', s3)
                  else setupPageMap k pm (advance l' k (part v k)) r rw s3)"
  using assms
  by (subst setupPageMap.simps)
    (simp add: slot_def entry_step_def Let_def split: option.splits prod.splits cong: if_cong)

lemma setupPageMap_one:
  assumes "1 \<le> k" and "k \<le> 4" and "owns s F" and "\<forall>x \<in> F. PAGE_OFFSET \<le> x"
    and "path_ok k (heap s) F U t v" and "U \<inter> F = {}"
  shows "\<exists>res l' s' F'. setupPageMap k (P2V t) v 1 rw s = Some (res, l', s') \<and>
           map_post k F U t v rw s res s' F'"
  using assms
proof (induction k arbitrary: s F U t)
  case (Suc j)
  let ?en = "slot (P2V t) v (Suc j)" and ?P = "bytes_at (P2V t) 4096"
  have pok: "page_ok (P2V t)" and PF: "?P \<inter> F = {}" using Suc.prems(5) by auto
  have "?en \<noteq> 0" using pok by (intro slot_nonzero) (auto simp: page_ok_def)
  moreover have "bytes_at ?en 8 \<inter> F = {}"
    using PF slot_in_page [of "Suc j" "P2V t" v] by auto
  ultimately obtain c s1 where
    sn: "setNewPageMapIfNotPresent ?en s = Some (c, s1)" and
    alt: "c = 0 \<and> \<not> pte_p (read64 (heap s) ?en) \<and> s1 = s \<and> F = {} \<or>
      (\<exists>F2. entry_post F ?en rw s c (entry_step ?en rw s1) F2)"
    using entry_step_spec [OF Suc.prems(3,4), of ?en rw] by blast
  note unf = setupPageMap_1_unfold [OF Suc.prems(1,2), of "P2V t" v rw s, unfolded sn]
  show ?case
  proof (cases "c = 0")
    case True
    have F: "s1 = s \<and> F = {}"
      using alt
    proof
      assume "\<exists>F2. entry_post F ?en rw s c (entry_step ?en rw s1) F2"
      then have False using True Suc.prems(5) page_ok_nonzero [of c]
        by (auto simp: entry_post_def entry_of_def Let_def split: if_splits)
      then show ?thesis ..
    qed simp
    with Suc.prems have "map_post (Suc j) F U t v rw s (-1) s F"
      by (auto intro!: map_post_fail)
    with F show ?thesis using unf True by auto
  next
    case c: False
    let ?s2 = "entry_step ?en rw s1"
    from alt c obtain F2 where ep: "entry_post F ?en rw s c ?s2 F2" by auto
    show ?thesis
    proof (cases "j = 0")
      case True
      with Suc.prems ep have "map_post 1 F U t v rw s 0 ?s2 F2" by (intro map_post_leaf) auto
      with True unf c show ?thesis by (auto simp: setupPageMap_0)
    next
      case False
      then have j: "0 < j" "1 \<le> j" "j \<le> 4" using Suc.prems by auto
      define e2 where "e2 = entry_of (heap ?s2) t v (Suc j)"
      have o2: "owns ?s2 F2" "F2 \<subseteq> F" "P2V (pte_frame e2) = c"
        using ep by (auto simp: entry_post_def entry_of_def e2_def Let_def)
      have "(U \<union> ?P) \<inter> F2 = {}" using Suc.prems(6) PF o2 by auto
      moreover have "\<forall>x \<in> F2. PAGE_OFFSET \<le> x" using Suc.prems(4) o2(2) by blast
      ultimately have "\<exists>res l' s' F'. setupPageMap j c v 1 rw ?s2 = Some (res, l', s') \<and>
          map_post j F2 (U \<union> ?P) (pte_frame e2) v rw ?s2 res s' F'"
        using Suc.IH [OF j(2,3) o2(1) _ descend(1) [OF Suc.prems(5) j(1) Suc.prems(6) ep, folded e2_def]]
          o2(3) by simp
      then obtain res l' s3 F3 where r: "setupPageMap j c v 1 rw ?s2 = Some (res, l', s3)"
        and mp: "map_post j F2 (U \<union> ?P) (pte_frame e2) v rw ?s2 res s3 F3" by auto
      have post: "map_post (Suc j) F U t v rw s res s3 F3"
        using mp unfolding e2_def by (rule map_post_node [OF Suc.prems(5) j(1) Suc.prems(6) ep])
      then have "res = -1 \<or> res = 0" by (auto simp: map_post_def)
      with unf c False r post show ?thesis by (auto simp: setupPageMap_0)
    qed
  qed
qed simp
end
