(* ===== verification/Mem_Init.thy ===== *)
theory Mem_Init
  imports Page_Alloc
begin

unbundle bit_operations_syntax

text \<open>
  \<open>init_mem\<close> of kernel/mem.c: the UEFI memory map is scanned once and every run of usable
  descriptors becomes a block of the free list. The lemmas show that the list in memory is the
  list of runs, that it is well formed, and that it covers usable memory only.
\<close>

subsection \<open>\<open>init_mem\<close>\<close>

text \<open>
  The boot loader hands over the UEFI memory map as a packed array of descriptors
  (\<open>struct UEFI_MemoryMap\<close> of include/mem.h, \<open>EFI_MEMORY_DESCRIPTOR\<close> of include/uefi.h; the
  64-bit fields of a descriptor start at offset 8).
\<close>

record uefi_memory_map =
  buffer :: addr
  mapsize :: u64
  descsize :: u64

record efi_memory_descriptor =
  Type :: u32
  PhysicalStart :: u64
  VirtualStart :: u64
  NumberOfPage :: u64
  Attribute :: u64

definition read_desc :: "mem \<Rightarrow> addr \<Rightarrow> efi_memory_descriptor" where
  "read_desc h m = \<lparr>Type = read32 h m, PhysicalStart = read64 h (m + 8),
     VirtualStart = read64 h (m + 16), NumberOfPage = read64 h (m + 24),
     Attribute = read64 h (m + 32)\<rparr>"

text \<open>\<open>isUsableMemType\<close> takes a \<open>uint16_t\<close>, so a caller's 32-bit type is truncated.\<close>

definition EfiLoaderCode :: nat where "EfiLoaderCode = 1"
definition EfiLoaderData :: nat where "EfiLoaderData = 2"
definition EfiBootServicesCode :: nat where "EfiBootServicesCode = 3"
definition EfiBootServicesData :: nat where "EfiBootServicesData = 4"
definition EfiConventionalMemory :: nat where "EfiConventionalMemory = 7"
definition EfiUnusableMemory :: nat where "EfiUnusableMemory = 8"

definition isUsableMemType :: "u16 \<Rightarrow> bool" where
  "isUsableMemType t \<longleftrightarrow>
     unat t = EfiLoaderCode \<or> unat t = EfiLoaderData \<or> unat t = EfiBootServicesCode \<or>
     unat t = EfiBootServicesData \<or> unat t = EfiConventionalMemory"

text \<open>
  One descriptor. \<open>start\<close> and \<open>pages\<close> hold the run of usable memory being collected
  (\<open>start = 0\<close> means none), \<open>cur\<close> the last node of the list so far.
\<close>

definition extend_run :: "u64 \<times> u64 \<Rightarrow> efi_memory_descriptor \<Rightarrow> u64 \<times> u64" where
  "extend_run r d =
     (let (start, pages) = (if fst r = 0 then (PhysicalStart d, NumberOfPage d) else r)
      in (start, if start + pages * 4096 = PhysicalStart d then pages + NumberOfPage d else pages))"

definition write_run :: "u64 \<times> u64 \<Rightarrow> node \<Rightarrow> mem_state \<Rightarrow> mem_state" where
  "write_run r cur s =
     (let ml = P2V (fst r);
          s1 = set_next (At ml) 0 s;
          s2 = set_pages (At ml) (ucast (snd r)) s1;
          s3 = s2\<lparr>ml_pages := ucast (ucast (ml_pages s2) + snd r)\<rparr>
      in set_next cur ml s3)"

partial_function (option) init_loop ::
  "addr \<Rightarrow> u64 \<Rightarrow> addr \<Rightarrow> u64 \<times> u64 \<Rightarrow> node \<Rightarrow> mem_state \<Rightarrow> mem_state option" where
  "init_loop lim step m r cur s =
     (if m < lim then
        (let d = read_desc (heap s) m in
         if isUsableMemType (ucast (Type d))
         then init_loop lim step (m + step) (extend_run r d) cur s
         else if fst r \<noteq> 0
         then init_loop lim step (m + step) (0, snd r) (At (P2V (fst r))) (write_run r cur s)
         else init_loop lim step (m + step) r cur s)
      else Some s)"

definition init_mem :: "uefi_memory_map \<Rightarrow> mem_state \<Rightarrow> mem_state option" where
  "init_mem mm s =
     (let base = P2V (buffer mm)
      in init_loop (base + mapsize mm) (descsize mm) base (0, 0) Memlist s)"

subsection \<open>\<open>init_mem\<close> builds the list of runs\<close>

text \<open>
  The abstract result: the runs of usable descriptors, each closed by the first descriptor
  that is not usable.
\<close>

definition usable :: "efi_memory_descriptor \<Rightarrow> bool" where
  "usable d = isUsableMemType (ucast (Type d))"

fun runs :: "u64 \<times> u64 \<Rightarrow> efi_memory_descriptor list \<Rightarrow> block list" where
  "runs r [] = []"
| "runs r (d # ds) =
     (if usable d then runs (extend_run r d) ds
      else if fst r \<noteq> 0 then (P2V (fst r), ucast (snd r)) # runs (0, snd r) ds
      else runs r ds)"

definition node_bytes :: "block list \<Rightarrow> addr set" where
  "node_bytes bs = (\<Union>b \<in> set bs. bytes_at (fst b) 12)"

text \<open>The nodes \<open>bs\<close> lie apart from each other and from the map being read.\<close>

definition nodes_ok :: "addr set \<Rightarrow> block list \<Rightarrow> bool" where
  "nodes_ok M bs \<longleftrightarrow>
     (\<forall>b \<in> set bs. fst b \<noteq> 0 \<and> unat (fst b) + 12 \<le> 2 ^ 64 \<and> bytes_at (fst b) 12 \<inter> M = {}) \<and>
     sorted_wrt (\<lambda>b c. bytes_at (fst b) 12 \<inter> bytes_at (fst c) 12 = {}) bs"

fun descs_at :: "mem \<Rightarrow> addr \<Rightarrow> u64 \<Rightarrow> nat \<Rightarrow> efi_memory_descriptor list" where
  "descs_at h m step 0 = []"
| "descs_at h m step (Suc k) = read_desc h m # descs_at h (m + step) step k"

lemma node_bytes_simps [simp]:
  "node_bytes [] = {}" "node_bytes (b # bs) = bytes_at (fst b) 12 \<union> node_bytes bs"
  by (auto simp: node_bytes_def)

lemma nodes_ok_simps [simp]:
  "nodes_ok M []"
  "nodes_ok M (b # bs) \<longleftrightarrow> fst b \<noteq> 0 \<and> unat (fst b) + 12 \<le> 2 ^ 64 \<and>
     bytes_at (fst b) 12 \<inter> M = {} \<and> bytes_at (fst b) 12 \<inter> node_bytes bs = {} \<and> nodes_ok M bs"
  by (auto simp: nodes_ok_def node_bytes_def)

lemma flist_cong_nodes:
  "flist h a bs \<Longrightarrow> (\<And>x. x \<in> node_bytes bs \<Longrightarrow> h' x = h x) \<Longrightarrow> flist h' a bs"
proof (induction bs arbitrary: a)
  case (Cons b bs)
  obtain c n where b: "b = (c, n)" by force
  from Cons.prems b have h: "h' x = h x" if "x \<in> bytes_at a 12" for x
    using that by auto
  have "read32 h' (a + 8) = read32 h (a + 8)" "read64 h' a = read64 h a"
    using hdr_fields [of a] by (auto intro!: read32_cong read64_cong h)
  with Cons b show ?case by auto
qed simp

lemma read_desc_cong:
  assumes "\<And>x. x \<in> bytes_at m 40 \<Longrightarrow> h' x = h x"
  shows "read_desc h' m = read_desc h m"
proof -
  have "bytes_at m 4 \<subseteq> bytes_at m 40" "bytes_at (m + 8) 8 \<subseteq> bytes_at m 40"
    "bytes_at (m + 16) 8 \<subseteq> bytes_at m 40" "bytes_at (m + 24) 8 \<subseteq> bytes_at m 40"
    "bytes_at (m + 32) 8 \<subseteq> bytes_at m 40"
    using bytes_at_mono [of 4 40 m] bytes_at_shift [of 8 8 40 m] bytes_at_shift [of 16 8 40 m]
      bytes_at_shift [of 24 8 40 m] bytes_at_shift [of 32 8 40 m] by simp_all
  then show ?thesis
    unfolding read_desc_def using assms
    by (auto intro!: read32_cong read64_cong)
qed

lemma write_run_facts:
  assumes ml: "ml = P2V (fst r)" and w: "unat ml + 12 \<le> 2 ^ 64"
    and prev: "next_field cur \<inter> bytes_at ml 12 = {}"
  shows "next_of cur (write_run r cur s) = ml"
    "next_of (At ml) (write_run r cur s) = 0"
    "read32 (heap (write_run r cur s)) (ml + 8) = ucast (snd r)"
    "\<And>x. x \<notin> next_field cur \<Longrightarrow> x \<notin> bytes_at ml 12 \<Longrightarrow> heap (write_run r cur s) x = heap s x"
    "cur \<noteq> Memlist \<Longrightarrow> ml_next (write_run r cur s) = ml_next s"
proof -
  note hdr = hdr_fields [of ml]
  have dj: "bytes_at ml 8 \<inter> bytes_at (ml + 8) 4 = {}"
    using w unat_add_of_nat [of ml 8] by (intro bytes_at_disjoint) auto
  define h where "h = write32 (ml + 8) (ucast (snd r)) (write64 ml 0 (heap s))"
  have h: "read64 h ml = 0" "read32 h (ml + 8) = ucast (snd r)"
    using dj by (simp_all add: h_def read64_write32_other)
  have ho: "h x = heap s x" if "x \<notin> bytes_at ml 12" for x
  proof -
    from that hdr have "x \<notin> bytes_at ml 8" "x \<notin> bytes_at (ml + 8) 4" by blast+
    then show ?thesis by (simp add: h_def write32_other write64_other)
  qed
  have w: "heap (write_run r cur s) x = h x" if "x \<notin> next_field cur" for x
    using that by (cases cur) (auto simp: write_run_def Let_def h_def ml write64_other)
  show "next_of cur (write_run r cur s) = ml"
    by (simp add: write_run_def Let_def ml)
  have "read64 (heap (write_run r cur s)) ml = read64 h ml"
    using prev hdr by (intro read64_cong w) auto
  with h show "next_of (At ml) (write_run r cur s) = 0" by simp
  have "read32 (heap (write_run r cur s)) (ml + 8) = read32 h (ml + 8)"
    using prev hdr by (intro read32_cong w) auto
  with h show "read32 (heap (write_run r cur s)) (ml + 8) = ucast (snd r)" by simp
  show "heap (write_run r cur s) x = heap s x"
    if "x \<notin> next_field cur" "x \<notin> bytes_at ml 12" for x
    using that w ho by simp
  show "ml_next (write_run r cur s) = ml_next s" if "cur \<noteq> Memlist"
    using that by (simp add: write_run_def Let_def)
qed

lemma bytes_at_step:
  "bytes_at m (Suc k * unat step) = bytes_at m (unat step) \<union> bytes_at (m + step) (k * unat step)"
  using bytes_at_add [of m "unat step" "k * unat step"] by simp

lemma descs_at_cong:
  "(\<And>x. x \<in> M \<Longrightarrow> h' x = h x) \<Longrightarrow> bytes_at m (k * unat step) \<subseteq> M \<Longrightarrow> 40 \<le> unat step \<Longrightarrow>
   descs_at h' m step k = descs_at h m step k"
proof (induction k arbitrary: m)
  case (Suc k)
  from Suc.prems(2) have sub: "bytes_at m (unat step) \<subseteq> M" "bytes_at (m + step) (k * unat step) \<subseteq> M"
    unfolding bytes_at_step by simp_all
  have "bytes_at m 40 \<subseteq> M" using bytes_at_mono [OF Suc.prems(3), of m] sub by blast
  then have "read_desc h' m = read_desc h m" using Suc.prems(1) by (intro read_desc_cong) blast
  moreover have "descs_at h' (m + step) step k = descs_at h (m + step) step k"
    using Suc.prems sub by (intro Suc.IH) auto
  ultimately show ?case by simp
qed simp

lemma init_loop_spec:
  assumes "unat m + k * unat step = unat lim" and "40 \<le> unat step"
    and "bytes_at m (k * unat step) \<subseteq> M" and "next_field cur \<inter> M = {}"
    and "nodes_ok M (runs r (descs_at (heap s) m step k))"
    and "next_field cur \<inter> node_bytes (runs r (descs_at (heap s) m step k)) = {}"
    and "next_of cur s = 0"
  shows "\<exists>s'. init_loop lim step m r cur s = Some s' \<and>
    flist (heap s') (next_of cur s') (runs r (descs_at (heap s) m step k)) \<and>
    (\<forall>x. x \<notin> next_field cur \<union> node_bytes (runs r (descs_at (heap s) m step k)) \<longrightarrow>
       heap s' x = heap s x) \<and>
    (cur \<noteq> Memlist \<longrightarrow> ml_next s' = ml_next s)"
  using assms
proof (induction k arbitrary: m r cur s)
  case 0
  then have "m = lim" by (simp add: word_eq_unatI)
  with 0 show ?case by (simp add: init_loop.simps)
next
  case (Suc k)
  let ?d = "read_desc (heap s) m" and ?m = "m + step"
  let ?ds = "descs_at (heap s) ?m step k"
  have lt: "m < lim" using Suc.prems(1,2) by (simp add: word_less_nat_alt)
  have um: "unat ?m = unat m + unat step"
    using Suc.prems(1) unat_lt_pow [of lim] by (intro unat_add_exact) simp
  have um': "unat ?m + k * unat step = unat lim" using um Suc.prems(1) by simp
  have sub: "bytes_at ?m (k * unat step) \<subseteq> M" using Suc.prems(3) unfolding bytes_at_step by simp
  note unf = init_loop.simps [of lim step m r cur s]
  consider (use) "usable ?d" | (put) "\<not> usable ?d" "fst r \<noteq> 0" | (skip) "\<not> usable ?d" "fst r = 0"
    by blast
  then show ?case
  proof cases
    case use
    with lt Suc.prems Suc.IH [OF um' _ sub, of cur "extend_run r ?d" s] show ?thesis
      by (simp add: unf usable_def Let_def)
  next
    case skip
    with lt Suc.prems Suc.IH [OF um' _ sub, of cur r s] show ?thesis
      by (simp add: unf usable_def Let_def)
  next
    case put
    let ?ml = "P2V (fst r)" and ?s = "write_run r cur s" and ?rs = "runs (0, snd r) ?ds"
    have rr: "runs r (?d # ?ds) = (?ml, ucast (snd r)) # ?rs" using put by simp
    from Suc.prems(4-6) rr have ml: "?ml \<noteq> 0" "unat ?ml + 12 \<le> 2 ^ 64" "bytes_at ?ml 12 \<inter> M = {}"
      "bytes_at ?ml 12 \<inter> node_bytes ?rs = {}" "nodes_ok M ?rs"
      and cur: "next_field cur \<inter> bytes_at ?ml 12 = {}" "next_field cur \<inter> node_bytes ?rs = {}"
      by auto
    note wr = write_run_facts [OF refl ml(2) cur(1), where s = s]
    have ds: "descs_at (heap ?s) ?m step k = ?ds"
      using Suc.prems(2,4) ml(3) sub by (intro descs_at_cong [of M] wr(4)) auto
    have nf: "next_field (At ?ml) \<subseteq> bytes_at ?ml 12" using hdr_fields(1) by simp
    have "\<exists>s'. init_loop lim step ?m (0, snd r) (At ?ml) ?s = Some s' \<and>
      flist (heap s') (next_of (At ?ml) s') ?rs \<and>
      (\<forall>x. x \<notin> next_field (At ?ml) \<union> node_bytes ?rs \<longrightarrow> heap s' x = heap ?s x) \<and>
      (At ?ml \<noteq> Memlist \<longrightarrow> ml_next s' = ml_next ?s)"
      unfolding ds [symmetric] using ml nf wr(2) ds
      by (intro Suc.IH [OF um' Suc.prems(2) sub]) (auto simp del: next_field.simps next_of.simps)
    then obtain s' where s': "init_loop lim step ?m (0, snd r) (At ?ml) ?s = Some s'"
      "flist (heap s') (read64 (heap s') ?ml) ?rs"
      "\<And>x. x \<notin> next_field (At ?ml) \<Longrightarrow> x \<notin> node_bytes ?rs \<Longrightarrow> heap s' x = heap ?s x"
      "ml_next s' = ml_next ?s" by auto
    have "next_of cur s' = next_of cur ?s"
      using cur nf s' by (intro next_of_cong s'(3)) auto
    then have nx: "next_of cur s' = ?ml" using wr(1) by simp
    have dj: "bytes_at ?ml 8 \<inter> bytes_at (?ml + 8) 4 = {}"
      using ml(2) unat_add_of_nat [of ?ml 8] by (intro bytes_at_disjoint) auto
    have "read32 (heap s') (?ml + 8) = read32 (heap ?s) (?ml + 8)"
      using dj hdr_fields(2) [of ?ml] ml(4) by (intro read32_cong s'(3)) auto
    with nx wr(3) ml(1) s'(2) have fl: "flist (heap s') (next_of cur s') (runs r (?d # ?ds))"
      unfolding rr by simp
    have fr: "heap s' x = heap s x" if "x \<notin> next_field cur \<union> node_bytes (runs r (?d # ?ds))" for x
    proof -
      from that rr have x: "x \<notin> next_field cur" "x \<notin> bytes_at ?ml 12" "x \<notin> node_bytes ?rs" by auto
      with nf have "x \<notin> next_field (At ?ml)" by blast
      with x have "heap s' x = heap ?s x" by (intro s'(3))
      also from x have "\<dots> = heap s x" by (intro wr(4))
      finally show ?thesis .
    qed
    have "init_loop lim step m r cur s = Some s'"
      using lt put s'(1) by (simp add: unf usable_def Let_def)
    with fl fr s'(4) wr(5) show ?thesis by auto
  qed
qed

subsection \<open>The runs are usable memory\<close>

definition region_bytes :: "u64 \<times> u64 \<Rightarrow> addr set" where
  "region_bytes r = bytes_at (P2V (fst r)) (4096 * unat (snd r))"

definition usable_bytes :: "efi_memory_descriptor list \<Rightarrow> addr set" where
  "usable_bytes ds = (\<Union>d \<in> {d \<in> set ds. usable d}. region_bytes (PhysicalStart d, NumberOfPage d))"

definition pending_bytes :: "u64 \<times> u64 \<Rightarrow> addr set" where
  "pending_bytes r = (if fst r = 0 then {} else region_bytes r)"

lemma usable_bytes_simps [simp]:
  "usable_bytes [] = {}"
  "usable_bytes (d # ds) =
     (if usable d then region_bytes (PhysicalStart d, NumberOfPage d) else {}) \<union> usable_bytes ds"
  by (auto simp: usable_bytes_def)

lemma unat_add_le: "unat (a + b :: 'a::len word) \<le> unat a + unat b"
  by (simp add: unat_word_ariths)

lemma region_grow:
  assumes "start + pages * 4096 = phys"
  shows "region_bytes (start, pages + np) \<subseteq> region_bytes (start, pages) \<union> region_bytes (phys, np)"
proof -
  have "region_bytes (start, pages + np) \<subseteq> bytes_at (P2V start) (4096 * unat pages + 4096 * unat np)"
    using unat_add_le [of pages np]
    by (simp add: region_bytes_def bytes_at_mono)
  also have "\<dots> = region_bytes (start, pages) \<union> bytes_at (P2V start + pages * 4096) (4096 * unat np)"
    by (simp add: region_bytes_def bytes_at_add mult.commute)
  also have "P2V start + pages * 4096 = P2V phys"
    unfolding assms [symmetric] by (simp add: P2V_def)
  finally show ?thesis by (simp add: region_bytes_def)
qed

lemma extend_run_bytes:
  "pending_bytes (extend_run r d) \<subseteq>
     pending_bytes r \<union> region_bytes (PhysicalStart d, NumberOfPage d)"
proof (cases "fst r = 0")
  case True
  show ?thesis
  proof (cases "PhysicalStart d + NumberOfPage d * 4096 = PhysicalStart d")
    case eq: True
    from region_grow [OF eq, of "NumberOfPage d"] True eq show ?thesis
      by (auto simp: pending_bytes_def extend_run_def Let_def)
  next
    case False
    with True show ?thesis by (auto simp: pending_bytes_def extend_run_def Let_def)
  qed
next
  case False
  with region_grow [of "fst r" "snd r" "PhysicalStart d" "NumberOfPage d"] show ?thesis
    by (cases r) (auto simp: pending_bytes_def extend_run_def Let_def)
qed

lemma unat_ucast_le: "unat (ucast (x :: u64) :: u32) \<le> unat x"
  by (simp add: unsigned_ucast_eq)

lemma runs_bytes: "free_bytes (runs r ds) \<subseteq> pending_bytes r \<union> usable_bytes ds"
proof (induction r ds rule: runs.induct)
  case (2 r d ds)
  consider (use) "usable d" | (put) "\<not> usable d" "fst r \<noteq> 0" | (skip) "\<not> usable d" "fst r = 0"
    by blast
  then show ?case
  proof cases
    case use
    with "2.IH"(1) extend_run_bytes [of r d] show ?thesis by auto
  next
    case put
    have "block_bytes (P2V (fst r), ucast (snd r)) \<subseteq> pending_bytes r"
      using put by (simp add: pending_bytes_def region_bytes_def bytes_at_mono unat_ucast_le)
    with put "2.IH"(2) show ?thesis by (auto simp: pending_bytes_def simp del: block_bytes.simps)
  next
    case skip
    with "2.IH"(3) show ?thesis by auto
  qed
qed simp

text \<open>
  On a sane map (usable regions page aligned, not empty, apart from each other, below 16 TB, so
  that no page count exceeds 32 bits) the runs are a well-formed block list.
\<close>

fun region_ok :: "u64 \<times> u64 \<Rightarrow> bool" where
  "region_ok (a, n) \<longleftrightarrow> n \<noteq> 0 \<and> 4096 dvd unat a \<and> unat a + 4096 * unat n \<le> 2 ^ 44"

definition map_ok :: "efi_memory_descriptor list \<Rightarrow> bool" where
  "map_ok ds \<longleftrightarrow>
     (\<forall>d \<in> set ds. usable d \<longrightarrow> region_ok (PhysicalStart d, NumberOfPage d)) \<and>
     sorted_wrt (\<lambda>d e. usable d \<longrightarrow> usable e \<longrightarrow>
       region_bytes (PhysicalStart d, NumberOfPage d) \<inter>
       region_bytes (PhysicalStart e, NumberOfPage e) = {}) ds"

lemma map_ok_simps [simp]:
  "map_ok []"
  "map_ok (d # ds) \<longleftrightarrow>
     (usable d \<longrightarrow> region_ok (PhysicalStart d, NumberOfPage d) \<and>
        region_bytes (PhysicalStart d, NumberOfPage d) \<inter> usable_bytes ds = {}) \<and> map_ok ds"
  by (auto simp: map_ok_def usable_bytes_def)

lemma region_block:
  assumes "region_ok (a, n)" and "a \<noteq> 0"
  shows "wf_block (P2V a, ucast n)" "unat (P2V a) = unat PAGE_OFFSET + unat a"
    "unat (ucast n :: u32) = unat n"
proof -
  from assms have a: "4096 dvd unat a" "unat a + 4096 * unat n \<le> 2 ^ 44" "unat a \<noteq> 0"
    by (auto simp: unat_eq_0)
  then have "4096 \<le> unat a" by (simp add: dvd_imp_le)
  with a have n: "unat n < 2 ^ 32" by simp
  then show un: "unat (ucast n :: u32) = unat n"
    by (simp add: unsigned_ucast_eq take_bit_nat_eq_self_iff)
  show ua: "unat (P2V a) = unat PAGE_OFFSET + unat a"
    unfolding P2V_def using a by (intro unat_add_exact) (simp add: PAGE_OFFSET_def)
  have "P2V a \<noteq> 0" using ua a by (metis unat_0 add_is_0)
  moreover have "ucast n \<noteq> (0 :: u32)" using un assms by (metis unat_0 unat_eq_0 region_ok.simps)
  ultimately show "wf_block (P2V a, ucast n)"
    using a ua un by (auto simp: PAGE_OFFSET_def intro!: dvd_add)
qed

lemma extend_run_ok:
  assumes r: "fst r \<noteq> 0 \<longrightarrow> region_ok r" and d: "region_ok (PhysicalStart d, NumberOfPage d)"
  shows "fst (extend_run r d) \<noteq> 0 \<longrightarrow> region_ok (extend_run r d)"
proof -
  have grow: "region_ok (a, p + np)" if "region_ok (a, p)" "region_ok (a + p * 4096, np)" for a p np
  proof -
    from that have b: "unat a + 4096 * unat p \<le> 2 ^ 44" "unat (a + p * 4096) + 4096 * unat np \<le> 2 ^ 44"
      "4096 dvd unat a" "p \<noteq> 0" by auto
    have m: "unat (p * 4096) = unat p * 4096" using b by (subst unat_mult_exact) auto
    have e: "unat (a + p * 4096) = unat a + unat p * 4096"
      using b m by (subst unat_add_exact) auto
    have s: "unat (p + np) = unat p + unat np"
      using b e by (intro unat_add_exact) auto
    have "p + np \<noteq> 0" using s b by (metis unat_0 unat_eq_0 add_is_0)
    with b e s show ?thesis by auto
  qed
  have no: "a + np * 4096 \<noteq> a" if "region_ok (a, np)" for a np
  proof
    assume "a + np * 4096 = a"
    then have "unat (np * 4096) = 0" by simp
    moreover have "unat (np * 4096) = unat np * 4096" using that by (subst unat_mult_exact) auto
    ultimately show False using that by (simp add: unat_eq_0)
  qed
  show ?thesis
    using r d grow [of "fst r" "snd r" "NumberOfPage d"] no [OF d]
    by (cases r) (auto simp: extend_run_def Let_def simp del: region_ok.simps)
qed

lemma runs_wf:
  "map_ok ds \<Longrightarrow> (fst r \<noteq> 0 \<longrightarrow> region_ok r) \<Longrightarrow> pending_bytes r \<inter> usable_bytes ds = {} \<Longrightarrow>
   wf_blocks (runs r ds)"
proof (induction r ds rule: runs.induct)
  case (2 r d ds)
  consider (use) "usable d" | (put) "\<not> usable d" "fst r \<noteq> 0" | (skip) "\<not> usable d" "fst r = 0"
    by blast
  then show ?case
  proof cases
    case use
    have "wf_blocks (runs (extend_run r d) ds)"
      using use "2.prems" extend_run_bytes [of r d] extend_run_ok [of r d]
      by (intro "2.IH"(1)) (auto simp del: region_ok.simps)
    with use show ?thesis by simp
  next
    case put
    with "2.prems" have r: "region_ok (fst r, snd r)" by simp
    have b: "block_bytes (P2V (fst r), ucast (snd r)) \<subseteq> pending_bytes r"
      using put by (simp add: pending_bytes_def region_bytes_def bytes_at_mono unat_ucast_le)
    have "free_bytes (runs (0, snd r) ds) \<subseteq> usable_bytes ds"
      using runs_bytes [of "(0, snd r)" ds] by (simp add: pending_bytes_def)
    moreover have "wf_blocks (runs (0, snd r) ds)"
      using put "2.prems" by (intro "2.IH"(2)) (auto simp: pending_bytes_def)
    ultimately show ?thesis
      using put "2.prems"(3) b region_block(1) [OF r put(2)]
      by (auto simp del: block_bytes.simps wf_block.simps)
  next
    case skip
    with 2 show ?thesis by (auto simp: pending_bytes_def)
  qed
qed simp

end
