(* ===== verification/Page_Free.thy ===== *)
theory Page_Free
  imports Page_Alloc
begin

unbundle bit_operations_syntax

text \<open>
  \<open>free_mem\<close> of kernel/mem.c. The lemmas follow the loop for a block freed below the first
  free block (inserted or merged) and for a block that fills the hole between the first two.
\<close>

subsection \<open>\<open>free_mem\<close>\<close>

text \<open>
  The four conditional steps of one iteration, in the code's order. \<open>m\<close> is the loop variable,
  which the steps may redirect. After a merge with the next block the code sets
  \<open>m = prev->next\<close> and reads \<open>m->pages\<close>; when that pointer is \<open>NULL\<close> the read is an error.
\<close>

datatype mem_error = NullDeref

definition free_insert_first ::
  "addr \<Rightarrow> u32 \<Rightarrow> node \<Rightarrow> addr \<times> mem_state \<Rightarrow> addr \<times> mem_state" where
  "free_insert_first ptr pages prev = (\<lambda>(m, s).
     if prev = Memlist \<and> ptr < m
     then (ptr, set_pages (At ptr) pages (set_next (At ptr) m (set_next prev ptr s)))
     else (m, s))"

definition free_insert_after ::
  "addr \<Rightarrow> u32 \<Rightarrow> node \<Rightarrow> addr \<times> mem_state \<Rightarrow> addr \<times> mem_state" where
  "free_insert_after ptr pages prev = (\<lambda>(m, s). case prev of
       Memlist \<Rightarrow> (m, s)
     | At p \<Rightarrow>
         if p + bytes32 (pages_of prev s) < ptr
         then (ptr, set_pages (At ptr) pages (set_next prev ptr
                      (set_next (At ptr) (next_of prev s) s)))
         else (m, s))"

definition free_merge_next ::
  "addr \<Rightarrow> u32 \<Rightarrow> node \<Rightarrow> addr \<times> mem_state \<Rightarrow> addr \<times> mem_state" where
  "free_merge_next ptr pages prev = (\<lambda>(m, s).
     if ptr + bytes32 pages = m
     then (let s1 = set_next prev ptr s;
               s2 = set_next (At ptr) (next_of (At m) s1) s1;
               s3 = set_pages (At ptr) (pages + pages_of (At m) s2) s2
           in (next_of prev s3, s3))
     else (m, s))"

definition free_merge_prev ::
  "addr \<Rightarrow> u32 \<Rightarrow> addr \<times> mem_state \<Rightarrow> mem_error + addr \<times> mem_state" where
  "free_merge_prev ptr pages = (\<lambda>(m, s).
     if m = 0 then Inl NullDeref
     else if m + bytes32 (pages_of (At m) s) = ptr
     then Inr (m, set_pages (At m) (pages_of (At m) s + pages) s)
     else Inr (m, s))"

definition free_body ::
  "addr \<Rightarrow> u32 \<Rightarrow> node \<Rightarrow> addr \<Rightarrow> mem_state \<Rightarrow> mem_error + addr \<times> mem_state" where
  "free_body ptr pages prev m s =
     free_merge_prev ptr pages
       (free_merge_next ptr pages prev
         (free_insert_after ptr pages prev
           (free_insert_first ptr pages prev (m, s))))"

partial_function (option) free_loop ::
  "addr \<Rightarrow> u32 \<Rightarrow> node \<Rightarrow> addr \<Rightarrow> mem_state \<Rightarrow> (mem_error + mem_state) option" where
  "free_loop ptr pages prev m s =
     (if m = 0 then Some (Inr s)
      else case free_body ptr pages prev m s of
             Inl e \<Rightarrow> Some (Inl e)
           | Inr r \<Rightarrow> free_loop ptr pages (At (fst r)) (next_of (At (fst r)) (snd r)) (snd r))"

definition free_mem :: "addr \<Rightarrow> u32 \<Rightarrow> mem_state \<Rightarrow> (mem_error + mem_state) option" where
  "free_mem ptr pages s = free_loop ptr pages Memlist (ml_next s) s"

subsection \<open>\<open>free_mem\<close> below, between and after the free blocks\<close>

text \<open>Writing a whole node, next field first.\<close>

definition put_node :: "addr \<Rightarrow> addr \<Rightarrow> u32 \<Rightarrow> mem_state \<Rightarrow> mem_state" where
  "put_node a nx n s = set_pages (At a) n (set_next (At a) nx s)"

lemma put_node_facts:
  assumes "wf_block (a, k)"
  shows "read64 (heap (put_node a nx n s)) a = nx"
    "read32 (heap (put_node a nx n s)) (a + 8) = n"
    "\<And>x. x \<notin> bytes_at a 12 \<Longrightarrow> heap (put_node a nx n s) x = heap s x"
    "ml_next (put_node a nx n s) = ml_next s"
proof -
  note hdr = hdr_fields [of a] hdr_fields_disjoint [OF assms]
  show "read64 (heap (put_node a nx n s)) a = nx" "read32 (heap (put_node a nx n s)) (a + 8) = n"
    using hdr by (simp_all add: put_node_def read64_write32_other)
  show "heap (put_node a nx n s) x = heap s x" if "x \<notin> bytes_at a 12" for x
  proof -
    from that hdr have "x \<notin> bytes_at a 8" "x \<notin> bytes_at (a + 8) 4" by blast+
    then show ?thesis by (simp add: put_node_def write32_other write64_other)
  qed
  show "ml_next (put_node a nx n s) = ml_next s" by (simp add: put_node_def)
qed

lemma put_node_merge:
  "set_pages (At a) n (set_next (At a) nx (set_next (At a) z s)) = put_node a nx n (set_next (At a) z s)"
  by (simp add: put_node_def)

lemma bytes32_le: "unat (bytes32 n) \<le> 4096 * unat n"
  by (simp add: bytes32_def unat_ucast_up unat_word_ariths)

lemma block_end:
  assumes "wf_block (a, n)"
  shows "a \<le> a + bytes32 n"
    "unat n < 2 ^ 20 \<Longrightarrow> unat (a + bytes32 n) = unat a + 4096 * unat n"
proof -
  have u: "unat (a + bytes32 n) = unat a + unat (bytes32 n)"
    using assms bytes32_le [of n] by (intro unat_add_exact) simp
  then show "a \<le> a + bytes32 n" by (simp add: word_le_nat_alt)
  show "unat n < 2 ^ 20 \<Longrightarrow> unat (a + bytes32 n) = unat a + 4096 * unat n"
    using u by (simp add: bytes32_exact)
qed

text \<open>Blocks in increasing address order, apart from each other, start after the previous end.\<close>

lemma block_after:
  assumes "wf_block (a, n)" and "wf_block (c, k)" and "block_bytes (a, n) \<inter> block_bytes (c, k) = {}"
    and "a < c"
  shows "unat a + 4096 * unat n \<le> unat c"
proof (rule ccontr)
  assume "\<not> ?thesis"
  with assms(1,2,4) have "c \<in> block_bytes (a, n)"
    by (auto simp: in_bytes_at word_less_nat_alt)
  moreover have "c \<in> block_bytes (c, k)"
    using assms(2) unat_pos [of k] by (auto simp: in_bytes_at)
  ultimately show False using assms(3) by blast
qed

lemma free_loop_NULL [simp]: "free_loop ptr p prev 0 s = Some (Inr s)"
  by (simp add: free_loop.simps)

text \<open>Past the insertion point an iteration changes nothing.\<close>

lemma free_walk:
  assumes "flist (heap s) m bs" and "wf_blocks bs" and "\<forall>b \<in> set bs. ptr < fst b"
    and "\<forall>b \<in> set bs. ptr + bytes32 p \<noteq> fst b" and "ptr \<le> q + bytes32 (pages_of (At q) s)"
  shows "free_loop ptr p (At q) m s = Some (Inr s)"
  using assms
proof (induction bs arbitrary: m q)
  case (Cons b bs)
  obtain a n where b: "b = (a, n)" by force
  with Cons.prems have m: "m = a" "a \<noteq> 0" "read32 (heap s) (a + 8) = n" "wf_block (a, n)"
    "ptr < a" "ptr + bytes32 p \<noteq> a" by auto
  have end1: "ptr < a + bytes32 n" using m block_end(1) [of a n] by simp
  have body: "free_body ptr p (At q) m s = Inr (m, s)"
    using m Cons.prems(5) end1
    by (auto simp: free_body_def free_insert_first_def free_insert_after_def free_merge_next_def
                   free_merge_prev_def)
  have "free_loop ptr p (At a) (read64 (heap s) a) s = Some (Inr s)"
    using Cons.prems b m end1 by (intro Cons.IH) auto
  with body m show ?case by (simp add: free_loop.simps [of ptr p "At q" a s])
qed simp

lemma flist_nonzero: "flist h a bs \<Longrightarrow> a = 0 \<longleftrightarrow> bs = []"
  by (cases bs) auto

lemma flist_put_node:
  assumes "flist (heap s) nx bs" and "wf_blocks bs" and "wf_block (a, k)"
    and "bytes_at a 12 \<inter> free_bytes bs = {}"
  shows "flist (heap (put_node a nx n s)) a ((a, n) # bs)"
proof -
  have "flist (heap (put_node a nx n s)) nx bs"
    using assms(1,2)
    by (rule flist_cong) (rule put_node_facts(3) [OF assms(3)], use assms(4) in auto)
  then show ?thesis using put_node_facts(1,2) [OF assms(3)] assms(3) by simp
qed

lemma block_mem: "wf_block (a, n) \<Longrightarrow> a \<in> block_bytes (a, n)"
  using unat_pos [of n] by (auto simp: in_bytes_at)

lemma above_not_adjacent:
  assumes "wf_block (ptr, p)" and "unat p < 2 ^ 20" and "wf_blocks ((a, n) # bs)"
    and "block_bytes (ptr, p) \<inter> free_bytes ((a, n) # bs) = {}"
    and "ptr < a" and "\<forall>b \<in> set bs. a < fst b"
  shows "\<forall>b \<in> set bs. ptr < fst b" "\<forall>b \<in> set bs. ptr + bytes32 p \<noteq> fst b"
    "unat ptr + 4096 * unat p \<le> unat a"
proof -
  show le: "unat ptr + 4096 * unat p \<le> unat a"
    using assms by (intro block_after [of ptr p a n]) auto
  show "\<forall>b \<in> set bs. ptr < fst b" using assms(5,6) by auto
  show "\<forall>b \<in> set bs. ptr + bytes32 p \<noteq> fst b"
    using le assms(6) block_end(2) [OF assms(1,2)] by (auto simp: word_less_nat_alt)
qed

text \<open>The first two iterations when the freed block lies below the first free block.\<close>

lemma free_front_first:
  assumes "ml_next s = a" and "a \<noteq> 0" and "ptr < a" and "wf_block (ptr, p)" and "unat p < 2 ^ 20"
  defines "s1 \<equiv> put_node ptr a p (s\<lparr>ml_next := ptr\<rparr>)"
  shows "free_mem ptr p s = free_loop ptr p (At ptr) a s1"
proof -
  note pn = put_node_facts [OF assms(4), where nx = a and n = p and s = "s\<lparr>ml_next := ptr\<rparr>", folded s1_def]
  have "bytes32 p \<noteq> 0" using assms(4) bytes32_exact [OF assms(5)] unat_pos [of p]
    by (metis unat_0 mult_is_0 not_one_le_zero wf_block.simps zero_neq_numeral)
  then have "free_body ptr p Memlist a s = Inr (ptr, s1)"
    using assms(1-4) pn
    by (auto simp: free_body_def free_insert_first_def free_insert_after_def free_merge_next_def
                   free_merge_prev_def s1_def put_node_def)
  then show ?thesis
    using assms(1,2) pn by (simp add: free_mem_def free_loop.simps [of ptr p Memlist a s])
qed

lemma free_front_insert:
  assumes inv: "alloc_inv s ((a, n) # bs)" and blk: "wf_block (ptr, p)" "unat p < 2 ^ 20"
    and dj: "block_bytes (ptr, p) \<inter> free_bytes ((a, n) # bs) = {}"
    and lt: "ptr < a" "\<forall>b \<in> set bs. a < fst b" and na: "ptr + bytes32 p \<noteq> a"
  shows "\<exists>s'. free_mem ptr p s = Some (Inr s') \<and> alloc_inv s' ((ptr, p) # (a, n) # bs)"
proof -
  let ?s = "s\<lparr>ml_next := ptr\<rparr>"
  define s1 where "s1 = put_node ptr a p ?s"
  from inv have fl: "flist (heap ?s) a ((a, n) # bs)" and wfs: "wf_blocks ((a, n) # bs)"
    and nx: "ml_next s = a" "a \<noteq> 0" by (auto simp: alloc_inv_def)
  have hdr: "bytes_at ptr 12 \<inter> free_bytes ((a, n) # bs) = {}"
    using hdr_in_block [OF blk(1)] dj by blast
  have fl1: "flist (heap s1) ptr ((ptr, p) # (a, n) # bs)"
    unfolding s1_def by (rule flist_put_node [OF fl wfs blk(1) hdr])
  note ab = above_not_adjacent [OF blk wfs dj lt]
  have "free_loop ptr p (At ptr) a s1 = Some (Inr s1)"
    using fl1 wfs ab lt na block_end(1) [OF blk(1)]
    by (intro free_walk [of s1 a "(a, n) # bs"]) auto
  then have "free_mem ptr p s = Some (Inr s1)"
    using free_front_first [OF nx lt(1) blk] by (simp add: s1_def)
  moreover have "ml_next s1 = ptr" using put_node_facts(4) [OF blk(1)] by (simp add: s1_def)
  ultimately show ?thesis
    using fl1 blk wfs dj by (auto simp: alloc_inv_def simp del: block_bytes.simps wf_block.simps)
qed

lemma free_front_merge_body:
  assumes fl: "flist (heap s) ptr ((ptr, p) # (a, n) # bs)" and adj: "ptr + bytes32 p = a"
    and blk: "wf_block (ptr, p)" and wfs: "wf_blocks ((a, n) # bs)"
    and dj: "block_bytes (ptr, p) \<inter> free_bytes ((a, n) # bs) = {}"
  defines "nx \<equiv> read64 (heap s) a"
  defines "t \<equiv> put_node ptr nx (p + n) (set_next (At ptr) ptr s)"
  shows "free_merge_next ptr p (At ptr)
           (free_insert_after ptr p (At ptr) (free_insert_first ptr p (At ptr) (a, s))) = (nx, t)"
    "flist (heap t) ptr ((ptr, p + n) # bs)"
proof -
  from wfs have wf: "wf_block (a, n)" by simp
  have n: "read32 (heap s) (a + 8) = n" using fl by auto
  have hdr: "bytes_at ptr 12 \<inter> free_bytes ((a, n) # bs) = {}"
    using hdr_in_block [OF blk] dj by blast
  have ha: "bytes_at a 12 \<subseteq> free_bytes ((a, n) # bs)" using hdr_in_block [OF wf] by auto
  have out: "heap (set_next (At ptr) v u) x = heap u x" if "x \<in> free_bytes ((a, n) # bs)" for v u x
    using that hdr hdr_fields(1) [of ptr] by (intro set_next_heap) auto
  have ra: "read64 (heap (set_next (At ptr) v u)) a = read64 (heap u) a"
    "read32 (heap (set_next (At ptr) v u)) (a + 8) = read32 (heap u) (a + 8)" for v u
    by (rule read64_cong, rule out, use hdr_fields [of a] ha in blast)
      (rule read32_cong, rule out, use hdr_fields [of a] ha in blast)
  have pt: "read32 (heap s) (ptr + 8) = p" using fl by simp
  have na: "\<not> a < ptr" using block_end(1) [OF blk] adj by simp
  show "free_merge_next ptr p (At ptr)
           (free_insert_after ptr p (At ptr) (free_insert_first ptr p (At ptr) (a, s))) = (nx, t)"
    using put_node_facts(1) [OF blk, where nx = nx and n = "p + n" and s = "set_next (At ptr) ptr s", folded t_def]
      adj na pt n ra
    by (simp add: free_merge_next_def free_insert_after_def free_insert_first_def Let_def
                  t_def put_node_def nx_def [symmetric] del: set_next.simps set_pages.simps)
  have tl: "flist (heap s) nx bs" and wfb: "wf_blocks bs" using fl wfs by (auto simp: nx_def)
  from tl wfb have "flist (heap (set_next (At ptr) ptr s)) nx bs"
    by (rule flist_cong) (rule out, simp)
  then show "flist (heap t) ptr ((ptr, p + n) # bs)"
    unfolding t_def using wfb blk hdr by (intro flist_put_node) auto
qed

lemma wf_block_join:
  assumes "wf_block (ptr, p)" and "wf_block (a, n)" and "unat p < 2 ^ 20"
    and "unat p + unat n < 2 ^ 32" and "ptr + bytes32 p = a"
  shows "wf_block (ptr, p + n)" "block_bytes (ptr, p + n) = block_bytes (ptr, p) \<union> block_bytes (a, n)"
proof -
  have s: "unat (p + n) = unat p + unat n" using assms(4) by (intro unat_add_exact) simp
  have e: "unat a = unat ptr + 4096 * unat p"
    using block_end(2) [OF assms(1,3)] assms(5) by simp
  have "p + n \<noteq> 0" using s assms(1) by (metis unat_0 unat_eq_0 add_is_0 wf_block.simps)
  with s e assms(1,2) show "wf_block (ptr, p + n)" by auto
  with s e assms(1,2) show "block_bytes (ptr, p + n) = block_bytes (ptr, p) \<union> block_bytes (a, n)"
    by (auto simp: in_bytes_at)
qed

lemma free_front_merge:
  assumes inv: "alloc_inv s ((a, n) # bs)" and blk: "wf_block (ptr, p)" "unat p < 2 ^ 20"
    and dj: "block_bytes (ptr, p) \<inter> free_bytes ((a, n) # bs) = {}"
    and lt: "\<forall>b \<in> set bs. a < fst b" and adj: "ptr + bytes32 p = a"
    and sz: "unat p + unat n < 2 ^ 32"
  shows "if bs = [] then free_mem ptr p s = Some (Inl NullDeref)
         else \<exists>s'. free_mem ptr p s = Some (Inr s') \<and> alloc_inv s' ((ptr, p + n) # bs)"
proof -
  let ?s = "s\<lparr>ml_next := ptr\<rparr>"
  define s1 where "s1 = put_node ptr a p ?s"
  define nx where "nx = read64 (heap s1) a"
  define t where "t = put_node ptr nx (p + n) (set_next (At ptr) ptr s1)"
  from inv have fl: "flist (heap ?s) a ((a, n) # bs)" and wfs: "wf_blocks ((a, n) # bs)"
    and nm: "ml_next s = a" "a \<noteq> 0" by (auto simp: alloc_inv_def)
  have hdr: "bytes_at ptr 12 \<inter> free_bytes ((a, n) # bs) = {}"
    using hdr_in_block [OF blk(1)] dj by blast
  have fl1: "flist (heap s1) ptr ((ptr, p) # (a, n) # bs)"
    unfolding s1_def by (rule flist_put_node [OF fl wfs blk(1) hdr])
  have "unat ptr < unat a"
    using block_end(2) [OF blk] adj blk(1) unat_pos [of p] by simp
  then have pa: "ptr < a" by (simp add: word_less_nat_alt)
  note body = free_front_merge_body [OF fl1 adj blk(1) wfs dj, folded nx_def, folded t_def]
  note ab = above_not_adjacent [OF blk wfs dj pa lt]
  have first: "free_mem ptr p s = free_loop ptr p (At ptr) a s1"
    using free_front_first [OF nm pa blk] by (simp add: s1_def)
  have nxl: "flist (heap s1) nx bs" using fl1 by (auto simp: nx_def)
  have mt: "ml_next t = ptr"
    using put_node_facts(4) [OF blk(1)] by (simp add: t_def s1_def)
  show ?thesis
  proof (cases bs)
    case Nil
    with nxl have "nx = 0" by simp
    with body(1) nm have "free_body ptr p (At ptr) a s1 = Inl NullDeref"
      by (simp add: free_body_def free_merge_prev_def)
    with nm Nil first show ?thesis by (simp add: free_loop.simps [of ptr p "At ptr" a s1])
  next
    case (Cons b cs)
    obtain c k where b: "b = (c, k)" by force
    with Cons nxl have c: "nx = c" "c \<noteq> 0" by auto
    from Cons b wfs have wc: "wf_block (c, k)" "wf_blocks cs" by auto
    from body(2) Cons b c mt have flt: "flist (heap t) c ((c, k) # cs)" "pages_of (At c) t = k" by auto
    from ab Cons b have cp: "ptr < c" "\<forall>b \<in> set cs. ptr < fst b" "\<forall>b \<in> set cs. ptr + bytes32 p \<noteq> fst b"
      by auto
    have ce: "ptr < c + bytes32 k" using block_end(1) [OF wc(1)] cp(1) by simp
    have bd: "free_body ptr p (At ptr) a s1 = Inr (c, t)"
      using body(1) c flt ce by (auto simp: free_body_def free_merge_prev_def)
    have "free_loop ptr p (At c) (read64 (heap t) c) t = Some (Inr t)"
      using flt wc cp ce by (intro free_walk [of t _ cs]) auto
    with bd nm first have "free_mem ptr p s = Some (Inr t)"
      by (simp add: free_loop.simps [of ptr p "At ptr" a s1])
    moreover have "alloc_inv t ((ptr, p + n) # bs)"
      using body(2) mt wfs dj wf_block_join [OF blk(1) _ blk(2) sz adj]
      by (auto simp: alloc_inv_def simp del: block_bytes.simps wf_block.simps)
    ultimately show ?thesis using Cons by auto
  qed
qed

text \<open>
  A block that fills the hole between the first two free blocks: the code adds its pages to
  the block before it, and then links it a second time while merging it with the block after.
\<close>

lemma free_hole:
  assumes inv: "alloc_inv s ((a, n) # (c, k) # bs)" and blk: "wf_block (ptr, p)"
    and dj: "block_bytes (ptr, p) \<inter> free_bytes ((a, n) # (c, k) # bs) = {}"
    and adj: "a + bytes32 n = ptr" "ptr + bytes32 p = c"
    and sz: "unat n + unat p < 2 ^ 20" "unat p + unat k < 2 ^ 20"
    and lt: "\<forall>b \<in> set bs. c < fst b"
  shows "\<exists>s'. free_mem ptr p s = Some (Inr s') \<and>
              flist (heap s') (ml_next s') ((a, n + p) # (ptr, p + k) # bs)"
proof -
  from inv have nm: "ml_next s = a" "a \<noteq> 0" and n: "read32 (heap s) (a + 8) = n"
    and c: "read64 (heap s) a = c" "c \<noteq> 0" and k: "read32 (heap s) (c + 8) = k"
    and tl: "flist (heap s) (read64 (heap s) c) bs"
    and wf: "wf_block (a, n)" "wf_block (c, k)" and wfs: "wf_blocks bs"
    and djs: "block_bytes (a, n) \<inter> block_bytes (c, k) = {}"
      "block_bytes (a, n) \<inter> free_bytes bs = {}" "block_bytes (c, k) \<inter> free_bytes bs = {}"
    by (auto simp: alloc_inv_def)
  note ha = hdr_in_block [OF wf(1)] hdr_fields [of a] hdr_fields_disjoint [OF wf(1)]
  note hc = hdr_in_block [OF wf(2)] hdr_fields [of c]
  note hp = hdr_in_block [OF blk] hdr_fields [of ptr] hdr_fields_disjoint [OF blk]
  have dac: "bytes_at a 12 \<inter> bytes_at c 12 = {}" "bytes_at a 12 \<inter> bytes_at ptr 12 = {}"
    "bytes_at ptr 12 \<inter> bytes_at c 12 = {}"
    using ha(1) hc(1) hp(1) djs dj by (auto simp del: block_bytes.simps)
  have up: "unat ptr = unat a + 4096 * unat n" "unat c = unat ptr + 4096 * unat p"
    using block_end(2) [OF wf(1)] block_end(2) [OF blk] adj sz by auto
  have ord: "a < ptr" "ptr < c"
    using up blk wf unat_pos [of n] unat_pos [of p] by (auto simp: word_less_nat_alt)
  define s1 where "s1 = set_pages (At a) (n + p) s"
  have o1: "heap s1 x = heap s x" if "x \<notin> bytes_at (a + 8) 4" for x
    using that by (simp add: s1_def write32_other)
  have r1: "read32 (heap s1) (a + 8) = n + p" "ml_next s1 = a" using nm by (simp_all add: s1_def)
  have c1: "read64 (heap s1) a = c"
    using ha c by (subst read64_cong [of a "heap s1" "heap s"]) (auto intro!: o1)
  have it1: "free_mem ptr p s = free_loop ptr p (At a) c s1"
  proof -
    have "free_body ptr p Memlist a s = Inr (a, s1)"
      using nm n adj ord
      by (auto simp: free_body_def free_insert_first_def free_insert_after_def free_merge_next_def
                     free_merge_prev_def s1_def)
    with nm c1 show ?thesis by (simp add: free_mem_def free_loop.simps [of ptr p Memlist a s])
  qed
  define t1 where "t1 = set_next (At a) ptr s1"
  define nx where "nx = read64 (heap t1) c"
  define k' where "k' = read32 (heap (set_next (At ptr) nx t1)) (c + 8)"
  define t where "t = put_node ptr nx (p + k') t1"
  have ot1: "heap t1 x = heap s x" if "x \<notin> bytes_at a 12" for x
  proof -
    from that ha have "x \<notin> bytes_at a 8" "x \<notin> bytes_at (a + 8) 4" by blast+
    then show ?thesis by (simp add: t1_def s1_def write64_other write32_other)
  qed
  have nx: "nx = read64 (heap s) c"
    unfolding nx_def by (rule read64_cong, rule ot1, use hc dac in blast)
  have k': "k' = k"
  proof -
    have "heap (set_next (At ptr) nx t1) x = heap s x" if "x \<in> bytes_at (c + 8) 4" for x
    proof -
      from that hc dac hp have "x \<notin> bytes_at ptr 8" "x \<notin> bytes_at a 12" by blast+
      then show ?thesis using ot1 by (simp add: write64_other)
    qed
    then show ?thesis unfolding k'_def k [symmetric] by (intro read32_cong)
  qed
  note pn = put_node_facts [OF blk, where nx = nx and n = "p + k'" and s = t1, folded t_def]
  have na: "read64 (heap t) a = ptr"
  proof -
    have "read64 (heap t) a = read64 (heap t1) a"
      by (rule read64_cong, rule pn(3), use ha dac in blast)
    then show ?thesis by (simp add: t1_def)
  qed
  have pa: "read32 (heap t) (a + 8) = n + p"
  proof -
    have "read32 (heap t) (a + 8) = read32 (heap t1) (a + 8)"
      by (rule read32_cong, rule pn(3), use ha dac in blast)
    also have "\<dots> = read32 (heap s1) (a + 8)"
      using ha by (simp add: t1_def read32_write64_other Int_commute)
    finally show ?thesis using r1 by simp
  qed
  have s: "unat (n + p) = unat n + unat p" "unat (p + k) = unat p + unat k"
    using sz by (subst unat_add_exact; simp)+
  have e1: "\<not> a + bytes32 (n + p) < ptr"
  proof -
    have "unat (bytes32 (n + p)) = 4096 * (unat n + unat p)"
      using s sz by (subst bytes32_exact) auto
    then have "unat (a + bytes32 (n + p)) = unat a + 4096 * (unat n + unat p)"
      using up unat_lt_pow [of c] by (subst unat_add_exact) auto
    with up show ?thesis by (simp add: word_less_nat_alt)
  qed
  have e2: "ptr + bytes32 (p + k) \<noteq> ptr"
    using s sz bytes32_exact [of "p + k"] blk unat_pos [of p] by auto
  have m2: "free_insert_after ptr p (At a) (free_insert_first ptr p (At a) (c, s1)) = (c, s1)"
    using r1 e1 by (simp add: free_insert_after_def free_insert_first_def)
  have m3: "free_merge_next ptr p (At a) (c, s1) = (ptr, t)"
  proof -
    have "free_merge_next ptr p (At a) (c, s1) = (next_of (At a) t, t)"
      using adj(2) unfolding t_def put_node_def k'_def nx_def t1_def
      by (simp add: free_merge_next_def Let_def del: set_next.simps set_pages.simps)
    with na show ?thesis by simp
  qed
  have m4: "free_merge_prev ptr p (ptr, t) = Inr (ptr, t)"
    using pn(2) k' e2 blk by (simp add: free_merge_prev_def)
  have it2: "free_body ptr p (At a) c s1 = Inr (ptr, t)"
    by (simp add: free_body_def m2 m3 m4)
  have tlt: "flist (heap t) nx bs"
    using tl [folded nx] wfs
  proof (rule flist_cong)
    fix x assume "x \<in> free_bytes bs"
    with djs dj ha hp have "x \<notin> bytes_at a 12" "x \<notin> bytes_at ptr 12" by (auto simp del: block_bytes.simps)
    then show "heap t x = heap s x" using pn(3) ot1 by simp
  qed
  have "wf_block (ptr, p + k)" using sz adj by (intro wf_block_join(1) [OF blk wf(2)]) auto
  then have "ptr \<le> ptr + bytes32 (p + k)" by (rule block_end(1))
  then have "free_loop ptr p (At ptr) nx t = Some (Inr t)"
    using tlt wfs lt ord adj pn(2) k' by (intro free_walk [of t nx bs]) auto
  with it1 it2 c pn have "free_mem ptr p s = Some (Inr t)"
    by (simp add: free_loop.simps [of ptr p "At a" c s1])
  moreover have "flist (heap t) (ml_next t) ((a, n + p) # (ptr, p + k) # bs)"
    using pn k' na pa tlt nm blk r1 by (auto simp: t1_def)
  ultimately show ?thesis by blast
qed

end
