(* ===== verification/Mem_Props.thy ===== *)
theory Mem_Props
  imports Mem_Init Page_Free
begin

text \<open>
  The properties of kernel/mem.c: what \<open>alloc_mem\<close>, \<open>free_mem\<close> and \<open>init_mem\<close> do to the list of
  free blocks, each with a concrete memory on which it applies.
\<close>

subsection \<open>Concrete memories\<close>

text \<open>A memory whose free list is a given list of blocks.\<close>

fun lay :: "block list \<Rightarrow> mem_state" where
  "lay [] = \<lparr>heap = \<lambda>_. 0, ml_next = 0, ml_pages = 0\<rparr>"
| "lay ((a, n) # bs) = (put_node a (ml_next (lay bs)) n (lay bs))\<lparr>ml_next := a\<rparr>"

lemma lay_inv: "wf_blocks bs \<Longrightarrow> alloc_inv (lay bs) bs"
proof (induction bs)
  case Nil
  then show ?case by (simp add: alloc_inv_def)
next
  case (Cons b bs)
  obtain a n where b: "b = (a, n)" by force
  from Cons b have i: "flist (heap (lay bs)) (ml_next (lay bs)) bs" "wf_blocks bs" "wf_block (a, n)"
    "block_bytes (a, n) \<inter> free_bytes bs = {}" by (auto simp: alloc_inv_def)
  have "bytes_at a 12 \<inter> free_bytes bs = {}" using hdr_in_block [OF i(3)] i(4) by blast
  from flist_put_node [OF i(1-3) this] Cons.prems b show ?case
    by (simp add: alloc_inv_def)
qed

lemma block_disjoint:
  "wf_block (a, n) \<Longrightarrow> wf_block (c, k) \<Longrightarrow> unat a + 4096 * unat n \<le> unat c \<Longrightarrow>
   block_bytes (a, n) \<inter> block_bytes (c, k) = {}"
  unfolding block_bytes.simps by (rule bytes_at_disjoint) auto

lemma lay_heap: "wf_blocks bs \<Longrightarrow> x \<notin> free_bytes bs \<Longrightarrow> heap (lay bs) x = 0"
proof (induction bs)
  case (Cons b bs)
  obtain a n where b: "b = (a, n)" by force
  with Cons.prems have wf: "wf_block (a, n)" and "x \<notin> bytes_at a 12"
    using hdr_in_block [of a n] by auto
  with Cons b put_node_facts(3) [OF wf] show ?case by simp
qed simp

definition demo_blocks :: "block list" where
  "demo_blocks = [(0xffff806000100000, 8), (0xffff806000200000, 4)]"

lemma demo_blocks_wf: "wf_blocks demo_blocks"
  using block_disjoint [of "0xffff806000100000" 8 "0xffff806000200000" 4]
  by (simp add: demo_blocks_def del: block_bytes.simps)

lemma demo_owns: "owns (lay demo_blocks) (free_bytes demo_blocks)"
  using lay_inv [OF demo_blocks_wf] by (auto simp: owns_def)

lemma demo_free_high: "\<forall>x \<in> free_bytes demo_blocks. PAGE_OFFSET \<le> x"
  by (auto simp: demo_blocks_def in_bytes_at PAGE_OFFSET_def word_le_nat_alt)

subsection \<open>\<open>alloc_mem\<close>\<close>

text \<open>
  C1: on a well-formed free list \<open>alloc_mem\<close> is first fit. It returns, with \<open>NULL\<close> and an
  unchanged state exactly when no block has enough pages; otherwise the list in memory becomes
  the first-fit list, the block handed out is page aligned and apart from what stays free, the
  two make up what was free before, the page count goes down by the request, and no byte outside
  the free memory changes.
\<close>

theorem alloc_mem_first_fit:
  assumes "alloc_inv s bs" and "p \<noteq> 0" and "unat p < 2 ^ 20"
  shows "case abs_alloc p bs of
      None \<Rightarrow> alloc_mem p s = Some (0, s) \<and> (\<forall>(a, n) \<in> set bs. n < p)
    | Some (r, bs') \<Rightarrow> \<exists>s'. alloc_mem p s = Some (r, s') \<and> alloc_inv s' bs' \<and>
        wf_block (r, p) \<and> block_bytes (r, p) \<inter> free_bytes bs' = {} \<and>
        block_bytes (r, p) \<union> free_bytes bs' = free_bytes bs \<and>
        unat p + total_pages bs' = total_pages bs \<and>
        (\<forall>x. x \<notin> free_bytes bs' \<longrightarrow> heap s' x = heap s x)"
proof (cases "abs_alloc p bs")
  case None
  with alloc_mem_None [OF assms None] abs_alloc_None [of p bs] show ?thesis by simp
next
  case (Some x)
  then obtain r bs' where al: "abs_alloc p bs = Some (r, bs')" by (cases x) auto
  have "wf_blocks bs" using assms(1) by (simp add: alloc_inv_def)
  with al alloc_mem_Some [OF assms al] abs_alloc_Some [OF al _ assms(2,3)] show ?thesis by auto
qed

theorem alloc_mem_first_fit_witness:
  "\<exists>s'. alloc_mem 3 (lay demo_blocks) = Some (0xffff806000100000, s') \<and>
     alloc_inv s' [(0xffff806000103000, 5), (0xffff806000200000, 4)]"
  using alloc_mem_first_fit [OF lay_inv [OF demo_blocks_wf], of 3]
  by (auto simp: demo_blocks_def bytes32_def)

text \<open>
  a request whose size in bytes is 0 in 32-bit arithmetic (for instance for no page at all)
  hands out the address of the first free block although the block stays in the list: the next
  allocation can return the same address.
\<close>

theorem alloc_mem_aliases:
  assumes "alloc_inv s ((a, n) # bs)" and "bytes32 p = 0" and "p < n"
  shows "\<exists>s1. alloc_mem p s = Some (a, s1) \<and> alloc_inv s1 ((a, n - p) # bs) \<and>
    (unat (n - p) < 2 ^ 20 \<longrightarrow> (\<exists>s2. alloc_mem (n - p) s1 = Some (a, s2)))"
proof -
  obtain s1 where s1: "alloc_mem p s = Some (a, s1)" "alloc_inv s1 ((a, n - p) # bs)"
    using alloc_mem_zero_bytes [OF assms] by blast
  moreover have "n - p \<noteq> 0" using assms(3) by auto
  moreover from this alloc_mem_Some [OF s1(2), of "n - p" a bs]
  have "unat (n - p) < 2 ^ 20 \<longrightarrow> (\<exists>s2. alloc_mem (n - p) s1 = Some (a, s2))" by auto
  ultimately show ?thesis by blast
qed

theorem alloc_mem_aliases_witness:
  "\<exists>s1 s2. alloc_mem 0 (lay demo_blocks) = Some (0xffff806000100000, s1) \<and>
     alloc_mem 8 s1 = Some (0xffff806000100000, s2)"
  using alloc_mem_aliases [of "lay demo_blocks" "0xffff806000100000" 8 "[(0xffff806000200000, 4)]" 0]
    lay_inv [OF demo_blocks_wf]
  by (auto simp: demo_blocks_def bytes32_def)

subsection \<open>\<open>free_mem\<close>\<close>

text \<open>
  C18: giving back the pages just split off the first block restores the list, provided a second
  block follows.
\<close>

theorem alloc_free_roundtrip:
  assumes "alloc_inv s ((a, n) # b # bs)" and "p \<noteq> 0" "unat p < 2 ^ 20" "p < n"
    and "\<forall>c \<in> set (b # bs). a < fst c"
  shows "\<exists>s1 s2. alloc_mem p s = Some (a, s1) \<and> free_mem a p s1 = Some (Inr s2) \<and>
    alloc_inv s2 ((a, n) # b # bs)"
proof -
  have wfs: "wf_blocks ((a, n) # b # bs)" using assms(1) by (simp add: alloc_inv_def)
  have al: "abs_alloc p ((a, n) # b # bs) = Some (a, (a + bytes32 p, n - p) # b # bs)"
    using assms(4) by auto
  obtain s1 where s1: "alloc_mem p s = Some (a, s1)" "alloc_inv s1 ((a + bytes32 p, n - p) # b # bs)"
    using alloc_mem_Some [OF assms(1-3) al] by blast
  note f = abs_alloc_Some [OF al wfs assms(2,3)]
  have u: "unat p + unat (n - p) < 2 ^ 32"
    using unat_sub_exact [OF less_imp_le [OF assms(4)]] assms(4) unat_u32_lt [of n]
    by (simp add: word_less_nat_alt)
  have lt: "\<forall>c \<in> set (b # bs). a + bytes32 p < fst c"
  proof
    fix c assume c: "c \<in> set (b # bs)"
    obtain d k where d: "c = (d, k)" by force
    from wfs c d have "wf_block (d, k)" "block_bytes (a, n) \<inter> block_bytes (d, k) = {}"
      by (auto simp: wf_blocks_def simp del: wf_block.simps block_bytes.simps)
    moreover have "a < d" using assms(5) c d by auto
    ultimately have "unat a + 4096 * unat n \<le> unat d" using wfs by (intro block_after) auto
    moreover have "unat (a + bytes32 p) = unat a + 4096 * unat p"
      using block_end(2) f assms(3) by blast
    ultimately show "a + bytes32 p < fst c"
      using assms(4) d by (simp add: word_less_nat_alt)
  qed
  have "block_bytes (a, p) \<inter> free_bytes ((a + bytes32 p, n - p) # b # bs) = {}" "wf_block (a, p)"
    using f by blast+
  from free_front_merge [OF s1(2) this(2) assms(3) this(1) lt refl u] s1 show ?thesis by auto
qed

theorem alloc_free_roundtrip_witness:
  "\<exists>s1 s2. alloc_mem 3 (lay demo_blocks) = Some (0xffff806000100000, s1) \<and>
     free_mem 0xffff806000100000 3 s1 = Some (Inr s2) \<and> alloc_inv s2 demo_blocks"
  using alloc_free_roundtrip [of "lay demo_blocks" "0xffff806000100000" 8 "(0xffff806000200000, 4)" "[]" 3]
    lay_inv [OF demo_blocks_wf]
  by (auto simp: demo_blocks_def)

text \<open>
  C28: the same sequence on a list of one block dereferences \<open>NULL\<close>: after the merge the loop
  variable is the (absent) successor, whose page count is read.
\<close>

theorem free_mem_last_block_null:
  assumes "alloc_inv s [(a, n)]" and "p \<noteq> 0" "unat p < 2 ^ 20" "p < n"
  shows "\<exists>s1. alloc_mem p s = Some (a, s1) \<and> free_mem a p s1 = Some (Inl NullDeref)"
proof -
  have wfs: "wf_blocks [(a, n)]" using assms(1) by (simp add: alloc_inv_def)
  have al: "abs_alloc p [(a, n)] = Some (a, [(a + bytes32 p, n - p)])"
    using assms(4) by auto
  obtain s1 where s1: "alloc_mem p s = Some (a, s1)" "alloc_inv s1 [(a + bytes32 p, n - p)]"
    using alloc_mem_Some [OF assms(1-3) al] by blast
  note f = abs_alloc_Some [OF al wfs assms(2,3)]
  have u: "unat p + unat (n - p) < 2 ^ 32"
    using unat_sub_exact [OF less_imp_le [OF assms(4)]] assms(4) unat_u32_lt [of n]
    by (simp add: word_less_nat_alt)
  have "block_bytes (a, p) \<inter> free_bytes [(a + bytes32 p, n - p)] = {}" "wf_block (a, p)"
    using f by blast+
  from free_front_merge [OF s1(2) this(2) assms(3) this(1) _ refl u] s1 show ?thesis by auto
qed

theorem free_mem_last_block_null_witness:
  "\<exists>s1. alloc_mem 3 (lay [(0xffff806000100000, 8)]) = Some (0xffff806000100000, s1) \<and>
     free_mem 0xffff806000100000 3 s1 = Some (Inl NullDeref)"
  using free_mem_last_block_null [of "lay [(0xffff806000100000, 8)]" "0xffff806000100000" 8 3]
    lay_inv [of "[(0xffff806000100000, 8)]"]
  by simp

text \<open>
  C19: a block below all free blocks, and not adjacent to the first of them, becomes the new
  first block.
\<close>

theorem free_mem_below:
  assumes "alloc_inv s ((a, n) # bs)" and "wf_block (ptr, p)" "unat p < 2 ^ 20"
    and "block_bytes (ptr, p) \<inter> free_bytes ((a, n) # bs) = {}"
    and "ptr < a" "\<forall>b \<in> set bs. a < fst b" and "ptr + bytes32 p \<noteq> a"
  shows "\<exists>s'. free_mem ptr p s = Some (Inr s') \<and> alloc_inv s' ((ptr, p) # (a, n) # bs)"
  by (rule free_front_insert [OF assms])

theorem free_mem_below_witness:
  "\<exists>s'. free_mem 0xffff806000080000 2 (lay demo_blocks) = Some (Inr s') \<and>
     alloc_inv s' ((0xffff806000080000, 2) # demo_blocks)"
  using free_mem_below [of "lay demo_blocks" "0xffff806000100000" 8 "[(0xffff806000200000, 4)]"
      "0xffff806000080000" 2] lay_inv [OF demo_blocks_wf]
    block_disjoint [of "0xffff806000080000" 2 "0xffff806000100000" 8]
    block_disjoint [of "0xffff806000080000" 2 "0xffff806000200000" 4]
  by (simp add: demo_blocks_def bytes32_def Int_Un_distrib del: block_bytes.simps)

text \<open>
  C29: a block that exactly fills the hole between the first two free blocks corrupts the list:
  its pages are added to the block before it and it is linked a second time as a block of its
  own, so two nodes of the list own the same pages.
\<close>

theorem free_mem_hole_corrupts:
  assumes "alloc_inv s ((a, n) # (c, k) # bs)" and "wf_block (ptr, p)"
    and "block_bytes (ptr, p) \<inter> free_bytes ((a, n) # (c, k) # bs) = {}"
    and "a + bytes32 n = ptr" "ptr + bytes32 p = c"
    and "unat n + unat p < 2 ^ 20" "unat p + unat k < 2 ^ 20"
    and "\<forall>b \<in> set bs. c < fst b"
  shows "\<exists>s'. free_mem ptr p s = Some (Inr s') \<and>
    flist (heap s') (ml_next s') ((a, n + p) # (ptr, p + k) # bs) \<and>
    block_bytes (ptr, p) \<subseteq> block_bytes (a, n + p) \<inter> block_bytes (ptr, p + k) \<and>
    \<not> (\<exists>bs'. alloc_inv s' bs')"
proof -
  obtain s' where s': "free_mem ptr p s = Some (Inr s')"
    "flist (heap s') (ml_next s') ((a, n + p) # (ptr, p + k) # bs)"
    using free_hole [OF assms] by blast
  have wf: "wf_block (a, n)" "wf_block (c, k)" using assms(1) by (auto simp: alloc_inv_def)
  have "block_bytes (ptr, p) \<subseteq> block_bytes (a, n + p)" "block_bytes (ptr, p) \<subseteq> block_bytes (ptr, p + k)"
    using wf_block_join(2) [OF wf(1) assms(2) _ _ assms(4)] wf_block_join(2) [OF assms(2) wf(2) _ _ assms(5)]
      assms(6,7) by (auto simp del: block_bytes.simps)
  moreover have "ptr \<in> block_bytes (ptr, p)" by (rule block_mem [OF assms(2)])
  ultimately have sub: "block_bytes (ptr, p) \<subseteq> block_bytes (a, n + p) \<inter> block_bytes (ptr, p + k)"
    "\<not> wf_blocks ((a, n + p) # (ptr, p + k) # bs)"
    by (auto simp del: block_bytes.simps)
  then have "\<not> (\<exists>bs'. alloc_inv s' bs')"
    using flist_det [OF s'(2)] by (auto simp: alloc_inv_def simp del: wf_blocks_simps)
  with s' sub show ?thesis by blast
qed

theorem free_mem_hole_corrupts_witness:
  "\<exists>s'. free_mem 0xffff806000108000 248 (lay demo_blocks) = Some (Inr s') \<and>
     flist (heap s') (ml_next s') [(0xffff806000100000, 256), (0xffff806000108000, 252)]"
  using free_mem_hole_corrupts [of "lay demo_blocks" "0xffff806000100000" 8 "0xffff806000200000" 4 "[]"
      "0xffff806000108000" 248] lay_inv [OF demo_blocks_wf]
    block_disjoint [of "0xffff806000100000" 8 "0xffff806000108000" 248]
    block_disjoint [of "0xffff806000108000" 248 "0xffff806000200000" 4]
  by (auto simp add: demo_blocks_def bytes32_def Int_Un_distrib Int_commute simp del: block_bytes.simps)

subsection \<open>\<open>init_mem\<close>\<close>

lemma wf_nodes_ok:
  "wf_blocks bs \<Longrightarrow> node_bytes bs \<inter> M = {} \<Longrightarrow> nodes_ok M bs"
proof (induction bs)
  case (Cons b bs)
  obtain a n where b: "b = (a, n)" by force
  have sub: "node_bytes cs \<subseteq> free_bytes cs" if "wf_blocks cs" for cs
    using that
  proof (induction cs)
    case (Cons c cs)
    then show ?case using hdr_in_block [of "fst c" "snd c"] by auto
  qed simp
  from Cons.prems b have wf: "wf_block (a, n)" "wf_blocks bs" "block_bytes (a, n) \<inter> free_bytes bs = {}"
    by auto
  have "bytes_at a 12 \<inter> node_bytes bs = {}"
    using sub [OF wf(2)] hdr_in_block [OF wf(1)] wf(3) by blast
  with Cons b wf(1) unat_pos [of n] show ?case by auto
qed simp

lemma init_mem_runs:
  assumes "unat (P2V (buffer mm)) + k * unat (descsize mm) = unat (P2V (buffer mm) + mapsize mm)"
    and "40 \<le> unat (descsize mm)"
    and "ds = descs_at (heap s) (P2V (buffer mm)) (descsize mm) k" and "map_ok ds"
    and "node_bytes (runs (0, 0) ds) \<inter> bytes_at (P2V (buffer mm)) (k * unat (descsize mm)) = {}"
    and "ml_next s = 0"
  shows "\<exists>s'. init_mem mm s = Some s' \<and> alloc_inv s' (runs (0, 0) ds) \<and>
    free_bytes (runs (0, 0) ds) \<subseteq> usable_bytes ds \<and>
    (\<forall>x. x \<notin> node_bytes (runs (0, 0) ds) \<longrightarrow> heap s' x = heap s x)"
proof -
  have wf: "wf_blocks (runs (0, 0) ds)"
    using assms(4) by (intro runs_wf) (auto simp: pending_bytes_def)
  have "\<exists>s'. init_loop (P2V (buffer mm) + mapsize mm) (descsize mm) (P2V (buffer mm)) (0, 0) Memlist s
      = Some s' \<and> flist (heap s') (next_of Memlist s') (runs (0, 0) ds) \<and>
    (\<forall>x. x \<notin> next_field Memlist \<union> node_bytes (runs (0, 0) ds) \<longrightarrow> heap s' x = heap s x) \<and>
    (Memlist \<noteq> Memlist \<longrightarrow> ml_next s' = ml_next s)"
    unfolding assms(3) using assms wf_nodes_ok [OF wf assms(5)]
    by (intro init_loop_spec [OF assms(1,2) order.refl]) auto
  moreover have "free_bytes (runs (0, 0) ds) \<subseteq> usable_bytes ds"
    using runs_bytes [of "(0, 0)" ds] by (simp add: pending_bytes_def)
  ultimately show ?thesis using wf by (auto simp: init_mem_def alloc_inv_def)
qed

text \<open>
  C6: on a memory map whose usable regions are page aligned, not empty, apart from each other
  and below 16 TB, \<open>init_mem\<close> returns, and the free list in memory is a well-formed list of
  blocks, exactly the runs of usable descriptors, and covers usable memory only. The nodes are
  the only bytes written; they must not lie in the map itself.
\<close>

theorem init_mem_builds_free_list:
  assumes "unat (P2V (buffer mm)) + k * unat (descsize mm) = unat (P2V (buffer mm) + mapsize mm)"
    and "40 \<le> unat (descsize mm)"
    and "ds = descs_at (heap s) (P2V (buffer mm)) (descsize mm) k" and "map_ok ds"
    and "node_bytes (runs (0, 0) ds) \<inter> bytes_at (P2V (buffer mm)) (k * unat (descsize mm)) = {}"
    and "ml_next s = 0"
  shows "\<exists>s'. init_mem mm s = Some s' \<and> alloc_inv s' (runs (0, 0) ds) \<and>
    free_bytes (runs (0, 0) ds) \<subseteq> usable_bytes ds \<and>
    (\<forall>x. x \<notin> node_bytes (runs (0, 0) ds) \<longrightarrow> heap s' x = heap s x)"
  by (rule init_mem_runs [OF assms])

definition demo_map :: mem_state where
  "demo_map = \<lparr>heap = (\<lambda>_. 0)(0xffff806000001000 := 7, 0xffff80600000100a := 0x10,
                               0xffff806000001018 := 16), ml_next = 0, ml_pages = 0\<rparr>"

lemma descs_at_2: "descs_at h m st 2 = [read_desc h m, read_desc h (m + st)]"
  by (simp add: numeral_2_eq_2)

lemma demo_map_descs:
  "descs_at (heap demo_map) 0xffff806000001000 48 2 =
    [\<lparr>Type = 7, PhysicalStart = 0x100000, VirtualStart = 0, NumberOfPage = 16, Attribute = 0\<rparr>,
     \<lparr>Type = 0, PhysicalStart = 0, VirtualStart = 0, NumberOfPage = 0, Attribute = 0\<rparr>]"
  unfolding descs_at_2
  by (simp add: demo_map_def read_desc_def read32_def read64_def load_numeral)

theorem init_mem_builds_free_list_witness:
  "\<exists>s'. init_mem \<lparr>buffer = 0x1000, mapsize = 96, descsize = 48\<rparr> demo_map = Some s' \<and>
     alloc_inv s' [(0xffff806000100000, 16)]"
  using init_mem_builds_free_list [of "\<lparr>buffer = 0x1000, mapsize = 96, descsize = 48\<rparr>" 2 _ demo_map,
      OF _ _ refl]
    bytes_at_disjoint [of "0xffff806000100000" 12 "0xffff806000001000" 96]
  by (simp add: P2V_def PAGE_OFFSET_def demo_map_descs usable_def isUsableMemType_def EfiLoaderCode_def
     EfiLoaderData_def EfiBootServicesCode_def EfiBootServicesData_def EfiConventionalMemory_def
     extend_run_def region_bytes_def usable_bytes_def) (auto simp: demo_map_def)

end
