(* ===== verification/Exceptions.thy ===== *)
theory Exceptions
  imports Paging Mem_Props
begin

unbundle bit_operations_syntax

text \<open>
  The exception handlers of kernel/exception.c, which the stubs of kernel/asm.S call with the
  saved registers. What a handler prints is a list of \<open>printk\<close> calls (format and arguments);
  a handler returns to the faulting instruction or spins for ever. Demand paging of the page
  fault handler is the part with state: it works on the page tables and the allocator.
\<close>

subsection \<open>Handlers\<close>

record interrupt_frame =
  rbp :: u64
  rsi :: u64
  rdi :: u64
  rdx :: u64
  rcx :: u64
  rbx :: u64
  rax :: u64
  error :: u64
  rip :: u64
  rsp :: u64
  rflags :: u64

datatype ending = Returns | Spins

text \<open>The titles start with the escape sequence for green.\<close>

definition title :: "string \<Rightarrow> print" where
  "title s = (CHR 0x1B # ''[32m### '' @ s @ '' ###'' @ [CHR 0x0A], [])"

definition line16 :: "string \<Rightarrow> u64 \<Rightarrow> print" where
  "line16 s v = (s @ '':%016X'' @ [CHR 0x0A], [v])"

definition do_zero_div :: "interrupt_frame \<Rightarrow> print list \<times> ending" where
  "do_zero_div regs = ([title ''Zero Division'', line16 ''RIP'' (rip regs)], Spins)"

definition do_breakpoint :: "interrupt_frame \<Rightarrow> print list \<times> ending" where
  "do_breakpoint regs = ([title ''Breakpoint'', line16 ''RIP'' (rip regs)], Returns)"

definition do_invalid_opcode :: "interrupt_frame \<Rightarrow> print list \<times> ending" where
  "do_invalid_opcode regs = ([title ''Invalid Opcode'', line16 ''RIP'' (rip regs)], Spins)"

definition do_device_not_available :: "interrupt_frame \<Rightarrow> print list \<times> ending" where
  "do_device_not_available regs =
     ([title ''Device Not Available'', line16 ''RIP'' (rip regs)], Spins)"

definition do_double_fault :: "interrupt_frame \<Rightarrow> print list \<times> ending" where
  "do_double_fault regs =
     ([title ''Double Fault'', line16 ''RIP'' (rip regs), line16 ''Error'' (error regs)], Spins)"

definition do_general_protection :: "interrupt_frame \<Rightarrow> print list \<times> ending" where
  "do_general_protection regs =
     ([title ''General Protection'', line16 ''RIP'' (rip regs), line16 ''Error'' (error regs)], Spins)"

definition do_floating_point :: "interrupt_frame \<Rightarrow> print list \<times> ending" where
  "do_floating_point regs = ([title ''x87 Floating Point'', line16 ''RIP'' (rip regs)], Spins)"

definition do_simd_floating_point :: "interrupt_frame \<Rightarrow> print list \<times> ending" where
  "do_simd_floating_point regs = ([title ''SIMD Floating Point'', line16 ''RIP'' (rip regs)], Spins)"

text \<open>
  \<open>cr2\<close> and \<open>cr3\<close> are the control registers, \<open>brk\<close> the kernel variable of that name. The
  result of \<open>setupPageMaps\<close> is dropped. \<open>None\<close> is a call that does not return (from the
  allocator's loop), as in \<open>setupPageMap\<close>.
\<close>

definition start_stack :: u64 where "start_stack = 0x7fffffffe000"

definition do_page_fault ::
  "u64 \<Rightarrow> u64 \<Rightarrow> u64 \<Rightarrow> interrupt_frame \<Rightarrow> mem_state \<Rightarrow> (print list \<times> ending \<times> mem_state) option" where
  "do_page_fault cr2 cr3 brk regs s =
     (if error regs AND 0x01 \<noteq> 0
      then Some ([title ''Page Fault'', line16 ''RIP'' (rip regs), line16 ''CR2'' cr2,
                  line16 ''Error'' (error regs)], Spins, s)
      else if brk \<le> cr2 \<and> cr2 \<le> start_stack
      then case setupPageMaps cr3 cr2 1 True s of
             None \<Rightarrow> None
           | Some (_, _, s') \<Rightarrow> Some ([], Returns, s')
      else Some ([], Returns, s))"

subsection \<open>Properties\<close>

text \<open>The demo memory with an empty level-4 table at physical \<open>0x1000\<close>.\<close>

lemma demo_table: "path_ok 4 (heap (lay demo_blocks)) (free_bytes demo_blocks) {} 0x1000 v"
proof -
  have p: "P2V 0x1000 = 0xffff806000001000" by (simp add: P2V_def PAGE_OFFSET_def)
  have d: "bytes_at (P2V 0x1000) 4096 \<inter> free_bytes demo_blocks = {}"
    unfolding p by (auto simp: demo_blocks_def in_bytes_at)
  have "path_ok (Suc 3) (heap (lay demo_blocks)) (free_bytes demo_blocks) {} 0x1000 v"
    using d lay_heap [OF demo_blocks_wf]
    by (intro empty_table(1)) (auto simp: page_ok_def p PAGE_OFFSET_def)
  then show ?thesis by (simp add: numeral_eq_Suc del: path_ok.simps)
qed

text \<open>
  C2: mapping one page with \<open>setupPageMaps\<close> on intact tables returns, keeps the tables intact
  and apart from the allocator's memory, and writes nothing but those tables and memory that was
  free. Either it succeeds and the processor's walk of the address ends in a page with exactly
  the requested rights, the frame it had before, or else a zeroed page taken from the free
  memory; or it reports \<open>-1\<close>, and then no free memory is left.
\<close>

theorem setupPageMaps_one_page:
  assumes "owns s F" and "\<forall>x \<in> F. PAGE_OFFSET \<le> x" and "path_ok 4 (heap s) F {} cr3 v"
  shows "\<exists>res l' s' F'. setupPageMaps cr3 v 1 rw s = Some (res, l', s') \<and>
    F' \<subseteq> F \<and> owns s' F' \<and> path_ok 4 (heap s') F' {} cr3 v \<and>
    (\<forall>x. x \<notin> F \<union> path_tables 4 (heap s) cr3 v \<longrightarrow> heap s' x = heap s x) \<and>
    (res = -1 \<and> F' = {} \<or>
     res = 0 \<and> (\<exists>c. walk P2V (heap s') 4 cr3 v =
         Some \<lparr>xaddr = c + (v AND mask 12), xrw = rw, xus = True\<rparr> \<and>
       (case walk P2V (heap s) 4 cr3 v of
          Some x \<Rightarrow> xaddr x = c + (v AND mask 12)
        | None \<Rightarrow> 4096 dvd unat (P2V c) \<and> bytes_at (P2V c) 4096 \<subseteq> F - F' \<and>
            (\<forall>x \<in> bytes_at (P2V c) 4096. heap s' x = 0))))"
  using setupPageMap_one [of 4 s F "{}" cr3 v rw] assms
  unfolding setupPageMaps_def map_post_def by simp

theorem setupPageMaps_one_page_witness:
  "\<exists>res l' s' F'. setupPageMaps 0x1000 0x400000 1 True (lay demo_blocks) = Some (res, l', s') \<and>
     owns s' F' \<and> (F' \<noteq> {} \<longrightarrow> res = 0)"
proof -
  from setupPageMaps_one_page [OF demo_owns demo_free_high demo_table, where v = "0x400000" and rw = True]
  obtain res l' s' F' where
    "setupPageMaps 0x1000 0x400000 1 True (lay demo_blocks) = Some (res, l', s')" "owns s' F'"
    "res = -1 \<and> F' = {} \<or> res = 0" by (elim exE conjE) (rule that, assumption+, blast)
  then show ?thesis by blast
qed

text \<open>
  C7: a page fault on a present page, or outside the user range, changes no memory; a fault on a
  missing page in the user range returns only when the page is mapped writable for user mode, so
  that the instruction can be restarted, or when all free memory is used up.
\<close>

theorem do_page_fault_demand:
  assumes "owns s F" and "\<forall>x \<in> F. PAGE_OFFSET \<le> x" and "path_ok 4 (heap s) F {} cr3 cr2"
  shows "\<exists>out fin s'. do_page_fault cr2 cr3 brk regs s = Some (out, fin, s') \<and>
    (fin = Spins \<longleftrightarrow> bit (error regs) 0) \<and>
    (bit (error regs) 0 \<or> cr2 < brk \<or> start_stack < cr2 \<longrightarrow> s' = s) \<and>
    (\<not> bit (error regs) 0 \<and> brk \<le> cr2 \<and> cr2 \<le> start_stack \<longrightarrow>
       out = [] \<and> (\<exists>F'. owns s' F' \<and> F' \<subseteq> F \<and> path_ok 4 (heap s') F' {} cr3 cr2 \<and>
         (F' = {} \<or> (\<exists>c. walk P2V (heap s') 4 cr3 cr2 =
            Some \<lparr>xaddr = c + (cr2 AND mask 12), xrw = True, xus = True\<rparr>))))"
proof -
  have b: "error regs AND 1 \<noteq> 0 \<longleftrightarrow> bit (error regs) 0"
    by (simp add: and_one_eq odd_iff_mod_2_eq_one even_iff_mod_2_eq_zero bit_0)
  obtain res l' s' F' where sp: "setupPageMaps cr3 cr2 1 True s = Some (res, l', s')"
    and m: "map_post 4 F {} cr3 cr2 True s res s' F'"
    using setupPageMap_one [of 4 s F "{}" cr3 cr2 True] assms
    unfolding setupPageMaps_def by auto
  from m have m': "owns s' F'" "F' \<subseteq> F" "path_ok 4 (heap s') F' {} cr3 cr2"
    "F' = {} \<or> (\<exists>c. walk P2V (heap s') 4 cr3 cr2 =
            Some \<lparr>xaddr = c + (cr2 AND mask 12), xrw = True, xus = True\<rparr>)"
    unfolding map_post_def by blast+
  show ?thesis
  proof (cases "\<not> bit (error regs) 0 \<and> brk \<le> cr2 \<and> cr2 \<le> start_stack")
    case True
    then have "do_page_fault cr2 cr3 brk regs s = Some ([], Returns, s')"
      using sp b by (simp add: do_page_fault_def)
    with True m' show ?thesis by auto
  next
    case False
    then show ?thesis using b by (auto simp: do_page_fault_def not_less)
  qed
qed

theorem do_page_fault_demand_witness:
  "\<exists>s' F'. do_page_fault 0x400000 0x1000 0x300000 \<lparr>rbp = 0, rsi = 0, rdi = 0, rdx = 0, rcx = 0,
       rbx = 0, rax = 0, error = 6, rip = 0, rsp = 0, rflags = 0\<rparr> (lay demo_blocks) =
     Some ([], Returns, s') \<and> owns s' F'"
  using do_page_fault_demand [OF demo_owns demo_free_high demo_table, of "0x400000" "0x300000"
      "\<lparr>rbp = 0, rsi = 0, rdi = 0, rdx = 0, rcx = 0,
       rbx = 0, rax = 0, error = 6, rip = 0, rsp = 0, rflags = 0\<rparr>"]
  by (auto simp: start_stack_def bit_0 intro: ending.exhaust)

end
