(* ===== verification/Hardware.thy ===== *)
theory Hardware
  imports Prelude
begin

text \<open>
  The instructions of kernel/asm.S that reach devices, as a record of functions on the state
  \<open>'d\<close> of the devices: port input and output, accesses through \<open>volatile\<close> pointers to mapped
  registers, \<open>cpuid\<close> the model specific registers, and
  the print function \<open>printk\<close> ends in. What the devices do is not code of the
  kernel, so the drivers take this record as an argument; a read may change the device.
\<close>

record 'd hardware =
  in8 :: "u16 \<Rightarrow> 'd \<Rightarrow> u8 \<times> 'd"
  out8 :: "u16 \<Rightarrow> u8 \<Rightarrow> 'd \<Rightarrow> 'd"
  in32 :: "u16 \<Rightarrow> 'd \<Rightarrow> u32 \<times> 'd"
  out32 :: "u16 \<Rightarrow> u32 \<Rightarrow> 'd \<Rightarrow> 'd"
  mmio_read :: "addr \<Rightarrow> 'd \<Rightarrow> u32 \<times> 'd"
  mmio_write :: "addr \<Rightarrow> u32 \<Rightarrow> 'd \<Rightarrow> 'd"
  cpuid_edx :: "u32 \<Rightarrow> u32"
  readMSR :: "u32 \<Rightarrow> 'd \<Rightarrow> u64"
  writeMSR :: "u32 \<Rightarrow> u64 \<Rightarrow> 'd \<Rightarrow> 'd"
  printk_to :: "print \<Rightarrow> 'd \<Rightarrow> 'd"

text \<open>No device: reads see all ones, writes are lost. Models of devices update its fields.\<close>

definition no_hardware :: "'d hardware" where
  "no_hardware = \<lparr>in8 = \<lambda>_ d. (0xff, d), out8 = \<lambda>_ _ d. d, in32 = \<lambda>_ d. (0xffffffff, d),
     out32 = \<lambda>_ _ d. d, mmio_read = \<lambda>_ d. (0xffffffff, d), mmio_write = \<lambda>_ _ d. d,
     cpuid_edx = \<lambda>_. 0, readMSR = \<lambda>_ _. 0, writeMSR = \<lambda>_ _ d. d,
     printk_to = \<lambda>_ d. d\<rparr>"

end
