(* ===== verification/Irq.thy ===== *)
theory Irq
  imports Hardware Addresses
begin

unbundle bit_operations_syntax

text \<open>
  The two interrupt controllers behind the function pointers \<open>unmask_interrupt\<close> and
  \<open>end_of_interrupt\<close> of kernel/interrupt.c: the pair of 8259 chips (kernel/pic.c) and the local
  and I/O APIC (kernel/apic.c). \<open>irq_controller\<close> is what the drivers rely on; both
  controllers satisfy it on models of the chips.
\<close>

subsection \<open>kernel/pic.c\<close>

definition MASTER_PIC_COMMAND :: u16 where "MASTER_PIC_COMMAND = 0x0020"
definition MASTER_PIC_DATA :: u16 where "MASTER_PIC_DATA = 0x0021"
definition SLAVE_PIC_COMMAND :: u16 where "SLAVE_PIC_COMMAND = 0x00a0"
definition SLAVE_PIC_DATA :: u16 where "SLAVE_PIC_DATA = 0x00a1"

lemmas pic_ports = MASTER_PIC_COMMAND_def MASTER_PIC_DATA_def SLAVE_PIC_COMMAND_def SLAVE_PIC_DATA_def

definition disable_pic :: "'d hardware \<Rightarrow> 'd \<Rightarrow> 'd" where
  "disable_pic hw d = out8 hw MASTER_PIC_DATA 0xff (out8 hw SLAVE_PIC_DATA 0xff d)"

text \<open>\<open>in8(port) & ~(1 << irq)\<close>: clearing one bit of a mask register; \<open>irq\<close> is a C \<open>int\<close>.\<close>

definition without_bit :: "u8 \<Rightarrow> int \<Rightarrow> u8" where
  "without_bit v i = ucast (ucast v AND NOT (push_bit (nat i) 1 :: u32))"

definition pic_clear_bit :: "'d hardware \<Rightarrow> u16 \<Rightarrow> int \<Rightarrow> 'd \<Rightarrow> 'd" where
  "pic_clear_bit hw port i d =
     (let (v, d1) = in8 hw port d
      in out8 hw port (without_bit v i) d1)"

definition pic_unmask_interrupt :: "'d hardware \<Rightarrow> int \<Rightarrow> 'd \<Rightarrow> 'd" where
  "pic_unmask_interrupt hw irq d =
     (if 8 \<le> irq
      then pic_clear_bit hw SLAVE_PIC_DATA (irq - 8) (pic_clear_bit hw MASTER_PIC_DATA 2 d)
      else pic_clear_bit hw MASTER_PIC_DATA irq d)"

definition pic_eoi :: "'d hardware \<Rightarrow> int \<Rightarrow> 'd \<Rightarrow> 'd" where
  "pic_eoi hw irq d =
     out8 hw MASTER_PIC_COMMAND 0x20 (if 8 \<le> irq then out8 hw SLAVE_PIC_COMMAND 0x20 d else d)"

text \<open>The sequence of port writes of \<open>init_pic\<close> between the two calls of \<open>disable_pic\<close>.\<close>

definition pic_init_writes :: "(u16 \<times> u8) list" where
  "pic_init_writes =
     [(MASTER_PIC_COMMAND, 0x10 OR 0x01), (SLAVE_PIC_COMMAND, 0x10 OR 0x01),
      (MASTER_PIC_DATA, 0x20), (SLAVE_PIC_DATA, 0x28),
      (MASTER_PIC_DATA, 0x04), (SLAVE_PIC_DATA, 0x02),
      (MASTER_PIC_DATA, 0x01), (SLAVE_PIC_DATA, 0x01)]"

definition init_pic :: "'d hardware \<Rightarrow> 'd \<Rightarrow> 'd" where
  "init_pic hw d =
     disable_pic hw (fold (\<lambda>(port, v). out8 hw port v) pic_init_writes (disable_pic hw d))"

subsection \<open>kernel/apic.c\<close>

text \<open>The two static register pointers, and the pointers set by \<open>init_apic\<close>.\<close>

record apic_state =
  lapic :: addr
  ioapic :: addr

definition check_apic :: "'d hardware \<Rightarrow> bool" where
  "check_apic hw \<longleftrightarrow> cpuid_edx hw 1 AND 0x200 \<noteq> 0"

definition ioapic_read :: "'d hardware \<Rightarrow> apic_state \<Rightarrow> u32 \<Rightarrow> 'd \<Rightarrow> u32 \<times> 'd" where
  "ioapic_read hw a r d = mmio_read hw (ioapic a + 16) (mmio_write hw (ioapic a) r d)"

definition ioapic_write :: "'d hardware \<Rightarrow> apic_state \<Rightarrow> u32 \<Rightarrow> u32 \<Rightarrow> 'd \<Rightarrow> 'd" where
  "ioapic_write hw a r v d = mmio_write hw (ioapic a + 16) v (mmio_write hw (ioapic a) r d)"

definition ioapic_unmask_interrupt :: "'d hardware \<Rightarrow> apic_state \<Rightarrow> int \<Rightarrow> 'd \<Rightarrow> 'd" where
  "ioapic_unmask_interrupt hw a irq d =
     ioapic_write hw a (word_of_int (0x10 + 2 * irq + 1)) 0
       (ioapic_write hw a (word_of_int (0x10 + 2 * irq + 0)) (word_of_int (0x20 + irq)) d)"

definition lapic_eoi :: "'d hardware \<Rightarrow> apic_state \<Rightarrow> int \<Rightarrow> 'd \<Rightarrow> 'd" where
  "lapic_eoi hw a irq d = mmio_write hw (lapic a + 0xb0) 0 d"

text \<open>One step of the loop that masks the redirection entries; \<open>i\<close> counts up from 0.\<close>

definition ioapic_mask_entry :: "'d hardware \<Rightarrow> apic_state \<Rightarrow> nat \<Rightarrow> 'd \<Rightarrow> 'd" where
  "ioapic_mask_entry hw a i d =
     ioapic_write hw a (word_of_nat (0x10 + 2 * i + 1)) 0
       (ioapic_write hw a (word_of_nat (0x10 + 2 * i + 0)) (word_of_nat (0x20 + i) OR 0x10000) d)"

definition init_apic :: "'d hardware \<Rightarrow> 'd \<Rightarrow> apic_state \<times> 'd" where
  "init_apic hw d =
     (let apic_base = readMSR hw 0x1b d AND NOT 0xfff;
          a = \<lparr>lapic = P2V apic_base, ioapic = P2V 0xfec00000\<rparr>;
          d1 = writeMSR hw 0x1b ((apic_base OR 0x800) AND NOT 0x400) d;
          d2 = mmio_write hw (lapic a + 0xf0) (0x100 OR 0xff) d1;
          d3 = lapic_eoi hw a 0 d2;
          d4 = mmio_write hw (lapic a + 0x80) 0 d3;
          (v, d5) = ioapic_read hw a 0x01 d4;
          max_redirection_entries = unat (drop_bit 16 v AND 0xff)
      in (a, fold (ioapic_mask_entry hw a) [0..<max_redirection_entries] d5))"


subsection \<open>The contract\<close>

text \<open>
  \<open>lines\<close> are the usable interrupt lines, \<open>masked s i\<close> says that line \<open>i\<close> is masked at its own
  register, \<open>routed s i\<close> that nothing further on holds it back. Unmasking opens one line and
  leaves the mask of the others alone; the end of an interrupt changes no mask.
\<close>

locale irq_controller =
  fixes ready :: "'s \<Rightarrow> bool" and lines :: "nat set"
    and masked :: "'s \<Rightarrow> nat \<Rightarrow> bool" and routed :: "'s \<Rightarrow> nat \<Rightarrow> bool"
    and unmask :: "int \<Rightarrow> 's \<Rightarrow> 's" and eoi :: "int \<Rightarrow> 's \<Rightarrow> 's"
  assumes unmask_ready: "ready s \<Longrightarrow> i \<in> lines \<Longrightarrow> ready (unmask (int i) s)"
    and unmask_line: "ready s \<Longrightarrow> i \<in> lines \<Longrightarrow> j \<in> lines \<Longrightarrow>
      masked (unmask (int i) s) j = (masked s j \<and> j \<noteq> i)"
    and unmask_routed: "ready s \<Longrightarrow> i \<in> lines \<Longrightarrow> routed (unmask (int i) s) i"
    and unmask_route_kept: "ready s \<Longrightarrow> i \<in> lines \<Longrightarrow> j \<in> lines \<Longrightarrow> routed s j \<Longrightarrow>
      routed (unmask (int i) s) j"
    and eoi_ready: "ready s \<Longrightarrow> i \<in> lines \<Longrightarrow> ready (eoi (int i) s)"
    and eoi_masked: "ready s \<Longrightarrow> i \<in> lines \<Longrightarrow> j \<in> lines \<Longrightarrow> masked (eoi (int i) s) j = masked s j"
begin

text \<open>Drivers unmask their lines one after the other: exactly these lines end up open.\<close>

lemma unmask_all:
  "ready s \<Longrightarrow> set is \<subseteq> lines \<Longrightarrow> j \<in> lines \<Longrightarrow>
   ready (fold (\<lambda>i. unmask (int i)) is s) \<and>
   masked (fold (\<lambda>i. unmask (int i)) is s) j = (masked s j \<and> j \<notin> set is) \<and>
   (routed s j \<or> j \<in> set is \<longrightarrow> routed (fold (\<lambda>i. unmask (int i)) is s) j)"
proof (induction "is" arbitrary: s)
  case (Cons i "is")
  then have "ready (unmask (int i) s)" "i \<in> lines" by (auto intro: unmask_ready)
  with Cons unmask_line [of s i j] unmask_routed [of s i] unmask_route_kept [of s i j] show ?case
    by auto
qed simp

end

subsection \<open>The 8259 pair\<close>

text \<open>
  One chip, as its data sheet describes it: a command with bit 4 set (ICW1) starts the
  initialization, in which the next three data writes are the vector base (ICW2), the cascade
  wiring (ICW3) and the mode (ICW4); otherwise a data access is the mask register, and a command
  with bit 5 set is an end of interrupt. \<open>icw\<close> is the number of the word expected, 0 when the
  chip is operational.
\<close>

record pic8259 =
  icw :: nat
  vec :: u8
  wiring :: u8
  mode :: u8
  imr :: u8
  eois :: nat

definition chip_command :: "u8 \<Rightarrow> pic8259 \<Rightarrow> pic8259" where
  "chip_command v c =
     (if bit v 4 then c\<lparr>icw := 2, imr := 0\<rparr>
      else if bit v 5 then c\<lparr>eois := eois c + 1\<rparr> else c)"

definition chip_data :: "u8 \<Rightarrow> pic8259 \<Rightarrow> pic8259" where
  "chip_data v c =
     (if icw c = 2 then c\<lparr>icw := 3, vec := v\<rparr>
      else if icw c = 3 then c\<lparr>icw := 4, wiring := v\<rparr>
      else if icw c = 4 then c\<lparr>icw := 0, mode := v\<rparr>
      else c\<lparr>imr := v\<rparr>)"

record pic_pair =
  master :: pic8259
  slave :: pic8259

definition pic_hw :: "pic_pair hardware" where
  "pic_hw = no_hardware\<lparr>
     in8 := \<lambda>port d. (if port = MASTER_PIC_DATA then imr (master d)
                      else if port = SLAVE_PIC_DATA then imr (slave d) else 0xff, d),
     out8 := \<lambda>port v d.
       if port = MASTER_PIC_COMMAND then d\<lparr>master := chip_command v (master d)\<rparr>
       else if port = MASTER_PIC_DATA then d\<lparr>master := chip_data v (master d)\<rparr>
       else if port = SLAVE_PIC_COMMAND then d\<lparr>slave := chip_command v (slave d)\<rparr>
       else if port = SLAVE_PIC_DATA then d\<lparr>slave := chip_data v (slave d)\<rparr> else d\<rparr>"

lemma pic_hw_simps [simp]:
  "in8 pic_hw MASTER_PIC_DATA d = (imr (master d), d)"
  "in8 pic_hw SLAVE_PIC_DATA d = (imr (slave d), d)"
  "out8 pic_hw MASTER_PIC_COMMAND v d = d\<lparr>master := chip_command v (master d)\<rparr>"
  "out8 pic_hw MASTER_PIC_DATA v d = d\<lparr>master := chip_data v (master d)\<rparr>"
  "out8 pic_hw SLAVE_PIC_COMMAND v d = d\<lparr>slave := chip_command v (slave d)\<rparr>"
  "out8 pic_hw SLAVE_PIC_DATA v d = d\<lparr>slave := chip_data v (slave d)\<rparr>"
  by (simp_all add: pic_hw_def no_hardware_def pic_ports)

definition pic_ready :: "pic_pair \<Rightarrow> bool" where
  "pic_ready d \<longleftrightarrow> icw (master d) = 0 \<and> icw (slave d) = 0"

definition pic_lines :: "nat set" where "pic_lines = {..<16} - {2}"

definition pic_masked :: "pic_pair \<Rightarrow> nat \<Rightarrow> bool" where
  "pic_masked d i \<longleftrightarrow> (if 8 \<le> i then bit (imr (slave d)) (i - 8) else bit (imr (master d)) i)"

definition pic_routed :: "pic_pair \<Rightarrow> nat \<Rightarrow> bool" where
  "pic_routed d i \<longleftrightarrow> (8 \<le> i \<longrightarrow> \<not> bit (imr (master d)) 2)"

lemma bit_without_bit: "n < 8 \<Longrightarrow> bit (without_bit v (int n)) m = (bit v m \<and> m \<noteq> n)"
  using bit_imp_le_length [of v m] by (auto simp: without_bit_def bit_simps)

lemma pic_unmask_small:
  assumes "pic_ready d" and "i < 8"
  shows "pic_unmask_interrupt pic_hw (int i) d =
     d\<lparr>master := (master d)\<lparr>imr := without_bit (imr (master d)) (int i)\<rparr>\<rparr>"
  using assms
  by (simp add: pic_unmask_interrupt_def pic_clear_bit_def pic_ready_def chip_data_def Let_def)

lemma pic_unmask_big:
  assumes "pic_ready d" and "8 \<le> i"
  shows "pic_unmask_interrupt pic_hw (int i) d =
       d\<lparr>master := (master d)\<lparr>imr := without_bit (imr (master d)) (int 2)\<rparr>,
         slave := (slave d)\<lparr>imr := without_bit (imr (slave d)) (int (i - 8))\<rparr>\<rparr>"
  using assms
  by (simp add: pic_unmask_interrupt_def pic_clear_bit_def pic_ready_def chip_data_def Let_def of_nat_diff)

lemmas pic_unmask = pic_unmask_small pic_unmask_big

interpretation pic: irq_controller pic_ready pic_lines pic_masked pic_routed
  "pic_unmask_interrupt pic_hw" "pic_eoi pic_hw"
proof
  fix d i j
  assume d: "pic_ready d" and i: "i \<in> pic_lines"
  have big: "i - 8 < 8" "\<not> 8 \<le> i \<Longrightarrow> i < 8" using i by (auto simp: pic_lines_def)
  note um = pic_unmask [OF d, of i]
  show "pic_ready (pic_unmask_interrupt pic_hw (int i) d)"
    using um big d by (cases "8 \<le> i") (simp_all add: pic_ready_def)
  show "pic_routed (pic_unmask_interrupt pic_hw (int i) d) i"
    using um bit_without_bit [of 2 "imr (master d)" 2] by (simp add: pic_routed_def)
  show "pic_ready (pic_eoi pic_hw (int i) d)"
    using d by (auto simp: pic_eoi_def pic_ready_def chip_command_def)
  assume j: "j \<in> pic_lines"
  show "pic_masked (pic_unmask_interrupt pic_hw (int i) d) j = (pic_masked d j \<and> j \<noteq> i)"
    using um big i j bit_without_bit [of i] bit_without_bit [of "i - 8"] bit_without_bit [of 2]
    by (cases "8 \<le> i") (auto simp: pic_masked_def pic_lines_def)
  show "pic_masked (pic_eoi pic_hw (int i) d) j = pic_masked d j"
    by (auto simp: pic_eoi_def pic_masked_def chip_command_def)
  assume "pic_routed d j"
  then show "pic_routed (pic_unmask_interrupt pic_hw (int i) d) j"
    using um big bit_without_bit [of i "imr (master d)" 2] bit_without_bit [of 2 "imr (master d)" 2]
    by (cases "8 \<le> i") (auto simp: pic_routed_def)
qed

lemma init_pic_result:
  "init_pic pic_hw d =
     \<lparr>master = \<lparr>icw = 0, vec = 0x20, wiring = 0x04, mode = 0x01, imr = 0xff, eois = eois (master d)\<rparr>,
      slave = \<lparr>icw = 0, vec = 0x28, wiring = 0x02, mode = 0x01, imr = 0xff, eois = eois (slave d)\<rparr>\<rparr>"
proof -
  have b: "bit (0x11 :: u8) 4" by simp
  show ?thesis
    by (cases "master d"; cases "slave d")
      (simp add: init_pic_def disable_pic_def pic_init_writes_def chip_data_def chip_command_def b)
qed

text \<open>
  C27: whatever state the two 8259 chips are in, even inside an initialization sequence,
  \<open>init_pic\<close> leaves them operational with all lines masked and the vectors from \<open>0x20\<close> and
  \<open>0x28\<close>; unmasking lines afterwards opens exactly these lines (and the cascade line for those
  of the second chip).
\<close>

theorem pic_init_unmask:
  assumes "set is \<subseteq> pic_lines" and "j \<in> pic_lines"
    and "d' = fold (\<lambda>i. pic_unmask_interrupt pic_hw (int i)) is (init_pic pic_hw d)"
  shows "vec (master (init_pic pic_hw d)) = 0x20 \<and> vec (slave (init_pic pic_hw d)) = 0x28 \<and>
    pic_masked (init_pic pic_hw d) j \<and> pic_ready d' \<and>
    (pic_masked d' j \<longleftrightarrow> j \<notin> set is) \<and> (j \<in> set is \<longrightarrow> pic_routed d' j)"
proof -
  have "bit (255 :: u8) n" if "n < 8" for n
    using that bit_mask_iff [of 8 n, where 'a = u8] by (simp add: mask_eq_exp_minus_1)
  then have r: "pic_ready (init_pic pic_hw d)" "pic_masked (init_pic pic_hw d) j"
    using assms(2) by (auto simp: pic_ready_def pic_masked_def init_pic_result pic_lines_def)
  with pic.unmask_all [OF r(1) assms(1,2)] show ?thesis
    by (auto simp: assms(3) init_pic_result)
qed

theorem pic_init_unmask_witness:
  "pic_routed (fold (\<lambda>i. pic_unmask_interrupt pic_hw (int i)) [1, 12] (init_pic pic_hw
     \<lparr>master = \<lparr>icw = 3, vec = 0, wiring = 0, mode = 0, imr = 0, eois = 0\<rparr>,
      slave = \<lparr>icw = 0, vec = 0, wiring = 0, mode = 0, imr = 0, eois = 0\<rparr>\<rparr>)) 12"
  using pic_init_unmask [of "[1, 12]" 12 _ "\<lparr>master = \<lparr>icw = 3, vec = 0, wiring = 0, mode = 0, imr = 0, eois = 0\<rparr>,
      slave = \<lparr>icw = 0, vec = 0, wiring = 0, mode = 0, imr = 0, eois = 0\<rparr>\<rparr>", OF _ _ refl]
  by (simp add: pic_lines_def)

subsection \<open>The I/O APIC\<close>

text \<open>
  The I/O APIC as its data sheet describes it: a select register and a window on the register it
  selects. Registers \<open>0x10 + 2 * i\<close> and \<open>0x11 + 2 * i\<close> are the halves of redirection entry \<open>i\<close>
  (vector in bits 0 to 7, mask bit 16; destination), bits 16 to 23 of register 1 the number of
  the last entry. All other mapped registers are those of the local APIC.
\<close>

record apic_dev =
  sel :: u32
  regs :: "u32 \<Rightarrow> u32"
  local_regs :: "addr \<Rightarrow> u32"
  msr :: u64

definition IOAPIC :: addr where "IOAPIC = P2V 0xfec00000"

definition apic_hw :: "apic_dev hardware" where
  "apic_hw = no_hardware\<lparr>
     mmio_read := \<lambda>p d. (if p = IOAPIC + 16 then regs d (sel d) else local_regs d p, d),
     mmio_write := \<lambda>p v d.
       if p = IOAPIC then d\<lparr>sel := v\<rparr>
       else if p = IOAPIC + 16 then d\<lparr>regs := (regs d)(sel d := v)\<rparr>
       else d\<lparr>local_regs := (local_regs d)(p := v)\<rparr>,
     readMSR := \<lambda>r d. msr d,
     writeMSR := \<lambda>r v d. d\<lparr>msr := v\<rparr>\<rparr>"

definition redir_lo :: "nat \<Rightarrow> u32" where "redir_lo i = word_of_nat (0x10 + 2 * i)"
definition redir_hi :: "nat \<Rightarrow> u32" where "redir_hi i = word_of_nat (0x11 + 2 * i)"

lemma word_of_nat_eq_iff_small:
  "m < 2 ^ 32 \<Longrightarrow> n < 2 ^ 32 \<Longrightarrow> (word_of_nat m :: u32) = word_of_nat n \<longleftrightarrow> m = n"
  by (simp add: word_of_nat_eq_iff take_bit_nat_eq_self_iff take_bit_nat_eq_self)

lemma redir_distinct [simp]:
  assumes "i < 256" and "j < 256"
  shows "redir_lo i = redir_lo j \<longleftrightarrow> i = j" "redir_hi i = redir_hi j \<longleftrightarrow> i = j"
    "redir_lo i \<noteq> redir_hi j" "redir_hi i \<noteq> redir_lo j"
proof -
  have n: "16 + 2 * i \<noteq> 17 + 2 * j" "17 + 2 * i \<noteq> 16 + 2 * j" by presburger+
  show "redir_lo i = redir_lo j \<longleftrightarrow> i = j" "redir_hi i = redir_hi j \<longleftrightarrow> i = j"
    "redir_lo i \<noteq> redir_hi j" "redir_hi i \<noteq> redir_lo j"
    unfolding redir_lo_def redir_hi_def using assms n
    by (subst word_of_nat_eq_iff_small; simp)+
qed

lemma apic_hw_simps:
  "mmio_write apic_hw IOAPIC v d = d\<lparr>sel := v\<rparr>"
  "mmio_write apic_hw (IOAPIC + 16) v d = d\<lparr>regs := (regs d)(sel d := v)\<rparr>"
  "p \<noteq> IOAPIC \<Longrightarrow> p \<noteq> IOAPIC + 16 \<Longrightarrow>
     mmio_write apic_hw p v d = d\<lparr>local_regs := (local_regs d)(p := v)\<rparr>"
  "mmio_read apic_hw (IOAPIC + 16) d = (regs d (sel d), d)"
  "readMSR apic_hw r d = msr d" "writeMSR apic_hw r w d = d\<lparr>msr := w\<rparr>"
  by (simp_all add: apic_hw_def no_hardware_def)

lemma ioapic_write_model:
  "ioapic a = IOAPIC \<Longrightarrow> ioapic_write apic_hw a r v d = d\<lparr>sel := r, regs := (regs d)(r := v)\<rparr>"
  by (simp add: ioapic_write_def apic_hw_def no_hardware_def)

definition apic_ready :: "apic_state \<times> apic_dev \<Rightarrow> bool" where
  "apic_ready s \<longleftrightarrow> ioapic (fst s) = IOAPIC \<and>
     lapic (fst s) + 0xb0 \<noteq> IOAPIC \<and> lapic (fst s) + 0xb0 \<noteq> IOAPIC + 16"

definition apic_lines :: "nat set" where "apic_lines = {..<224}"

definition apic_masked :: "apic_state \<times> apic_dev \<Rightarrow> nat \<Rightarrow> bool" where
  "apic_masked s i \<longleftrightarrow> bit (regs (snd s) (redir_lo i)) 16"

text \<open>The entry has the vector of its line and is delivered to processor 0.\<close>

definition apic_routed :: "apic_state \<times> apic_dev \<Rightarrow> nat \<Rightarrow> bool" where
  "apic_routed s i \<longleftrightarrow>
     take_bit 16 (regs (snd s) (redir_lo i)) = word_of_nat (0x20 + i) \<and> regs (snd s) (redir_hi i) = 0"

definition apic_unmask :: "int \<Rightarrow> apic_state \<times> apic_dev \<Rightarrow> apic_state \<times> apic_dev" where
  "apic_unmask irq = (\<lambda>(a, d). (a, ioapic_unmask_interrupt apic_hw a irq d))"

definition apic_eoi :: "int \<Rightarrow> apic_state \<times> apic_dev \<Rightarrow> apic_state \<times> apic_dev" where
  "apic_eoi irq = (\<lambda>(a, d). (a, lapic_eoi apic_hw a irq d))"

lemma apic_unmask_regs:
  assumes "ioapic a = IOAPIC"
  shows "ioapic_unmask_interrupt apic_hw a (int i) d =
     d\<lparr>sel := redir_hi i, regs := (regs d)(redir_lo i := word_of_nat (0x20 + i), redir_hi i := 0)\<rparr>"
proof -
  have "word_of_int (0x10 + 2 * int i + 1) = redir_hi i" "word_of_int (0x10 + 2 * int i + 0) = redir_lo i"
    "word_of_int (0x20 + int i) = (word_of_nat (0x20 + i) :: u32)"
    by (simp_all add: redir_lo_def redir_hi_def)
  then show ?thesis by (simp add: ioapic_unmask_interrupt_def ioapic_write_model [OF assms])
qed

lemma vector_bits:
  assumes "i < 224"
  shows "\<not> bit (word_of_nat (0x20 + i) :: u32) 16"
    "take_bit 16 (word_of_nat (0x20 + i) :: u32) = word_of_nat (0x20 + i)"
proof -
  have "unat (word_of_nat (0x20 + i) :: u32) < 2 ^ 16"
    using assms by (subst unat_of_nat) simp
  then show t: "take_bit 16 (word_of_nat (0x20 + i) :: u32) = word_of_nat (0x20 + i)"
    by (intro word_eq_unatI) (simp add: unsigned_take_bit_eq take_bit_nat_eq_self_iff)
  show "\<not> bit (word_of_nat (0x20 + i) :: u32) 16"
    by (subst t [symmetric]) (simp add: bit_take_bit_iff)
qed

interpretation apic: irq_controller apic_ready apic_lines apic_masked apic_routed apic_unmask apic_eoi
proof
  fix s :: "apic_state \<times> apic_dev" and i j :: nat
  obtain a d where s: "s = (a, d)" by force
  assume r: "apic_ready s" and i: "i \<in> apic_lines"
  then have u: "apic_unmask (int i) s = (a, d\<lparr>sel := redir_hi i,
      regs := (regs d)(redir_lo i := word_of_nat (0x20 + i), redir_hi i := 0)\<rparr>)"
    using s apic_unmask_regs [of a i d] by (simp add: apic_unmask_def apic_ready_def)
  have e: "apic_eoi (int i) s = (a, d\<lparr>local_regs := (local_regs d)(lapic a + 0xb0 := 0)\<rparr>)"
    using r s by (simp add: apic_eoi_def lapic_eoi_def apic_hw_def no_hardware_def apic_ready_def)
  have l: "i < 224" using i by (simp add: apic_lines_def)
  note v = vector_bits [OF l]
  show "apic_ready (apic_unmask (int i) s)" "apic_ready (apic_eoi (int i) s)"
    using u e r s by (auto simp: apic_ready_def)
  show "apic_routed (apic_unmask (int i) s) i"
    using u l v by (simp add: apic_routed_def)
  assume j: "j \<in> apic_lines"
  show "apic_masked (apic_unmask (int i) s) j = (apic_masked s j \<and> j \<noteq> i)"
    using u s l j v by (auto simp: apic_masked_def apic_lines_def)
  show "apic_masked (apic_eoi (int i) s) j = apic_masked s j"
    using e s by (simp add: apic_masked_def)
  assume "apic_routed s j"
  then show "apic_routed (apic_unmask (int i) s) j"
    using u s l j v by (auto simp: apic_routed_def apic_lines_def)
qed

text \<open>The loop of \<open>init_apic\<close>: the entries below \<open>m\<close>, and no others, are masked.\<close>

lemma mask_entries:
  assumes a: "ioapic a = IOAPIC"
  shows "m \<le> 256 \<Longrightarrow> j < 256 \<Longrightarrow>
    (let d' = fold (ioapic_mask_entry apic_hw a) [0..<m] d in
       regs d' (redir_lo j) = (if j < m then word_of_nat (0x20 + j) OR 0x10000 else regs d (redir_lo j)) \<and>
       regs d' (redir_hi j) = (if j < m then 0 else regs d (redir_hi j)) \<and>
       local_regs d' = local_regs d \<and> msr d' = msr d)"
proof (induction m)
  case (Suc m)
  define d' where "d' = fold (ioapic_mask_entry apic_hw a) [0..<m] d"
  have "fold (ioapic_mask_entry apic_hw a) [0..<Suc m] d = d'\<lparr>sel := redir_hi m,
      regs := (regs d')(redir_lo m := word_of_nat (0x20 + m) OR 0x10000, redir_hi m := 0)\<rparr>"
    by (simp add: ioapic_mask_entry_def ioapic_write_model [OF a] redir_lo_def redir_hi_def d'_def)
  with Suc show ?case by (auto simp: Let_def d'_def [symmetric])
qed simp

lemma lapic_not_ioapic:
  assumes "(b :: u64) AND 0xfff = 0" and "r = 0x80 \<or> r = 0xb0 \<or> r = 0xf0"
  shows "P2V b + r \<noteq> IOAPIC" "P2V b + r \<noteq> IOAPIC + 16"
proof -
  have "b = c - r" if "P2V b + r = P2V c" for c
    using that by (simp add: P2V_def algebra_simps)
  moreover have "IOAPIC + 16 = P2V (0xfec00010)" by (simp add: IOAPIC_def P2V_def)
  ultimately show "P2V b + r \<noteq> IOAPIC" "P2V b + r \<noteq> IOAPIC + 16"
    using assms by (auto simp: IOAPIC_def)
qed

text \<open>
  \<open>init_apic\<close> enables the local APIC in xAPIC mode, accepts every priority, programs the
  spurious vector, and masks the redirection entries 0 to \<open>m - 1\<close> with the vectors of their lines,
  where \<open>m\<close> is the number the version register gives; since that is the number of the last
  entry, entry \<open>m\<close> itself keeps whatever the firmware left there.
\<close>

theorem init_apic_masks:
  assumes "init_apic apic_hw d = (a, d')" and "m = unat (drop_bit 16 (regs d 1) AND 0xff)"
  shows "lapic a = P2V (msr d AND NOT 0xfff) \<and> apic_ready (a, d') \<and>
    msr d' = ((msr d AND NOT 0xfff OR 0x800) AND NOT 0x400) \<and>
    local_regs d' (lapic a + 0xf0) = 0x1ff \<and> local_regs d' (lapic a + 0x80) = 0 \<and>
    (\<forall>i. i < m \<longrightarrow> i < 224 \<longrightarrow> apic_masked (a, d') i \<and> apic_routed (a, d') i) \<and>
    regs d' (redir_lo m) = regs d (redir_lo m)"
proof -
  define b where "b = msr d AND NOT 0xfff"
  define d1 where "d1 = d\<lparr>msr := (b OR 0x800) AND NOT 0x400,
    local_regs := (local_regs d)(P2V b + 0xf0 := 0x1ff, P2V b + 0xb0 := 0, P2V b + 0x80 := 0), sel := 1\<rparr>"
  have b0: "b AND 0xfff = 0" unfolding b_def by (simp add: ac_simps)
  note ne = lapic_not_ioapic [OF b0, of "0xf0"] lapic_not_ioapic [OF b0, of "0xb0"]
    lapic_not_ioapic [OF b0, of "0x80"]
  have b': "msr d AND - 4096 = b" "P2V 4273995776 = IOAPIC" by (simp_all add: b_def IOAPIC_def)
  have a: "a = \<lparr>lapic = P2V b, ioapic = IOAPIC\<rparr>" and
    d': "d' = fold (ioapic_mask_entry apic_hw a) [0..<m] d1"
    using assms ne unfolding init_apic_def lapic_eoi_def ioapic_read_def
    by (auto simp: Let_def b' d1_def apic_hw_simps)
  have m: "m < 256"
    using assms(2) word_and_le1 [of "drop_bit 16 (regs d 1)" 255] by (simp add: word_le_nat_alt)
  have me: "regs d' (redir_lo j) = (if j < m then word_of_nat (0x20 + j) OR 0x10000 else regs d1 (redir_lo j))"
    "regs d' (redir_hi j) = (if j < m then 0 else regs d1 (redir_hi j))"
    "local_regs d' = local_regs d1" "msr d' = msr d1" if "j < 256" for j
    using mask_entries [of a m j d1] m that unfolding d' [symmetric] by (simp_all add: a Let_def)
  have en: "apic_masked (a, d') i \<and> apic_routed (a, d') i" if "i < m" "i < 224" for i
    using me(1,2) [of i] that m vector_bits [of i]
    by (simp add: apic_masked_def apic_routed_def bit_or_iff take_bit_or del: of_nat_add)
  have "regs d' (redir_lo m) = regs d (redir_lo m)" using me(1) [of m] m by (simp add: d1_def)
  with me(3,4) [of 0] en ne a show ?thesis
    by (simp add: d1_def apic_ready_def b')
qed

definition demo_apic :: apic_dev where
  "demo_apic = \<lparr>sel = 0, regs = (\<lambda>_. 0)(1 := 0x170020), local_regs = \<lambda>_. 0, msr = 0xfee00900\<rparr>"

theorem init_apic_masks_witness:
  "lapic (fst (init_apic apic_hw demo_apic)) = 0xffff8060fee00000 \<and>
   apic_masked (init_apic apic_hw demo_apic) 22 \<and>
   \<not> apic_masked (init_apic apic_hw demo_apic) 23"
proof -
  have m: "unat (drop_bit 16 (regs demo_apic 1) AND 0xff) = 23"
    by (simp add: demo_apic_def)
  have z: "regs demo_apic (redir_lo 23) = 0" by (simp add: demo_apic_def redir_lo_def)
  obtain a d' where i: "init_apic apic_hw demo_apic = (a, d')" by force
  note r = init_apic_masks [OF this refl, unfolded m]
  from r z have "\<not> apic_masked (a, d') 23" by (simp add: apic_masked_def)
  moreover from r have "lapic a = P2V (msr demo_apic AND NOT 0xfff)" "apic_masked (a, d') 22"
    by blast (use r in simp)
  moreover have "msr demo_apic = 0xfee00900" by (simp add: demo_apic_def)
  ultimately show ?thesis by (simp add: i P2V_def PAGE_OFFSET_def)
qed

end
