(* ===== verification/Interrupts.thy ===== *)
theory Interrupts
  imports Irq Bitfields
begin

unbundle bit_operations_syntax

text \<open>
  The interrupt descriptor table of kernel/interrupt.c and the choice of the interrupt
  controller. The handlers are addresses: the entry points of kernel/asm.S are an argument
  of the model.
\<close>

subsection \<open>Gates\<close>

record interrupt_descriptor =
  offset_low :: u16
  segment :: u16
  ist :: "3 word"
  int_type :: "4 word"
  int_dpl :: "2 word"
  int_p :: "1 word"
  offset_mid :: u16
  offset_high :: u32

definition zero_gate :: interrupt_descriptor where
  "zero_gate = \<lparr>offset_low = 0, segment = 0, ist = 0, int_type = 0, int_dpl = 0, int_p = 0,
     offset_mid = 0, offset_high = 0\<rparr>"

definition KERNEL_CS :: u16 where "KERNEL_CS = 0x08"

type_synonym idt = "u8 \<Rightarrow> interrupt_descriptor"

definition add_interrupt_handler :: "u8 \<Rightarrow> addr \<Rightarrow> idt \<Rightarrow> idt" where
  "add_interrupt_handler num handler idt =
     idt(num := (idt num)\<lparr>offset_low := ucast (handler AND 0xffff), segment := KERNEL_CS,
       int_type := 0b1110, int_p := 1,
       offset_mid := ucast (drop_bit 16 handler AND 0xffff),
       offset_high := ucast (drop_bit 32 handler AND 0xffffffff)\<rparr>)"

text \<open>The assembler entry points.\<close>

record entry_points =
  zero_div :: addr
  breakpoint :: addr
  invalid_opcode :: addr
  device_not_available :: addr
  double_fault :: addr
  general_protection :: addr
  page_fault :: addr
  floating_point :: addr
  simd_floating_point :: addr

definition exception_gates :: "entry_points \<Rightarrow> (u8 \<times> addr) list" where
  "exception_gates ep =
     [(0x00, zero_div ep), (0x03, breakpoint ep), (0x06, invalid_opcode ep),
      (0x07, device_not_available ep), (0x08, double_fault ep), (0x0d, general_protection ep),
      (0x0e, page_fault ep), (0x10, floating_point ep), (0x13, simd_floating_point ep)]"

definition init_idt :: "entry_points \<Rightarrow> idt" where
  "init_idt ep =
     (let idt1 = fold (\<lambda>(num, h). add_interrupt_handler num h) (exception_gates ep) (\<lambda>_. zero_gate)
      in idt1(0x0e := (idt1 0x0e)\<lparr>ist := 1\<rparr>))"

text \<open>
  The pointers \<open>unmask_interrupt\<close> and \<open>end_of_interrupt\<close>: \<open>NULL\<close> (\<open>None\<close>) until the controller
  is chosen. A call through \<open>NULL\<close> is \<open>None\<close>.
\<close>

datatype controller = Pic | Apic apic_state

record irq_state =
  idt_table :: idt
  idtr_limit :: u16
  irq_ctl :: "controller option"

definition init_interrupt :: "'d hardware \<Rightarrow> entry_points \<Rightarrow> 'd \<Rightarrow> irq_state \<times> 'd" where
  "init_interrupt hw ep d =
     (let d1 = disable_pic hw d;
          (c, d2) = (if check_apic hw then let (a, d') = init_apic hw d1 in (Apic a, d')
                     else (Pic, init_pic hw d1))
      in (\<lparr>idt_table = init_idt ep, idtr_limit = 256 * 16 - 1, irq_ctl = Some c\<rparr>, d2))"

definition unmask_interrupt :: "'d hardware \<Rightarrow> controller option \<Rightarrow> int \<Rightarrow> 'd \<Rightarrow> 'd option" where
  "unmask_interrupt hw c irq d =
     (case c of None \<Rightarrow> None
      | Some Pic \<Rightarrow> Some (pic_unmask_interrupt hw irq d)
      | Some (Apic a) \<Rightarrow> Some (ioapic_unmask_interrupt hw a irq d))"

definition end_of_interrupt :: "'d hardware \<Rightarrow> controller option \<Rightarrow> int \<Rightarrow> 'd \<Rightarrow> 'd option" where
  "end_of_interrupt hw c irq d =
     (case c of None \<Rightarrow> None
      | Some Pic \<Rightarrow> Some (pic_eoi hw irq d)
      | Some (Apic a) \<Rightarrow> Some (lapic_eoi hw a irq d))"

subsection \<open>Properties\<close>

text \<open>The handler address the processor assembles from a gate.\<close>

definition gate_offset :: "interrupt_descriptor \<Rightarrow> addr" where
  "gate_offset g = ucast (offset_low g) OR push_bit 16 (ucast (offset_mid g)) OR
     push_bit 32 (ucast (offset_high g))"

lemma gate_offset_add: "gate_offset (add_interrupt_handler num h idt num) = h"
proof (rule bit_word_eqI)
  fix n
  show "bit (gate_offset (add_interrupt_handler num h idt num)) n = bit h n"
    by (cases "32 \<le> n"; cases "16 \<le> n")
      (auto simp: gate_offset_def add_interrupt_handler_def mask_simps bit_simps
        dest: bit_imp_le_length)
qed

lemma add_interrupt_handler_simps:
  "num \<noteq> k \<Longrightarrow> add_interrupt_handler num h idt k = idt k"
  "int_p (add_interrupt_handler num h idt num) = 1"
  "int_type (add_interrupt_handler num h idt num) = 0b1110"
  "segment (add_interrupt_handler num h idt num) = KERNEL_CS"
  "ist (add_interrupt_handler num h idt num) = ist (idt num)"
  "int_dpl (add_interrupt_handler num h idt num) = int_dpl (idt num)"
  by (auto simp: add_interrupt_handler_def)

lemma fold_gates:
  "distinct (map fst gs) \<Longrightarrow>
   (case map_of gs k of
      None \<Rightarrow> fold (\<lambda>(num, h). add_interrupt_handler num h) gs idt k = idt k
    | Some h \<Rightarrow> \<exists>idt'. idt' k = idt k \<and>
        fold (\<lambda>(num, h). add_interrupt_handler num h) gs idt k = add_interrupt_handler k h idt' k)"
proof (induction gs arbitrary: idt)
  case (Cons g gs)
  obtain num h where g: "g = (num, h)" by force
  let ?idt = "add_interrupt_handler num h idt"
  have IH: "case map_of gs k of
      None \<Rightarrow> fold (\<lambda>(num, h). add_interrupt_handler num h) gs ?idt k = ?idt k
    | Some h \<Rightarrow> \<exists>idt'. idt' k = ?idt k \<and>
        fold (\<lambda>(num, h). add_interrupt_handler num h) gs ?idt k = add_interrupt_handler k h idt' k"
    using Cons g by simp
  show ?case
  proof (cases "num = k")
    case True
    then have "map_of gs k = None" using Cons.prems g by (auto simp: map_of_eq_None_iff)
    with IH True g show ?thesis by auto
  next
    case False
    with IH g add_interrupt_handler_simps(1) [OF False] show ?thesis by (auto split: option.splits)
  qed
qed simp

text \<open>
  C21: after \<open>init_interrupt\<close> the gate of each of the nine handled exceptions is present, is an
  interrupt gate in the kernel code segment callable from the kernel only, and leads to the entry
  point of that exception; the page fault alone runs on the first interrupt stack; every other
  vector is absent. A controller is chosen, so that unmasking an interrupt is defined.
\<close>

theorem init_interrupt_gates:
  assumes "init_interrupt hw ep d = (s, d')"
  shows "(case map_of (exception_gates ep) v of
       Some h \<Rightarrow> gate_offset (idt_table s v) = h \<and> int_p (idt_table s v) = 1 \<and>
         int_type (idt_table s v) = 0b1110 \<and> segment (idt_table s v) = KERNEL_CS \<and>
         int_dpl (idt_table s v) = 0 \<and> ist (idt_table s v) = (if v = 0x0e then 1 else 0)
     | None \<Rightarrow> idt_table s v = zero_gate) \<and>
    (irq_ctl s = Some Pic \<and> \<not> check_apic hw \<or>
     check_apic hw \<and> (\<exists>a. irq_ctl s = Some (Apic a) \<and> ioapic a = IOAPIC)) \<and>
    unmask_interrupt hw (irq_ctl s) irq d' \<noteq> None"
proof -
  have idt: "idt_table s = init_idt ep"
    using assms by (auto simp: init_interrupt_def Let_def split: prod.splits)
  have ctl: "irq_ctl s = Some Pic \<and> \<not> check_apic hw \<or>
     check_apic hw \<and> (\<exists>a. irq_ctl s = Some (Apic a) \<and> ioapic a = IOAPIC)"
    using assms
    by (auto simp: init_interrupt_def Let_def init_apic_def IOAPIC_def split: prod.splits if_splits)
  let ?f = "fold (\<lambda>(num, h). add_interrupt_handler num h) (exception_gates ep) (\<lambda>_. zero_gate)"
  have ds: "distinct (map fst (exception_gates ep))" by (simp add: exception_gates_def)
  have z: "ist zero_gate = 0" "int_dpl zero_gate = 0" by (simp_all add: zero_gate_def)
  have off: "gate_offset (g\<lparr>ist := k\<rparr>) = gate_offset g" for g k by (simp add: gate_offset_def)
  have gate: "case map_of (exception_gates ep) v of
       Some h \<Rightarrow> gate_offset (idt_table s v) = h \<and> int_p (idt_table s v) = 1 \<and>
         int_type (idt_table s v) = 0b1110 \<and> segment (idt_table s v) = KERNEL_CS \<and>
         int_dpl (idt_table s v) = 0 \<and> ist (idt_table s v) = (if v = 0x0e then 1 else 0)
     | None \<Rightarrow> idt_table s v = zero_gate"
  proof (cases "map_of (exception_gates ep) v")
    case None
    then have "v \<noteq> 0x0e" by (auto simp: exception_gates_def split: if_splits)
    with fold_gates [OF ds, where k = v and idt = "\<lambda>_. zero_gate"] None show ?thesis
      by (simp add: idt init_idt_def Let_def)
  next
    case (Some h)
    with fold_gates [OF ds, where k = v and idt = "\<lambda>_. zero_gate"] obtain idt' where
      "idt' v = zero_gate" "?f v = add_interrupt_handler v h idt' v" by auto
    with Some z show ?thesis
      by (auto simp: idt init_idt_def Let_def add_interrupt_handler_simps gate_offset_add off)
  qed
  moreover have "unmask_interrupt hw (irq_ctl s) irq d' \<noteq> None"
    using ctl by (auto simp: unmask_interrupt_def)
  ultimately show ?thesis using ctl by blast
qed

definition demo_entries :: entry_points where
  "demo_entries = \<lparr>zero_div = 0xffff800000001000, breakpoint = 0xffff800000001010,
     invalid_opcode = 0xffff800000001020, device_not_available = 0xffff800000001030,
     double_fault = 0xffff800000001040, general_protection = 0xffff800000001050,
     page_fault = 0xffff800000001060, floating_point = 0xffff800000001070,
     simd_floating_point = 0xffff800000001080\<rparr>"

theorem init_interrupt_gates_witness:
  "gate_offset (idt_table (fst (init_interrupt no_hardware demo_entries ())) 0x0e) =
     0xffff800000001060"
  using init_interrupt_gates [OF surjective_pairing, of no_hardware demo_entries "()" "0x0e" 1]
  by (simp add: exception_gates_def demo_entries_def)

end
