(* ===== verification/Entry.thy ===== *)
theory Entry
  imports Cpu Exceptions Interrupts
begin

unbundle bit_operations_syntax

text \<open>
  The routines of kernel/asm.S, instruction by instruction: access to control and model specific registers, the
  interrupt flag, segment registers, ports, \<open>cpuid\<close>, the entry of the kernel and of
  a program, and the stubs between the processor's exceptions and the handlers of
  kernel/exception.c.
\<close>

subsection \<open>Registers\<close>

definition mov_to_creg :: "reg \<Rightarrow> control_reg \<Rightarrow> instr" where
  "mov_to_creg r k c = c\<lparr>creg := (creg c)(k := gpr c r)\<rparr>"

definition mov_from_creg :: "control_reg \<Rightarrow> reg \<Rightarrow> instr" where
  "mov_from_creg k r c = set_reg r (creg c k) c"

text \<open>The pair EDX:EAX.\<close>

definition edx_eax :: "cpu \<Rightarrow> u64" where
  "edx_eax c = push_bit 32 (gpr c RDX) OR take_bit 32 (gpr c RAX)"

definition set_edx_eax :: "u64 \<Rightarrow> instr" where
  "set_edx_eax v c = set_reg RDX (drop_bit 32 v) (set_reg RAX (take_bit 32 v) c)"

definition rdmsr :: instr where "rdmsr c = set_edx_eax (msrs c (ucast (gpr c RCX))) c"
definition wrmsr :: instr where "wrmsr c = c\<lparr>msrs := (msrs c)(ucast (gpr c RCX) := edx_eax c)\<rparr>"
definition xsetbv :: instr where "xsetbv c = c\<lparr>creg := (creg c)(XCR0 := edx_eax c)\<rparr>"
definition xgetbv :: instr where "xgetbv c = set_edx_eax (creg c XCR0) c"

definition setCR0 :: "instr list" where "setCR0 = [mov_to_creg RDI CR0, retq]"
definition getCR0 :: "instr list" where "getCR0 = [mov_from_creg CR0 RAX, retq]"
definition getCR2 :: "instr list" where "getCR2 = [mov_from_creg CR2 RAX, retq]"
definition setCR3 :: "instr list" where "setCR3 = [mov_to_creg RDI CR3, retq]"
definition getCR3 :: "instr list" where "getCR3 = [mov_from_creg CR3 RAX, retq]"
definition setCR4 :: "instr list" where "setCR4 = [mov_to_creg RDI CR4, retq]"
definition getCR4 :: "instr list" where "getCR4 = [mov_from_creg CR4 RAX, retq]"
definition setXCR0 :: "instr list" where "setXCR0 = [movq RDI RAX, xorq RCX RCX, xsetbv, retq]"
definition getXCR0 :: "instr list" where "getXCR0 = [xorq RCX RCX, xgetbv, retq]"

definition readMSR_code :: "instr list" where
  "readMSR_code = [movq RDI RCX, rdmsr, shlq 32 RDX, orq RDX RAX, retq]"

definition writeMSR_code :: "instr list" where
  "writeMSR_code = [movq RDI RCX, movq RSI RDX, shrq 32 RDX, movl RSI RAX, wrmsr, retq]"

text \<open>The time stamp counter is an argument.\<close>

definition rdtsc_code :: "u64 \<Rightarrow> instr list" where
  "rdtsc_code tsc = [set_edx_eax tsc, shlq 32 RDX, orq RDX RAX, retq]"

definition disable :: "instr list" where "disable = [pushfq, cli, popq RAX, retq]"
definition restore :: "instr list" where "restore = [cli, pushq RDI, popfq, retq]"

text \<open>A C call of a routine: the arguments in RDI and RSI, a return address on the stack, the result in RAX.\<close>

definition call_code :: "instr list \<Rightarrow> u64 \<Rightarrow> u64 \<Rightarrow> addr \<Rightarrow> instr" where
  "call_code f x y ra c = run_code f (push ra (set_reg RSI y (set_reg RDI x c)))"

lemma take_drop_32: "push_bit 32 (drop_bit 32 v) OR take_bit 32 v = (v :: u64)"
  by (rule bit_word_eqI) (auto simp: bit_simps)

lemmas entry_defs = instr_defs mov_to_creg_def mov_from_creg_def edx_eax_def set_edx_eax_def rdmsr_def wrmsr_def xsetbv_def xgetbv_def
  call_code_def

lemma take_drop_32': "take_bit 32 v OR push_bit 32 (drop_bit 32 v) = (v :: u64)"
  using take_drop_32 [of v] by (simp only: or.commute)

lemma msr_codes:
  "gpr (call_code readMSR_code r 0 ra c) RAX = msrs c (ucast r)"
  "msrs (call_code writeMSR_code r v ra c) = (msrs c)(ucast r := v)"
  by (simp_all add: readMSR_code_def writeMSR_code_def entry_defs take_drop_32 take_drop_32')

text \<open>
  \<open>setXCR0\<close> leaves the upper half to what the caller has in RDX, and \<open>getXCR0\<close> drops it.
\<close>

lemma xcr0_codes:
  "creg (call_code setXCR0 v 0 ra c) XCR0 = push_bit 32 (gpr c RDX) OR take_bit 32 v"
  "gpr (call_code getXCR0 0 0 ra c) RAX = take_bit 32 (creg c XCR0)"
  by (simp_all add: setXCR0_def getXCR0_def entry_defs)

text \<open>\<open>disable\<close> reports the flags as they were, and \<open>restore\<close> brings them back.\<close>

lemma disable_restore:
  fixes c ra
  defines "d \<equiv> call_code disable 0 0 ra c"
  shows "gpr d RAX = eflags c" "\<not> flag IF d" "gpr d RSP = gpr c RSP" "pc d = ra"
    "eflags (call_code restore (gpr d RAX) 0 ra' e) = eflags c"
proof -
  have w: "read64 (write64 (a - 8) v (write64 a w h)) a = w" for a v w h
    using words_push [of "a - 8" "[w]" "write64 a w h" v] by simp
  show "gpr d RAX = eflags c" "\<not> flag IF d" "gpr d RSP = gpr c RSP" "pc d = ra"
    "eflags (call_code restore (gpr d RAX) 0 ra' e) = eflags c"
    using w [of "gpr c RSP - 8" "eflags c" ra "ram c"]
    by (simp_all add: d_def disable_def restore_def entry_defs top_def flag_def set_flag_def bit_simps IF_def)
qed

subsection \<open>Segments\<close>

definition set_seg :: "reg \<Rightarrow> segment_reg \<Rightarrow> instr" where
  "set_seg r k c = c\<lparr>seg := (seg c)(k := ucast (gpr c r))\<rparr>"

definition lretq :: instr where
  "lretq c = (let ip = top c; c1 = drop_top c in (drop_top c1)\<lparr>pc := ip, seg := (seg c1)(CS := ucast (top c1))\<rparr>)"

text \<open>\<open>next\<close> is the address of the last instruction, where the far return goes.\<close>

definition setCSSS :: "addr \<Rightarrow> instr list" where
  "setCSSS next = [set_seg RSI SS, set_reg RAX next, pushq RDI, pushq RAX, lretq, retq]"

definition setDSAll :: "instr list" where
  "setDSAll = [set_seg RDI DS, set_seg RDI ES, set_seg RDI FS, set_seg RDI GS, retq]"

subsection \<open>\<open>cpuid\<close>\<close>

text \<open>\<open>leaf\<close> is what the processor answers for EAX and ECX; the caller's fourth and fifth argument are in RCX and R8.\<close>

definition cpuid_instr :: "(u32 \<Rightarrow> u32 \<Rightarrow> u32 \<times> u32 \<times> u32 \<times> u32) \<Rightarrow> instr" where
  "cpuid_instr leaf c = (case leaf (ucast (gpr c RAX)) (ucast (gpr c RCX)) of (a, b, cx, d) \<Rightarrow>
     set_reg RDX (ucast d) (set_reg RCX (ucast cx) (set_reg RBX (ucast b) (set_reg RAX (ucast a) c))))"

definition store_unless_null :: "reg \<Rightarrow> reg \<Rightarrow> instr" where
  "store_unless_null r p c = (if gpr c p = 0 then c else c\<lparr>ram := write32 (gpr c p) (ucast (gpr c r)) (ram c)\<rparr>)"

definition cpuid_code :: "(u32 \<Rightarrow> u32 \<Rightarrow> u32 \<times> u32 \<times> u32 \<times> u32) \<Rightarrow> instr list" where
  "cpuid_code leaf = [pushq RBP, movq RSP RBP, pushq RBX, movq RCX R10, movq RDX R11, movq RDI RAX, cpuid_instr leaf,
     store_unless_null RAX RSI, store_unless_null RBX R11, store_unless_null RCX R10, store_unless_null RDX R8,
     popq RBX, movq RBP RSP, popq RBP, retq]"

subsection \<open>Ports\<close>

text \<open>The port instructions act on the devices beside the processor.\<close>

definition set_low :: "nat \<Rightarrow> u64 \<Rightarrow> u64 \<Rightarrow> u64" where
  "set_low w v old = (old AND NOT (mask w)) OR take_bit w v"

definition movw :: "reg \<Rightarrow> reg \<Rightarrow> instr" where
  "movw s d c = set_reg d (set_low 16 (gpr c s) (gpr c d)) c"

definition in8_code :: "'d hardware \<Rightarrow> cpu \<times> 'd \<Rightarrow> cpu \<times> 'd" where
  "in8_code hw = (\<lambda>(c, d). let c = movw RDI RDX c; (v, d) = in8 hw (ucast (gpr c RDX)) d
     in (retq (set_reg RAX (set_low 8 (ucast v) (gpr c RAX)) c), d))"

definition in32_code :: "'d hardware \<Rightarrow> cpu \<times> 'd \<Rightarrow> cpu \<times> 'd" where
  "in32_code hw = (\<lambda>(c, d). let c = movw RDI RDX c; (v, d) = in32 hw (ucast (gpr c RDX)) d
     in (retq (set_reg RAX (ucast v) c), d))"

definition out8_code :: "'d hardware \<Rightarrow> cpu \<times> 'd \<Rightarrow> cpu \<times> 'd" where
  "out8_code hw = (\<lambda>(c, d). let c = movw RSI RAX (movw RDI RDX c)
     in (retq c, out8 hw (ucast (gpr c RDX)) (ucast (gpr c RAX)) d))"

definition out32_code :: "'d hardware \<Rightarrow> cpu \<times> 'd \<Rightarrow> cpu \<times> 'd" where
  "out32_code hw = (\<lambda>(c, d). let c = movl RSI RAX (movw RDI RDX c)
     in (retq c, out32 hw (ucast (gpr c RDX)) (ucast (gpr c RAX)) d))"

text \<open>
  \<open>rep insw\<close> and \<open>rep outsw\<close> move RCX words between a port and memory, in the direction of DF; \<open>inw\<close> and
  \<open>outw\<close> are the 16-bit accesses of the devices.
\<close>

definition string_step :: "reg \<Rightarrow> instr" where
  "string_step r c = set_reg RCX (gpr c RCX - 1) (set_reg r (if flag DF c then gpr c r - 2 else gpr c r + 2) c)"

fun rep_insw :: "nat \<Rightarrow> (u16 \<Rightarrow> 'd \<Rightarrow> u16 \<times> 'd) \<Rightarrow> cpu \<times> 'd \<Rightarrow> cpu \<times> 'd" where
  "rep_insw 0 inw s = s"
| "rep_insw (Suc n) inw (c, d) = (case inw (ucast (gpr c RDX)) d of (v, d1) \<Rightarrow>
     rep_insw n inw (string_step RDI (c\<lparr>ram := store 2 (gpr c RDI) (unat v) (ram c)\<rparr>), d1))"

fun rep_outsw :: "nat \<Rightarrow> (u16 \<Rightarrow> u16 \<Rightarrow> 'd \<Rightarrow> 'd) \<Rightarrow> cpu \<times> 'd \<Rightarrow> cpu \<times> 'd" where
  "rep_outsw 0 outw s = s"
| "rep_outsw (Suc n) outw (c, d) =
     rep_outsw n outw (string_step RSI c, outw (ucast (gpr c RDX)) (read16 (ram c) (gpr c RSI)) d)"

definition ins16_code :: "(u16 \<Rightarrow> 'd \<Rightarrow> u16 \<times> 'd) \<Rightarrow> cpu \<times> 'd \<Rightarrow> cpu \<times> 'd" where
  "ins16_code inw = (\<lambda>(c, d). let c = run_code [cld, movq RDX RCX, movq RDI RDX, movq RSI RDI] c
     in apfst retq (rep_insw (unat (gpr c RCX)) inw (c, d)))"

definition outs16_code :: "(u16 \<Rightarrow> u16 \<Rightarrow> 'd \<Rightarrow> 'd) \<Rightarrow> cpu \<times> 'd \<Rightarrow> cpu \<times> 'd" where
  "outs16_code outw = (\<lambda>(c, d). let c = run_code [cld, movq RDX RCX, movq RDI RDX, movq RSI RDI] c
     in apfst retq (rep_outsw (unat (gpr c RCX)) outw (c, d)))"

text \<open>\<open>outs16\<close> writes the words of the buffer to the port, from the first to the last.\<close>

lemma rep_outsw_writes:
  "\<not> flag DF c \<Longrightarrow> snd (rep_outsw n outw (c, d)) =
    fold (\<lambda>i. outw (ucast (gpr c RDX)) (read16 (ram c) (gpr c RSI + 2 * word_of_nat i))) [0..<n] d"
proof (induction n arbitrary: c d)
  case (Suc n)
  let ?f = "\<lambda>i. outw (ucast (gpr c RDX)) (read16 (ram c) (gpr c RSI + 2 * word_of_nat i))"
  have "[0..<Suc n] = 0 # map Suc [0..<n]" by (simp add: upt_conv_Cons map_Suc_upt del: upt_Suc)
  then have "fold ?f [0..<Suc n] d = fold (\<lambda>i. ?f (Suc i)) [0..<n] (?f 0 d)" by (simp only: fold_simps fold_map comp_def)
  then show ?case using Suc by (simp add: string_step_def algebra_simps del: upt_Suc)
qed simp

lemma outs16_writes:
  "snd (outs16_code outw (set_reg RDX n (set_reg RSI buf (set_reg RDI port c)), d)) =
    fold (\<lambda>i. outw (ucast port) (read16 (ram c) (buf + 2 * word_of_nat i))) [0..<unat n] d"
  by (simp add: outs16_code_def Let_def instr_defs rep_outsw_writes DF_def)

lemma ucast_set_low:
  "w = LENGTH('a) \<Longrightarrow> w \<le> 64 \<Longrightarrow> ucast (set_low w v old) = (ucast v :: 'a :: len word)"
  by (rule bit_word_eqI) (auto simp: set_low_def bit_simps)

lemma port_codes:
  "in8 hw (ucast (gpr c RDI)) d = (v, d') \<Longrightarrow> snd (in8_code hw (c, d)) = d' \<and> ucast (gpr (fst (in8_code hw (c, d))) RAX) = v"
  "in32 hw (ucast (gpr c RDI)) d = (w, d') \<Longrightarrow> snd (in32_code hw (c, d)) = d' \<and> ucast (gpr (fst (in32_code hw (c, d))) RAX) = w"
  "snd (out8_code hw (c, d)) = out8 hw (ucast (gpr c RDI)) (ucast (gpr c RSI)) d"
  "snd (out32_code hw (c, d)) = out32 hw (ucast (gpr c RDI)) (ucast (gpr c RSI)) d"
proof -
  have u: "ucast (ucast x :: u64) = (x :: u8)" "ucast (ucast y :: u64) = (y :: u32)" for x y
    by (transfer, simp)+
  have t: "ucast (take_bit 32 x) = (ucast x :: u32)" for x :: u64 by (rule bit_word_eqI) (auto simp: bit_simps)
  have l: "ucast (set_low 16 x y) = (ucast x :: u8)" for x y by (rule bit_word_eqI) (auto simp: set_low_def bit_simps)
  show "in8 hw (ucast (gpr c RDI)) d = (v, d') \<Longrightarrow> snd (in8_code hw (c, d)) = d' \<and> ucast (gpr (fst (in8_code hw (c, d))) RAX) = v"
    "in32 hw (ucast (gpr c RDI)) d = (w, d') \<Longrightarrow> snd (in32_code hw (c, d)) = d' \<and> ucast (gpr (fst (in32_code hw (c, d))) RAX) = w"
    "snd (out8_code hw (c, d)) = out8 hw (ucast (gpr c RDI)) (ucast (gpr c RSI)) d"
    "snd (out32_code hw (c, d)) = out32 hw (ucast (gpr c RDI)) (ucast (gpr c RSI)) d"
    by (simp_all add: in8_code_def in32_code_def out8_code_def out32_code_def movw_def instr_defs ucast_set_low u t l Let_def)
qed

subsection \<open>Entry of the kernel and of a program\<close>

text \<open>A C function, from its first instruction to the one behind its call; \<open>None\<close> when it does not return.\<close>

type_synonym c_function = "cpu \<Rightarrow> cpu option"

text \<open>The boot program jumps to \<open>_vMain\<close>; when \<open>vMain\<close> returned the processor would halt for ever.\<close>

definition vMain_entry :: "c_function \<Rightarrow> addr \<Rightarrow> c_function" where
  "vMain_entry f ra c = (case f (push ra (set_reg RSP 0xffff800000600000 c)) of None \<Rightarrow> None | Some _ \<Rightarrow> None)"

definition iretq :: instr where
  "iretq c = (let c1 = drop_top c; c2 = drop_top c1; c3 = drop_top c2; c4 = drop_top c3
     in (set_reg RSP (top c3) c)\<lparr>pc := top c, seg := (seg c)(CS := ucast (top c1), SS := ucast (top c4)), eflags := top c2\<rparr>)"

definition USER_SS :: u64 where "USER_SS = 0x18 OR 0x03"
definition USER_CS :: u64 where "USER_CS = 0x20 OR 0x03"

definition clear_registers :: "instr list" where
  "clear_registers = map (\<lambda>r. xorq r r) [RAX, RBX, RCX, RDX, RDI, RSI, R8, R9, R10, R11, R12, R13, R14, R15]"

definition callApp :: "instr list" where
  "callApp = [push USER_SS, pushq RSI, push 0x202, push USER_CS, pushq RDI] @ clear_registers @ [iretq]"

text \<open>The words an interrupt return takes from the stack.\<close>

lemma iretq_words:
  assumes "words_at (gpr c RSP) [ip, cs, fl, sp, ss] (ram c)"
  shows "iretq c = (set_reg RSP sp c)\<lparr>pc := ip, seg := (seg c)(CS := ucast cs, SS := ucast ss), eflags := fl\<rparr>"
  using assms by (simp add: iretq_def top_def Let_def)

lemma clear_registers:
  "run_code clear_registers c = c\<lparr>gpr := (\<lambda>r. if r = RBP \<or> r = RSP then gpr c r else 0)\<rparr>"
proof -
  have "gpr (run_code clear_registers c) r = (if r = RBP \<or> r = RSP then gpr c r else 0)" for r
    by (cases r) (simp_all add: clear_registers_def instr_defs)
  then have "gpr (run_code clear_registers c) = (\<lambda>r. if r = RBP \<or> r = RSP then gpr c r else 0)" by (rule ext)
  moreover have "run_code clear_registers c = c\<lparr>gpr := gpr (run_code clear_registers c)\<rparr>"
    by (simp add: clear_registers_def instr_defs set_reg_def)
  ultimately show ?thesis by simp
qed

text \<open>
  C40: \<open>callApp\<close> starts a program: the processor goes to the entry in user mode, with the stack asked
  for, interrupts enabled and all other general registers 0 except RBP, which keeps the kernel's
  value although the comment says that all registers are cleared.
\<close>
theorem callApp_enters:
  "let c' = call_code callApp entry sp ra c in
     pc c' = entry \<and> gpr c' = (\<lambda>r. if r = RSP then sp else if r = RBP then gpr c RBP else 0) \<and>
     seg c' CS = 0x23 \<and> seg c' SS = 0x1b \<and> flag IF c' \<and> eflags c' = 0x202"
proof -
  let ?c = "push ra (set_reg RSI sp (set_reg RDI entry c))"
  let ?d = "pushes [USER_SS, sp, 0x202, USER_CS, entry] ?c"
  let ?e = "?d\<lparr>gpr := (\<lambda>r. if r = RBP \<or> r = RSP then gpr ?d r else 0)\<rparr>"
  have w: "words_at (gpr ?d RSP) [entry, USER_CS, 0x202, sp, USER_SS] (ram ?d)"
    using pushes_words [of ?c "[]" "[USER_SS, sp, 0x202, USER_CS, entry]"] by simp
  have "run_code [push USER_SS, pushq RSI, push 0x202, push USER_CS, pushq RDI] ?c = ?d"
    by (simp add: pushq_def pushes_Cons)
  then have "call_code callApp entry sp ra c = iretq ?e"
    by (simp only: call_code_def callApp_def clear_registers run_code_simps)
  also have "\<dots> = (set_reg RSP sp ?e)\<lparr>pc := entry, seg := (seg ?e)(CS := ucast USER_CS, SS := ucast USER_SS), eflags := 0x202\<rparr>"
    using w by (intro iretq_words) simp
  finally show ?thesis by (auto simp: USER_CS_def USER_SS_def flag_def IF_def fun_eq_iff)
qed

subsection \<open>Exceptions\<close>

definition SAVE_ALL_REGISTERS :: "instr list" where
  "SAVE_ALL_REGISTERS = map pushq [RAX, RBX, RCX, RDX, RDI, RSI, RBP]"

definition RESTORE_ALL_REGISTERS :: "instr list" where
  "RESTORE_ALL_REGISTERS = map popq [RBP, RSI, RDI, RDX, RCX, RBX, RAX]"

text \<open>The stub of an exception with an error code; \<open>ra\<close> is the address behind its \<open>call\<close>.\<close>

definition exception_handler :: "c_function \<Rightarrow> addr \<Rightarrow> c_function" where
  "exception_handler do_handler ra c =
     map_option (run_code (RESTORE_ALL_REGISTERS @ [addq 8 RSP, iretq]))
       (do_handler (push ra (run_code (SAVE_ALL_REGISTERS @ [movq RSP RDI]) c)))"

definition exception_handler_noerr :: "c_function \<Rightarrow> addr \<Rightarrow> c_function" where
  "exception_handler_noerr do_handler ra c = exception_handler do_handler ra (push 0 c)"

text \<open>
  What the processor does before: it aligns the stack of the gate, saves the interrupted state on
  it, with an error code for some exceptions, and goes to the handler with interrupts off.
\<close>

definition raise_exception :: "addr \<Rightarrow> addr \<Rightarrow> u64 option \<Rightarrow> instr" where
  "raise_exception handler stack err c =
     (let saved = [ucast (seg c SS), gpr c RSP, eflags c, ucast (seg c CS), pc c] @ (case err of None \<Rightarrow> [] | Some e \<Rightarrow> [e])
      in cli ((pushes saved (set_reg RSP (stack AND NOT 0xf) c))
           \<lparr>pc := handler, seg := (seg c)(CS := KERNEL_CS, SS := (if seg c CS AND 3 = 0 then seg c SS else 0))\<rparr>))"

text \<open>The structure the handler is given, read in the order of its members.\<close>

definition frame_at :: "mem \<Rightarrow> addr \<Rightarrow> interrupt_frame" where
  "frame_at h a = \<lparr>rbp = read64 h a, rsi = read64 h (a + 8), rdi = read64 h (a + 16), rdx = read64 h (a + 24),
     rcx = read64 h (a + 32), rbx = read64 h (a + 40), rax = read64 h (a + 48), error = read64 h (a + 56),
     rip = read64 h (a + 64), rsp = read64 h (a + 72), rflags = read64 h (a + 80)\<rparr>"

definition saved_words :: "u64 \<Rightarrow> cpu \<Rightarrow> u64 list" where
  "saved_words err c = [gpr c RBP, gpr c RSI, gpr c RDI, gpr c RDX, gpr c RCX, gpr c RBX, gpr c RAX, err,
     pc c, ucast (seg c CS), eflags c, gpr c RSP, ucast (seg c SS)]"

text \<open>The processor at the first instruction of the C function.\<close>

definition entered :: "addr \<Rightarrow> addr \<Rightarrow> u64 \<Rightarrow> addr \<Rightarrow> cpu \<Rightarrow> cpu" where
  "entered handler stack err ra c =
     push ra (run_code (SAVE_ALL_REGISTERS @ [movq RSP RDI]) (raise_exception handler stack (Some err) c))"

lemma raised_facts:
  fixes c handler stack err
  defines "e \<equiv> raise_exception handler stack (Some err) c" and "a \<equiv> (stack AND NOT 0xf) - 48"
  shows "gpr e = (gpr c)(RSP := a)" "creg e = creg c" "x \<notin> bytes_at a 48 \<Longrightarrow> ram e x = ram c x"
    "words_at a [err, pc c, ucast (seg c CS), eflags c, gpr c RSP, ucast (seg c SS)] (ram e)"
proof -
  let ?c0 = "set_reg RSP (stack AND NOT 0xf) c"
  let ?vs = "[ucast (seg c SS), gpr c RSP, eflags c, ucast (seg c CS), pc c, err]"
  have r: "ram e = ram (pushes ?vs ?c0)" by (simp add: e_def raise_exception_def cli_def)
  show "words_at a [err, pc c, ucast (seg c CS), eflags c, gpr c RSP, ucast (seg c SS)] (ram e)"
    using pushes_words [of ?c0 "[]" ?vs] unfolding r by (simp add: a_def)
  show "x \<notin> bytes_at a 48 \<Longrightarrow> ram e x = ram c x"
    using pushes_other [of x ?c0 ?vs] unfolding r by (simp add: a_def)
qed (simp_all add: e_def a_def raise_exception_def cli_def)

lemma entered_facts:
  fixes c handler stack err ra
  defines "e \<equiv> entered handler stack err ra c" and "a \<equiv> (stack AND NOT 0xf) - 112"
  shows "gpr e = (gpr c)(RSP := a, RDI := a + 8)" "creg e = creg c"
    "words_at a (ra # saved_words err c) (ram e)" "x \<notin> bytes_at a 112 \<Longrightarrow> ram e x = ram c x"
proof -
  let ?r = "raise_exception handler stack (Some err) c" and ?rs = "[RAX, RBX, RCX, RDX, RDI, RSI, RBP]"
  let ?vs = "map (gpr c) ?rs @ [ra]"
  note r = raised_facts [where handler = handler and stack = stack and err = err and c = c]
  have m: "map (gpr ?r) ?rs = map (gpr c) ?rs" by (simp add: r)
  have "run_code (map pushq ?rs) ?r = pushes (map (gpr c) ?rs) ?r"
    unfolding m [symmetric] by (rule pushq_pushes) simp
  then have "e = push ra (movq RSP RDI (pushes (map (gpr c) ?rs) ?r))"
    by (simp only: e_def entered_def SAVE_ALL_REGISTERS_def run_code_simps)
  then have e: "ram e = ram (pushes ?vs ?r)" "gpr e = (gpr (pushes ?vs ?r))(RDI := gpr (pushes ?vs ?r) RSP + 8)" "creg e = creg ?r"
    by (simp_all add: pushes_append pushes_Cons movq_def fun_upd_twist)
  show "words_at a (ra # saved_words err c) (ram e)"
    using pushes_words [of ?r "[err, pc c, ucast (seg c CS), eflags c, gpr c RSP, ucast (seg c SS)]" ?vs] r
    unfolding e by (simp add: a_def saved_words_def)
  have b: "bytes_at a 112 = bytes_at a 64 \<union> bytes_at ((stack AND NOT 0xf) - 48) 48"
    using bytes_at_add [of a 64 48] by (simp add: a_def)
  show "x \<notin> bytes_at a 112 \<Longrightarrow> ram e x = ram c x"
    using pushes_other [of x ?r ?vs] r(1,3) unfolding e b by (simp add: a_def)
  show "gpr e = (gpr c)(RSP := a, RDI := a + 8)" "creg e = creg c" using r unfolding e by (simp_all add: a_def)
qed

text \<open>The way back: the stub undoes what was pushed.\<close>

lemma resume:
  assumes "words_at a (saved_words err c) (ram d)" and "gpr d RSP = a"
  shows "run_code (RESTORE_ALL_REGISTERS @ [addq 8 RSP, iretq]) d = d\<lparr>pc := pc c, eflags := eflags c,
    seg := (seg d)(CS := seg c CS, SS := seg c SS),
    gpr := (gpr d)(RBP := gpr c RBP, RSI := gpr c RSI, RDI := gpr c RDI, RDX := gpr c RDX, RCX := gpr c RCX,
      RBX := gpr c RBX, RAX := gpr c RAX, RSP := gpr c RSP)\<rparr>"
proof -
  let ?d = "set_reg RSP (a + 56) (set_reg RAX (gpr c RAX) (set_reg RBX (gpr c RBX) (set_reg RCX (gpr c RCX) (set_reg RDX (gpr c RDX)
      (set_reg RDI (gpr c RDI) (set_reg RSI (gpr c RSI) (set_reg RBP (gpr c RBP) d)))))))"
  have u: "ucast (ucast x :: u64) = (x :: u16)" for x by transfer simp
  have "run_code RESTORE_ALL_REGISTERS d = ?d"
    using assms by (simp add: RESTORE_ALL_REGISTERS_def popq_def drop_top_def top_def saved_words_def set_reg_def fun_upd_twist algebra_simps)
  moreover have "words_at (gpr (addq 8 RSP ?d) RSP) [pc c, ucast (seg c CS), eflags c, gpr c RSP, ucast (seg c SS)] (ram (addq 8 RSP ?d))"
    using assms by (simp add: addq_def saved_words_def algebra_simps)
  ultimately show ?thesis
    using iretq_words [of "addq 8 RSP ?d"] by (simp add: u) (simp add: addq_def set_reg_def fun_upd_twist)
qed

text \<open>
  What the C compiler promises of a function: it returns to its caller with the stack pointer and
  the callee-saved registers as they were, and it leaves the caller's \<open>n\<close> bytes above its return
  address alone.
\<close>

definition abi_return :: "nat \<Rightarrow> cpu \<Rightarrow> cpu \<Rightarrow> bool" where
  "abi_return n c c' \<longleftrightarrow> pc c' = top c \<and> gpr c' RSP = gpr c RSP + 8 \<and>
     (\<forall>r \<in> {RBX, RBP, R12, R13, R14, R15}. gpr c' r = gpr c r) \<and>
     (\<forall>x \<in> bytes_at (gpr c RSP + 8) n. ram c' x = ram c x)"

lemma words_frame: "words_at a (saved_words err c) h \<Longrightarrow> frame_at h a = \<lparr>rbp = gpr c RBP, rsi = gpr c RSI, rdi = gpr c RDI,
    rdx = gpr c RDX, rcx = gpr c RCX, rbx = gpr c RBX, rax = gpr c RAX, error = err, rip = pc c,
    rsp = ucast (seg c CS), rflags = eflags c\<rparr>"
  by (simp add: frame_at_def saved_words_def algebra_simps)

lemma stub_transparent:
  assumes "do_handler (entered handler stack err ra c) = Some d" and "abi_return 104 (entered handler stack err ra c) d"
  shows "frame_at (ram (entered handler stack err ra c)) (gpr (entered handler stack err ra c) RDI) =
      \<lparr>rbp = gpr c RBP, rsi = gpr c RSI, rdi = gpr c RDI, rdx = gpr c RDX, rcx = gpr c RCX, rbx = gpr c RBX, rax = gpr c RAX,
       error = err, rip = pc c, rsp = ucast (seg c CS), rflags = eflags c\<rparr> \<and>
    (\<exists>c'. exception_handler do_handler ra (raise_exception handler stack (Some err) c) = Some c' \<and>
      pc c' = pc c \<and> eflags c' = eflags c \<and> seg c' CS = seg c CS \<and> seg c' SS = seg c SS \<and> ram c' = ram d \<and>
      (\<forall>r. r \<notin> {R8, R9, R10, R11} \<longrightarrow> gpr c' r = gpr c r) \<and> (\<forall>r \<in> {R8, R9, R10, R11}. gpr c' r = gpr d r))"
proof -
  let ?e = "entered handler stack err ra c" and ?a = "(stack AND NOT 0xf) - 104"
  note e = entered_facts [where handler = handler and stack = stack and err = err and ra = ra and c = c]
  have w: "words_at ?a (saved_words err c) (ram ?e)" using e(3) by simp
  then have f: "frame_at (ram ?e) (gpr ?e RDI) = \<lparr>rbp = gpr c RBP, rsi = gpr c RSI, rdi = gpr c RDI,
    rdx = gpr c RDX, rcx = gpr c RCX, rbx = gpr c RBX, rax = gpr c RAX, error = err, rip = pc c,
    rsp = ucast (seg c CS), rflags = eflags c\<rparr>" by (simp add: e(1) words_frame)
  have "words_at ?a (saved_words err c) (ram d) = words_at ?a (saved_words err c) (ram ?e)"
    using assms(2) by (intro words_at_cong) (simp add: abi_return_def e(1) saved_words_def)
  then have "run_code (RESTORE_ALL_REGISTERS @ [addq 8 RSP, iretq]) d = d\<lparr>pc := pc c, eflags := eflags c,
    seg := (seg d)(CS := seg c CS, SS := seg c SS),
    gpr := (gpr d)(RBP := gpr c RBP, RSI := gpr c RSI, RDI := gpr c RDI, RDX := gpr c RDX, RCX := gpr c RCX,
      RBX := gpr c RBX, RAX := gpr c RAX, RSP := gpr c RSP)\<rparr>" (is "_ = ?c'")
    using w assms(2) by (intro resume) (simp_all add: abi_return_def e(1))
  then have "exception_handler do_handler ra (raise_exception handler stack (Some err) c) = Some ?c'"
    using assms(1) by (simp add: exception_handler_def entered_def)
  moreover have "gpr ?c' r = gpr c r" if "r \<notin> {R8, R9, R10, R11}" for r
    using that assms(2) by (cases r) (simp_all add: abi_return_def e(1))
  ultimately show ?thesis using f by simp
qed


text \<open>
  A handler that uses R8 as scratch: the interrupted code finds another value there when it goes on.
\<close>

definition demo_program :: cpu where
  "demo_program = \<lparr>gpr = (\<lambda>_. 5)(RSP := 0x7000), eflags = 0x202, pc = 0x400000, seg = (\<lambda>_. 0)(CS := 0x23, SS := 0x1b),
     creg = (\<lambda>_. 0)(CR2 := 0x400000, CR3 := 0x1000), msrs = \<lambda>_. 0, ram = heap (lay demo_blocks)\<rparr>"


text \<open>
  The stack at the first instruction of the C function is a multiple of 16; the calling convention
  asks for one that is 8 more, as it is behind a \<open>call\<close> with an aligned stack.
\<close>

lemma entered_alignment: "gpr (entered handler stack err ra c) RSP AND 0xf = 0"
proof -
  have "stack AND NOT (mask 4) = push_bit 4 (drop_bit 4 stack)" by (rule bit_word_eqI) (auto simp: bit_simps)
  then have "stack AND NOT 0xf = 16 * drop_bit 4 stack" by (simp add: mask_numeral push_bit_eq_mult mult.commute)
  then have "(stack AND NOT 0xf) - 112 = push_bit 4 (drop_bit 4 stack - 7)"
    by (simp add: push_bit_eq_mult algebra_simps)
  moreover have "push_bit 4 w AND 0xf = 0" for w :: u64
    using take_bit_push_bit [of 4 4 w] by (simp add: take_bit_eq_mask mask_numeral)
  ultimately show ?thesis by (simp add: entered_facts(1))
qed

subsection \<open>Demand paging\<close>

text \<open>
  \<open>do_page_fault\<close> as a C function on the processor: it works on memory with the allocator's list head
  in \<open>m\<close>, the control registers and the frame RDI leads to, and leaves what it likes in
  the registers a caller has to save.
\<close>

definition page_fault_function :: "u64 \<Rightarrow> mem_state \<Rightarrow> (reg \<Rightarrow> u64) \<Rightarrow> c_function" where
  "page_fault_function brk m scratch c =
     (case do_page_fault (creg c CR2) (creg c CR3) brk (frame_at (ram c) (gpr c RDI)) (m\<lparr>heap := ram c\<rparr>) of
        Some (_, Returns, s) \<Rightarrow> Some (retq (c\<lparr>ram := heap s,
          gpr := (\<lambda>r. if r \<in> {RAX, RCX, RDX, RSI, RDI, R8, R9, R10, R11} then scratch r else gpr c r)\<rparr>))
      | _ \<Rightarrow> None)"



end
