(* ===== verification/Memcmp.thy ===== *)
theory Memcmp
  imports Cpu
begin

unbundle bit_operations_syntax

text \<open>
  \<open>memcmp\<close> of stdlib/memcmp.s, instruction by instruction: whole words of eight bytes first, then the rest
  byte by byte.
\<close>

subsection \<open>The string instructions\<close>

text \<open>\<open>cmps\<close> compares the elements of \<open>w\<close> bytes at RSI and RDI and moves both pointers in the direction of DF.\<close>

definition cmps :: "nat \<Rightarrow> instr" where
  "cmps w c =
     (let d = (if flag DF c then - word_of_nat w else word_of_nat w);
          c1 = set_flag ZF (load w (ram c) (gpr c RSI) = load w (ram c) (gpr c RDI)) c
      in set_reg RDI (gpr c RDI + d) (set_reg RSI (gpr c RSI + d) c1))"

text \<open>\<open>repe\<close> goes on while RCX is not 0 and the elements are equal.\<close>

fun repe_loop :: "nat \<Rightarrow> nat \<Rightarrow> instr" where
  "repe_loop 0 w c = c"
| "repe_loop (Suc n) w c =
     (let c1 = cmps w c; c2 = set_reg RCX (gpr c1 RCX - 1) c1 in if flag ZF c2 then repe_loop n w c2 else c2)"

definition repe_cmpsq :: instr where "repe_cmpsq c = repe_loop (unat (gpr c RCX)) 8 c"
definition repe_cmpsb :: instr where "repe_cmpsb c = repe_loop (unat (gpr c RCX)) 1 c"

subsection \<open>The routine\<close>

definition load_q :: "u64 \<Rightarrow> reg \<Rightarrow> reg \<Rightarrow> instr" where
  "load_q off b r c = set_reg r (read64 (ram c) (gpr c b + off)) c"

definition sub_q :: "u64 \<Rightarrow> reg \<Rightarrow> reg \<Rightarrow> instr" where
  "sub_q off b r c = set_result r (gpr c r - read64 (ram c) (gpr c b + off)) c"

text \<open>The byte forms keep the upper bits of their destination.\<close>

definition set_low8 :: "u8 \<Rightarrow> u64 \<Rightarrow> u64" where
  "set_low8 b v = (v AND NOT 0xff) OR ucast b"

definition load_b :: "u64 \<Rightarrow> reg \<Rightarrow> reg \<Rightarrow> instr" where
  "load_b off b r c = set_reg r (set_low8 (ram c (gpr c b + off)) (gpr c r)) c"

definition sub_b :: "u64 \<Rightarrow> reg \<Rightarrow> reg \<Rightarrow> instr" where
  "sub_b off b r c = (let v = ucast (gpr c r) - ram c (gpr c b + off) in set_flag ZF (v = 0) (set_reg r (set_low8 v (gpr c r)) c))"

definition memcmp_words :: "instr list" where
  "memcmp_words = [pushq RBP, movq RSP RBP, pushq RDI, pushq RSI, cld, movq RDX RCX, shrq 3 RCX, pushq RCX, repe_cmpsq]"

definition memcmp_rest :: "instr list" where
  "memcmp_rest = [popq RCX, shlq 3 RCX, subq RCX RDX, cmpq0 RDX]"

definition memcmp_bytes :: "instr list" where
  "memcmp_bytes = [movq RDX RCX, repe_cmpsb]"

definition Lerr08 :: "instr list" where
  "Lerr08 = [popq RCX, load_q (-8) RDI RAX, sub_q (-8) RSI RAX]"

definition Lend1 :: "instr list" where
  "Lend1 = [set_reg RAX 0, load_b (-1) RDI RAX, sub_b (-1) RSI RAX]"

definition Lend :: "instr list" where
  "Lend = [popq RSI, popq RDI, movq RBP RSP, popq RBP, retq]"

definition memcmp_code :: instr where
  "memcmp_code c =
     (let c = run_code memcmp_words c in
      if \<not> flag ZF c then run_code (Lerr08 @ Lend) c
      else let c = run_code memcmp_rest c in
           if flag ZF c then run_code (Lerr08 @ Lend) c
           else run_code (memcmp_bytes @ Lend1 @ Lend) c)"

text \<open>The C caller puts the arguments into RDI, RSI and RDX and takes an \<open>int\<close>, the low half of RAX.\<close>

definition memcmp :: "addr \<Rightarrow> addr \<Rightarrow> u64 \<Rightarrow> cpu \<Rightarrow> u32 \<times> cpu" where
  "memcmp buf1 buf2 n c =
     (let c1 = memcmp_code (set_reg RDX n (set_reg RSI buf2 (set_reg RDI buf1 c))) in (ucast (gpr c1 RAX), c1))"

subsection \<open>The loops\<close>

abbreviation same :: "nat \<Rightarrow> mem \<Rightarrow> addr \<Rightarrow> addr \<Rightarrow> nat \<Rightarrow> bool" where
  "same w h a b i \<equiv> load w h (a + word_of_nat (w * i)) = load w h (b + word_of_nat (w * i))"

definition compared :: "nat \<Rightarrow> nat \<Rightarrow> bool \<Rightarrow> instr" where
  "compared w k z c = (set_flag ZF z c)\<lparr>gpr := (gpr c)(RSI := gpr c RSI + word_of_nat (w * k),
     RDI := gpr c RDI + word_of_nat (w * k), RCX := gpr c RCX - word_of_nat k)\<rparr>"

lemma cmps_forward:
  assumes "\<not> flag DF c"
  shows "(let c1 = cmps w c in set_reg RCX (gpr c1 RCX - 1) c1) = compared w 1 (same w (ram c) (gpr c RSI) (gpr c RDI) 0) c"
  using assms by (simp add: cmps_def compared_def set_reg_def set_flag_def Let_def fun_upd_twist)

lemma compared_simps [simp]:
  "gpr (compared w k z c) = (gpr c)(RSI := gpr c RSI + word_of_nat (w * k), RDI := gpr c RDI + word_of_nat (w * k), RCX := gpr c RCX - word_of_nat k)"
  "ram (compared w k z c) = ram c" "flag n (compared w k z c) = flag n (set_flag ZF z c)"
  by (simp_all add: compared_def flag_def set_flag_def)

lemma compared_0: "compared w 0 (flag ZF c) c = c"
  by (simp add: compared_def)

lemma compared_compared: "compared w k z (compared w j y c) = compared w (j + k) z c"
  by (auto simp: compared_def set_flag_def algebra_simps fun_eq_iff)

lemma repe_step:
  assumes "\<not> flag DF c"
  shows "repe_loop (Suc n) w c = (if same w (ram c) (gpr c RSI) (gpr c RDI) 0
    then repe_loop n w (compared w 1 True c) else compared w 1 False c)"
  using cmps_forward [OF assms, of w] unfolding repe_loop.simps Let_def by (simp add: ZF_def)

lemma repe_same:
  assumes "\<not> flag DF c" "0 < n" "\<And>i. i < n \<Longrightarrow> same w (ram c) (gpr c RSI) (gpr c RDI) i"
  shows "repe_loop n w c = compared w n True c"
  using assms
proof (induction n arbitrary: c)
  case (Suc n)
  show ?case
  proof (cases n)
    case 0
    then show ?thesis using Suc.prems(3) [of 0] repe_step [OF Suc.prems(1), of 0 w] by simp
  next
    case (Suc m)
    let ?c = "compared w 1 True c"
    have "same w (ram ?c) (gpr ?c RSI) (gpr ?c RDI) i" if "i < n" for i
      using Suc.prems(3) [of "Suc i"] that by (simp add: algebra_simps)
    then have "repe_loop n w ?c = compared w n True ?c"
      using Suc.prems(1) Suc by (intro Suc.IH) (simp_all add: ZF_def DF_def)
    then show ?thesis using Suc.prems(3) [of 0] repe_step [OF Suc.prems(1), of n w] by (simp add: compared_compared)
  qed
qed simp

lemma repe_differ:
  assumes "\<not> flag DF c" "k < n" "\<And>i. i < k \<Longrightarrow> same w (ram c) (gpr c RSI) (gpr c RDI) i"
    "\<not> same w (ram c) (gpr c RSI) (gpr c RDI) k"
  shows "repe_loop n w c = compared w (Suc k) False c"
  using assms
proof (induction n arbitrary: c k)
  case (Suc n)
  show ?case
  proof (cases k)
    case 0
    then show ?thesis using Suc.prems(4) repe_step [OF Suc.prems(1), of n w] by simp
  next
    case (Suc j)
    let ?c = "compared w 1 True c"
    have "repe_loop n w ?c = compared w (Suc j) False ?c"
    proof (rule Suc.IH)
      show "same w (ram ?c) (gpr ?c RSI) (gpr ?c RDI) i" if "i < j" for i
        using Suc.prems(3) [of "Suc i"] Suc that by (simp add: algebra_simps)
      show "\<not> same w (ram ?c) (gpr ?c RSI) (gpr ?c RDI) j" using Suc.prems(4) Suc by (simp add: algebra_simps)
    qed (use Suc.prems Suc in \<open>simp_all add: ZF_def DF_def\<close>)
    then show ?thesis using Suc.prems(3) [of 0] Suc repe_step [OF Suc.prems(1), of n w] by (simp add: compared_compared)
  qed
qed simp

subsection \<open>Bytes and words\<close>

lemma load_eq_iff: "load w h a = load w h b \<longleftrightarrow> (\<forall>i < w. h (a + word_of_nat i) = h (b + word_of_nat i))"
proof (induction w arbitrary: a b)
  case (Suc w)
  have "unat x + 256 * m = unat y + 256 * n \<longleftrightarrow> x = y \<and> m = n" for x y :: u8 and m n :: nat
  proof
    assume e: "unat x + 256 * m = unat y + 256 * n"
    have "(unat x + 256 * m) mod 256 = unat x" "(unat y + 256 * n) mod 256 = unat y"
      using unat_u8_lt [of x] unat_u8_lt [of y] by simp_all
    then have "unat x = unat y" using e by metis
    then show "x = y \<and> m = n" using e by (simp add: word_unat_eq_iff)
  qed simp
  then have "load (Suc w) h a = load (Suc w) h b \<longleftrightarrow> h a = h b \<and> load w h (a + 1) = load w h (b + 1)" by simp
  also have "\<dots> \<longleftrightarrow> h a = h b \<and> (\<forall>i < w. h (a + 1 + word_of_nat i) = h (b + 1 + word_of_nat i))"
    unfolding Suc.IH ..
  also have "\<dots> \<longleftrightarrow> (\<forall>i < Suc w. h (a + word_of_nat i) = h (b + word_of_nat i))"
    by (simp add: All_less_Suc2 algebra_simps)
  finally show ?case .
qed simp

lemma same_words: "same 8 h a b i \<longleftrightarrow> read64 h (a + word_of_nat (8 * i)) = read64 h (b + word_of_nat (8 * i))"
proof -
  have "load 8 h x = unat (read64 h x)" for x using load_bound [of 8 h x] by (simp add: read64_def unat_of_nat)
  then show ?thesis by (simp add: word_unat_eq_iff)
qed

lemma low_half: "ucast (read64 h a) = read32 h a"
proof -
  have "load 8 h a = load 4 h a + 4294967296 * load 4 h (a + 4)" by (simp add: load_numeral algebra_simps)
  moreover have "ucast (word_of_nat m :: u64) = (word_of_nat m :: u32)" for m by transfer simp
  moreover have "word_of_nat (load 4 h a + 4294967296 * k) = (word_of_nat (load 4 h a) :: u32)" for k
    by (intro word_eq_unatI) (simp only: unat_of_nat len_bit0 len_bit1 len_num1, simp)
  ultimately show ?thesis unfolding read64_def read32_def by metis
qed

text \<open>Equality of the blocks, word by word with the rest byte by byte.\<close>

lemma same_split:
  fixes n q r :: nat
  assumes "n = 8 * q + r"
  shows "(\<forall>i < n. h (a + word_of_nat i) = h (b + word_of_nat i)) \<longleftrightarrow>
    (\<forall>i < q. same 8 h a b i) \<and> (\<forall>j < r. same 1 h (a + word_of_nat (8 * q)) (b + word_of_nat (8 * q)) j)" (is "?L \<longleftrightarrow> ?Q \<and> ?R")
proof -
  have q: "same 8 h a b i \<longleftrightarrow> (\<forall>j < 8. h (a + word_of_nat (8 * i + j)) = h (b + word_of_nat (8 * i + j)))" for i
    by (simp add: load_eq_iff algebra_simps)
  have r: "same 1 h (a + word_of_nat (8 * q)) (b + word_of_nat (8 * q)) j \<longleftrightarrow>
      h (a + word_of_nat (8 * q + j)) = h (b + word_of_nat (8 * q + j))" for j
    using load_eq_iff [of 1 h "a + word_of_nat (8 * q) + word_of_nat (1 * j)" "b + word_of_nat (8 * q) + word_of_nat (1 * j)"]
    by (simp add: algebra_simps)
  show ?thesis
  proof
    assume ?L
    then show "?Q \<and> ?R" unfolding q r assms by (auto simp del: of_nat_add of_nat_mult)
  next
    assume R: "?Q \<and> ?R"
    show ?L
    proof (intro allI impI)
      fix i assume i: "i < n"
      show "h (a + word_of_nat i) = h (b + word_of_nat i)"
      proof (cases "i < 8 * q")
        case True
        then have "i div 8 < q" "i mod 8 < 8" "8 * (i div 8) + i mod 8 = i" by auto
        then show ?thesis using R unfolding q by metis
      next
        case False
        then have "i - 8 * q < r" "8 * q + (i - 8 * q) = i" using i assms by auto
        then show ?thesis using R unfolding r by metis
      qed
    qed
  qed
qed

subsection \<open>Entry and return\<close>

text \<open>All returns go through the frame pointer.\<close>

definition returned :: "cpu \<Rightarrow> cpu \<Rightarrow> bool" where
  "returned c c' \<longleftrightarrow> pc c' = top c \<and> gpr c' RSP = gpr c RSP + 8 \<and>
     (\<forall>r. r \<notin> {RAX, RCX, RDX, RSI, RDI, RSP} \<longrightarrow> gpr c' r = gpr c r) \<and>
     (\<forall>x. x \<notin> bytes_at (gpr c RSP - 32) 32 \<longrightarrow> ram c' x = ram c x)"

definition in_frame :: "cpu \<Rightarrow> cpu \<Rightarrow> bool" where
  "in_frame c d \<longleftrightarrow> gpr d RBP = gpr c RSP - 8 \<and> words_at (gpr c RSP - 8) [gpr c RBP, top c] (ram d) \<and>
     (\<forall>r. r \<notin> {RAX, RCX, RDX, RSI, RDI, RSP, RBP} \<longrightarrow> gpr d r = gpr c r) \<and>
     (\<forall>x. x \<notin> bytes_at (gpr c RSP - 32) 32 \<longrightarrow> ram d x = ram c x)"

lemma Lend_returns:
  assumes "in_frame c d"
  shows "returned c (run_code Lend d)" "gpr (run_code Lend d) RAX = gpr d RAX"
proof -
  show "returned c (run_code Lend d)"
    using assms by (auto simp: in_frame_def returned_def Lend_def instr_defs top_def)
qed (simp add: Lend_def instr_defs)

lemma in_frame_update:
  assumes "in_frame c d" "\<And>r. r \<notin> {RAX, RCX, RDX, RSI, RDI, RSP} \<Longrightarrow> gpr e r = gpr d r" "ram e = ram d"
  shows "in_frame c e"
  using assms by (simp add: in_frame_def)

lemma frame_bytes: "bytes_at (s - 8) 8 \<subseteq> bytes_at (s - 32) 32" "bytes_at (s - 16) 8 \<subseteq> bytes_at (s - 32) 32"
  "bytes_at (s - 24) 8 \<subseteq> bytes_at (s - 32) 32" "bytes_at (s - 32) 8 \<subseteq> bytes_at (s - 32 :: addr) 32"
  using bytes_at_shift [of 24 8 32 "s - 32"] bytes_at_shift [of 16 8 32 "s - 32"] bytes_at_shift [of 8 8 32 "s - 32"]
    bytes_at_shift [of 0 8 32 "s - 32"] by (simp_all add: algebra_simps)

text \<open>The code before the first loop.\<close>

definition memcmp_entry :: "cpu \<Rightarrow> cpu" where
  "memcmp_entry c = run_code [pushq RBP, movq RSP RBP, pushq RDI, pushq RSI, cld, movq RDX RCX, shrq 3 RCX, pushq RCX] c"

lemma memcmp_entry:
  fixes c
  defines "e \<equiv> memcmp_entry c"
  shows "in_frame c e" "gpr e RSI = gpr c RSI" "gpr e RDI = gpr c RDI" "gpr e RDX = gpr c RDX"
    "gpr e RCX = drop_bit 3 (gpr c RDX)" "gpr e RSP = gpr c RSP - 32" "top e = drop_bit 3 (gpr c RDX)"
    "\<not> flag DF e" "flag ZF e \<longleftrightarrow> drop_bit 3 (gpr c RDX) = 0"
    "run_code memcmp_words c = repe_cmpsq e"
proof -
  let ?s = "gpr c RSP"
  have r: "ram e = write64 (?s - 32) (drop_bit 3 (gpr c RDX)) (write64 (?s - 24) (gpr c RSI) (write64 (?s - 16) (gpr c RDI)
      (write64 (?s - 8) (gpr c RBP) (ram c))))"
    by (simp add: e_def memcmp_entry_def instr_defs)
  have "words_at ?s [top c] (ram c)" by (simp add: top_def)
  then have "words_at (?s - 8) [gpr c RBP, top c] (write64 (?s - 8) (gpr c RBP) (ram c))" by (intro words_push) simp_all
  then have "words_at (?s - 16) [gpr c RDI, gpr c RBP, top c] (write64 (?s - 16) (gpr c RDI) (write64 (?s - 8) (gpr c RBP) (ram c)))"
    by (intro words_push) simp_all
  then have "words_at (?s - 24) [gpr c RSI, gpr c RDI, gpr c RBP, top c] (write64 (?s - 24) (gpr c RSI)
      (write64 (?s - 16) (gpr c RDI) (write64 (?s - 8) (gpr c RBP) (ram c))))"
    by (intro words_push) simp_all
  then have "words_at (?s - 32) [drop_bit 3 (gpr c RDX), gpr c RSI, gpr c RDI, gpr c RBP, top c] (ram e)"
    unfolding r by (intro words_push) simp_all
  then have w: "words_at (?s - 8) [gpr c RBP, top c] (ram e)" "read64 (ram e) (?s - 32) = drop_bit 3 (gpr c RDX)" by simp_all
  have o: "ram e x = ram c x" if "x \<notin> bytes_at (?s - 32) 32" for x
    unfolding r using that frame_bytes [of ?s] by (simp add: write64_other subset_eq) (metis write64_other)
  show "in_frame c e" using w o by (auto simp: in_frame_def e_def memcmp_entry_def instr_defs)
  show "top e = drop_bit 3 (gpr c RDX)" using w(2) by (simp add: top_def) (simp add: e_def memcmp_entry_def instr_defs)
  show "\<not> flag DF e" "flag ZF e \<longleftrightarrow> drop_bit 3 (gpr c RDX) = 0"
    by (simp_all add: e_def memcmp_entry_def instr_defs flag_def set_flag_def bit_simps ZF_def DF_def)
qed (simp_all add: e_def memcmp_entry_def memcmp_words_def instr_defs)

subsection \<open>The result\<close>

text \<open>What the two exits leave in RAX: the difference of the words or of the bytes before the pointers.\<close>

lemma err08_result:
  assumes "in_frame c d"
  shows "returned c (run_code (Lerr08 @ Lend) d)"
    "gpr (run_code (Lerr08 @ Lend) d) RAX = read64 (ram d) (gpr d RDI - 8) - read64 (ram d) (gpr d RSI - 8)"
proof -
  have f: "in_frame c (run_code Lerr08 d)"
    by (rule in_frame_update [OF assms]) (auto simp: Lerr08_def instr_defs load_q_def sub_q_def)
  have "gpr (run_code Lerr08 d) RAX = read64 (ram d) (gpr d RDI - 8) - read64 (ram d) (gpr d RSI - 8)"
    by (simp add: Lerr08_def instr_defs load_q_def sub_q_def)
  then show "returned c (run_code (Lerr08 @ Lend) d)"
    "gpr (run_code (Lerr08 @ Lend) d) RAX = read64 (ram d) (gpr d RDI - 8) - read64 (ram d) (gpr d RSI - 8)"
    using Lend_returns [OF f] by simp_all
qed

lemma set_low8_0: "set_low8 b 0 = ucast b" "set_low8 b (ucast (x :: u8)) = ucast b"
proof -
  have "(ucast x :: u64) AND NOT 0xff = 0"
  proof (rule bit_word_eqI)
    fix n assume "n < LENGTH(64)"
    have "bit (NOT (0xff :: u64)) n \<longrightarrow> 8 \<le> n" by (cases "n < 8") (auto simp: less_Suc_eq numeral_eq_Suc bit_simps)
    then show "bit ((ucast x :: u64) AND NOT 0xff) n = bit (0 :: u64) n" by (auto simp: bit_simps dest: bit_imp_le_length)
  qed
  then show "set_low8 b 0 = ucast b" "set_low8 b (ucast x) = ucast b" by (simp_all add: set_low8_def)
qed

lemma ucast_u8_u64: "ucast (ucast x :: u64) = (x :: u8)"
  by transfer simp

lemma end1_result:
  assumes "in_frame c d"
  shows "returned c (run_code (Lend1 @ Lend) d)"
    "gpr (run_code (Lend1 @ Lend) d) RAX = ucast (ram d (gpr d RDI - 1) - ram d (gpr d RSI - 1))"
proof -
  have f: "in_frame c (run_code Lend1 d)"
    by (rule in_frame_update [OF assms]) (auto simp: Lend1_def instr_defs load_b_def sub_b_def Let_def)
  have "gpr (run_code Lend1 d) RAX = ucast (ram d (gpr d RDI - 1) - ram d (gpr d RSI - 1))"
    by (simp add: Lend1_def instr_defs load_b_def sub_b_def set_low8_0 ucast_u8_u64 Let_def)
  then show "returned c (run_code (Lend1 @ Lend) d)"
    "gpr (run_code (Lend1 @ Lend) d) RAX = ucast (ram d (gpr d RDI - 1) - ram d (gpr d RSI - 1))"
    using Lend_returns [OF f] by simp_all
qed

text \<open>The four ways through the code; the stack is apart from the blocks, so they compare what the caller sees.\<close>

definition memcmp_call :: "cpu \<Rightarrow> addr \<Rightarrow> addr \<Rightarrow> u64 \<Rightarrow> nat \<Rightarrow> nat \<Rightarrow> bool" where
  "memcmp_call c a b n q r \<longleftrightarrow> gpr c RDI = a \<and> gpr c RSI = b \<and> gpr c RDX = n \<and> q = unat n div 8 \<and> r = unat n mod 8 \<and>
     (bytes_at a (unat n) \<union> bytes_at b (unat n)) \<inter> bytes_at (gpr c RSP - 32) 32 = {}"

lemma call_sizes: "memcmp_call c a b n q r \<Longrightarrow> unat n = 8 * q + r" "memcmp_call c a b n q r \<Longrightarrow> r < 8"
  by (simp_all add: memcmp_call_def)

lemma call_entry:
  fixes c
  defines "e \<equiv> memcmp_entry c"
  assumes "memcmp_call c a b n q r"
  shows "in_frame c e" "gpr e RSI = b" "gpr e RDI = a" "gpr e RDX = n" "unat (gpr e RCX) = q" "top e = gpr e RCX"
    "\<not> flag DF e" "flag ZF e \<longleftrightarrow> q = 0" "run_code memcmp_words c = repe_loop q 8 e"
proof -
  have q: "unat (drop_bit 3 n) = q" using assms(2) by (simp add: drop_bit_eq_div unat_div memcmp_call_def)
  moreover from this have "drop_bit 3 n = 0 \<longleftrightarrow> q = 0" by (metis unat_0 unat_eq_zero)
  ultimately show "in_frame c e" "gpr e RSI = b" "gpr e RDI = a" "gpr e RDX = n" "unat (gpr e RCX) = q" "top e = gpr e RCX"
    "\<not> flag DF e" "flag ZF e \<longleftrightarrow> q = 0" "run_code memcmp_words c = repe_loop q 8 e"
    using memcmp_entry [of c] assms(2) by (simp_all add: repe_cmpsq_def memcmp_call_def e_def)
qed

lemma call_ram:
  assumes "memcmp_call c a b n q r" "i + w \<le> unat n"
  shows "load w (ram (memcmp_entry c)) (a + word_of_nat i) = load w (ram c) (a + word_of_nat i)"
    "load w (ram (memcmp_entry c)) (b + word_of_nat i) = load w (ram c) (b + word_of_nat i)"
proof -
  have "ram (memcmp_entry c) x = ram c x" if "x \<in> bytes_at a (unat n) \<union> bytes_at b (unat n)" for x
    using call_entry(1) [OF assms(1)] assms(1) that by (auto simp: in_frame_def memcmp_call_def)
  then show "load w (ram (memcmp_entry c)) (a + word_of_nat i) = load w (ram c) (a + word_of_nat i)"
    "load w (ram (memcmp_entry c)) (b + word_of_nat i) = load w (ram c) (b + word_of_nat i)"
    using bytes_at_shift [OF assms(2)] by (auto intro!: load_cong)
qed

lemma call_word:
  assumes "memcmp_call c a b n q r" "i < q"
  shows "read64 (ram (memcmp_entry c)) (a + 8 * word_of_nat i) = read64 (ram c) (a + 8 * word_of_nat i)"
    "read64 (ram (memcmp_entry c)) (b + 8 * word_of_nat i) = read64 (ram c) (b + 8 * word_of_nat i)"
    "same 8 (ram (memcmp_entry c)) b a i \<longleftrightarrow> same 8 (ram c) a b i"
  using call_ram [OF assms(1), of "8 * i" 8] call_sizes [OF assms(1)] assms(2) by (auto simp: read64_def)

lemma differ_word:
  assumes C: "memcmp_call c a b n q r" and k: "k < q" "\<And>i. i < k \<Longrightarrow> same 8 (ram c) a b i" "\<not> same 8 (ram c) a b k"
  shows "returned c (memcmp_code c)"
    "gpr (memcmp_code c) RAX = read64 (ram c) (a + 8 * word_of_nat k) - read64 (ram c) (b + 8 * word_of_nat k)"
proof -
  let ?e = "memcmp_entry c" and ?d = "compared 8 (Suc k) False (memcmp_entry c)"
  note e = call_entry [OF C]
  have "repe_loop q 8 ?e = ?d"
  proof (rule repe_differ)
    show "same 8 (ram ?e) (gpr ?e RSI) (gpr ?e RDI) i" if "i < k" for i
      unfolding e using call_word(3) [OF C, of i] k that by simp
    show "\<not> same 8 (ram ?e) (gpr ?e RSI) (gpr ?e RDI) k"
      unfolding e using call_word(3) [OF C, of k] k by simp
  qed (use e k in auto)
  then have "memcmp_code c = run_code (Lerr08 @ Lend) ?d" using e by (simp add: memcmp_code_def Let_def ZF_def)
  moreover have "in_frame c ?d" by (rule in_frame_update [OF e(1)]) auto
  ultimately show "returned c (memcmp_code c)"
    "gpr (memcmp_code c) RAX = read64 (ram c) (a + 8 * word_of_nat k) - read64 (ram c) (b + 8 * word_of_nat k)"
    using err08_result [of c ?d] e call_word [OF C k(1)] by (simp_all add: algebra_simps)
qed

text \<open>Behind the words, all of them equal.\<close>

lemma behind_words:
  assumes C: "memcmp_call c a b n q r" and k: "\<And>i. i < q \<Longrightarrow> same 8 (ram c) a b i"
  obtains d where "run_code memcmp_rest (run_code memcmp_words c) = d" "flag ZF (run_code memcmp_words c)"
    "in_frame c d" "gpr d RDX = word_of_nat r" "gpr d RSI = b + 8 * word_of_nat q" "gpr d RDI = a + 8 * word_of_nat q"
    "ram d = ram (memcmp_entry c)" "flag ZF d \<longleftrightarrow> r = 0" "\<not> flag DF d"
proof -
  let ?e = "memcmp_entry c" and ?f = "compared 8 q (flag ZF (repe_loop q 8 (memcmp_entry c))) (memcmp_entry c)"
  let ?d = "run_code memcmp_rest ?f"
  note e = call_entry [OF C]
  have f: "repe_loop q 8 ?e = ?f" "flag ZF (repe_loop q 8 ?e)"
  proof -
    have z: "flag ZF (repe_loop q 8 ?e) \<and> repe_loop q 8 ?e = compared 8 q (flag ZF (repe_loop q 8 ?e)) ?e"
    proof (cases "q = 0")
      case True
      then show ?thesis using e(8) compared_0 [of 8 ?e] by simp
    next
      case False
      have "repe_loop q 8 ?e = compared 8 q True ?e"
      proof (rule repe_same)
        show "same 8 (ram ?e) (gpr ?e RSI) (gpr ?e RDI) i" if "i < q" for i
          unfolding e using call_word(3) [OF C that] k that by simp
      qed (use e False in auto)
      then show ?thesis by (simp add: ZF_def)
    qed
    then show "flag ZF (repe_loop q 8 ?e)" "repe_loop q 8 ?e = ?f" by blast+
  qed
  have "n - push_bit 3 (gpr ?e RCX) = word_of_nat r"
  proof -
    have w: "x = word_of_nat (unat x)" for x :: u64 by simp
    have "push_bit 3 (gpr ?e RCX) = word_of_nat (8 * q)" using w [of "gpr ?e RCX"] e(5) by (simp add: push_bit_eq_mult mult.commute)
    moreover have "n = word_of_nat (8 * q + r)" using w [of n] call_sizes(1) [OF C] by simp
    ultimately show ?thesis by simp
  qed
  note sub = this
  have z: "(word_of_nat r :: u64) = 0 \<longleftrightarrow> r = 0"
    using call_sizes(2) [OF C] by (simp add: word_unat_eq_iff unat_of_nat)
  have t: "top ?f = gpr ?e RCX" using e(6) by (simp add: top_def)
  show thesis
  proof (rule that)
    show "run_code memcmp_rest (run_code memcmp_words c) = ?d" "flag ZF (run_code memcmp_words c)"
      using f unfolding e(9) by simp_all
    show "in_frame c ?d" by (rule in_frame_update [OF e(1)]) (auto simp: memcmp_rest_def instr_defs)
    show "gpr ?d RDX = word_of_nat r" "flag ZF ?d \<longleftrightarrow> r = 0"
      using sub z t e(4) by (simp_all add: memcmp_rest_def instr_defs ZF_def)
    show "\<not> flag DF ?d" using e(7) by (simp add: memcmp_rest_def instr_defs ZF_def DF_def)
  qed (use e in \<open>simp_all add: memcmp_rest_def instr_defs\<close>)
qed

lemma all_words:
  assumes C: "memcmp_call c a b n q 0" and k: "\<And>i. i < q \<Longrightarrow> same 8 (ram c) a b i" and "0 < q"
  shows "returned c (memcmp_code c)" "gpr (memcmp_code c) RAX = 0"
proof -
  obtain d where d: "run_code memcmp_rest (run_code memcmp_words c) = d" "flag ZF (run_code memcmp_words c)"
    "in_frame c d" "gpr d RSI = b + 8 * word_of_nat q" "gpr d RDI = a + 8 * word_of_nat q" "ram d = ram (memcmp_entry c)" "flag ZF d"
    by (rule behind_words [OF C k]) auto
  then have m: "memcmp_code c = run_code (Lerr08 @ Lend) d" by (simp add: memcmp_code_def)
  obtain l where l: "q = Suc l" using assms(3) by (cases q) auto
  have "gpr d RDI - 8 = a + 8 * word_of_nat l" "gpr d RSI - 8 = b + 8 * word_of_nat l" by (simp_all add: d l algebra_simps)
  then have "read64 (ram d) (gpr d RDI - 8) = read64 (ram d) (gpr d RSI - 8)"
    using call_word [OF C, of l] k [of l] unfolding same_words by (simp add: d(6) l)
  then show "returned c (memcmp_code c)" "gpr (memcmp_code c) RAX = 0"
    using err08_result [OF d(3)] unfolding m by simp_all
qed

lemma rest_bytes:
  assumes C: "memcmp_call c a b n q r" and w: "\<And>i. i < q \<Longrightarrow> same 8 (ram c) a b i" and "0 < r"
    and j: "j < r" "\<And>i. i < j \<Longrightarrow> same 1 (ram c) (a + word_of_nat (8 * q)) (b + word_of_nat (8 * q)) i"
    and l: "j = r - 1 \<or> \<not> same 1 (ram c) (a + word_of_nat (8 * q)) (b + word_of_nat (8 * q)) j"
  shows "returned c (memcmp_code c)"
    "gpr (memcmp_code c) RAX = ucast (ram c (a + word_of_nat (8 * q + j)) - ram c (b + word_of_nat (8 * q + j)))"
proof -
  let ?h = "ram c" and ?a = "a + word_of_nat (8 * q)" and ?b = "b + word_of_nat (8 * q)"
  obtain d where d: "run_code memcmp_rest (run_code memcmp_words c) = d" "flag ZF (run_code memcmp_words c)"
    "in_frame c d" "gpr d RDX = word_of_nat r" "gpr d RSI = ?b" "gpr d RDI = ?a"
    "ram d = ram (memcmp_entry c)" "\<not> flag ZF d" "\<not> flag DF d"
    using behind_words [OF C w] \<open>0 < r\<close> by (metis of_nat_mult of_nat_numeral neq0_conv)
  let ?m = "movq RDX RCX d" and ?z = "same 1 ?h ?a ?b j"
  let ?f = "compared 1 (Suc j) ?z ?m"
  have m: "memcmp_code c = run_code (Lend1 @ Lend) (repe_loop r 1 ?m)"
    using d call_sizes(2) [OF C] by (simp add: memcmp_code_def memcmp_bytes_def repe_cmpsb_def instr_defs unat_of_nat)
  have b: "load 1 (ram d) (?a + word_of_nat (1 * i)) = load 1 ?h (?a + word_of_nat (1 * i))"
    "load 1 (ram d) (?b + word_of_nat (1 * i)) = load 1 ?h (?b + word_of_nat (1 * i))" if "i < r" for i
    using that call_ram [OF C, of "8 * q + i" 1] call_sizes(1) [OF C] d(7) by (simp_all add: algebra_simps)
  have s: "same 1 (ram ?m) (gpr ?m RSI) (gpr ?m RDI) i \<longleftrightarrow> same 1 ?h ?a ?b i" if "i < r" for i
    unfolding movq_def set_reg_simps fun_upd_def d(5,6) using b [OF that] by auto
  have "repe_loop r 1 ?m = ?f"
  proof (cases ?z)
    case True
    then have "r = Suc j" using l j(1) by auto
    moreover have "repe_loop r 1 ?m = compared 1 r True ?m"
      using d(9) True j s \<open>r = Suc j\<close> by (intro repe_same) (auto simp: instr_defs less_Suc_eq simp del: One_nat_def)
    ultimately show ?thesis using True by simp
  next
    case False
    then have "repe_loop r 1 ?m = compared 1 (Suc j) False ?m"
      using d(9) j s by (intro repe_differ) (auto simp: instr_defs simp del: One_nat_def)
    with False show ?thesis by simp
  qed
  moreover have "in_frame c ?f" by (rule in_frame_update [OF d(3)]) (auto simp: instr_defs)
  moreover have "gpr ?f RDI - 1 = ?a + word_of_nat (1 * j)" "gpr ?f RSI - 1 = ?b + word_of_nat (1 * j)"
    using d by (simp_all add: instr_defs algebra_simps)
  ultimately show "returned c (memcmp_code c)"
    "gpr (memcmp_code c) RAX = ucast (?h (a + word_of_nat (8 * q + j)) - ?h (b + word_of_nat (8 * q + j)))"
    using end1_result [of c ?f] b [OF j(1)] unfolding m by (simp_all add: instr_defs word_unat_eq_iff [symmetric] algebra_simps)
qed

subsection \<open>Correctness\<close>

lemma memcmp_is_call:
  assumes "(bytes_at buf1 (unat n) \<union> bytes_at buf2 (unat n)) \<inter> bytes_at (gpr c RSP - 32) 32 = {}"
  defines "s \<equiv> set_reg RDX n (set_reg RSI buf2 (set_reg RDI buf1 c))"
  shows "memcmp_call s buf1 buf2 n (unat n div 8) (unat n mod 8)" "ram s = ram c" "returned s c' \<longleftrightarrow> returned c c'"
    "memcmp buf1 buf2 n c = (ucast (gpr (memcmp_code s) RAX), memcmp_code s)"
  using assms(1) by (simp_all add: memcmp_call_def s_def returned_def top_def memcmp_def Let_def)

lemma first_below:
  assumes "\<exists>i < n. P (i :: nat)"
  obtains k where "k < n" "P k" "\<And>i. i < k \<Longrightarrow> \<not> P i"
proof -
  from assms obtain i where i: "i < n" "P i" by blast
  then have "(LEAST i. P i) < n" by (meson Least_le order_le_less_trans)
  with i show thesis by (intro that [of "LEAST i. P i"]) (auto intro: LeastI dest: not_less_Least)
qed

lemma ucast_diff_0: "ucast (ucast (x - y :: u8) :: u64) = (0 :: u32) \<longleftrightarrow> x = y"
proof -
  have "ucast (ucast z :: u64) = (ucast z :: u32)" for z :: u8 by transfer simp
  moreover have "ucast z = (0 :: u32) \<longleftrightarrow> z = 0" for z :: u8
  proof
    assume "ucast z = (0 :: u32)"
    then have "unat (ucast z :: u32) = 0" by simp
    then show "z = 0" by (simp add: unat_ucast_up unat_eq_zero)
  qed simp
  ultimately show ?thesis by simp
qed

lemma ucast_diff_words: "ucast (read64 h a - read64 h b) = (0 :: u32) \<longleftrightarrow> read32 h a = read32 h b"
proof -
  have "ucast (x - y) = (ucast x - ucast y :: u32)" for x y :: u64
    by transfer (subst (2) take_bit_diff [symmetric], simp add: take_bit_diff)
  then show ?thesis by (simp add: low_half)
qed

text \<open>With equal words the bytes behind them decide.\<close>

lemma equal_words:
  assumes C: "memcmp_call s a b n q r" and w: "\<And>i. i < q \<Longrightarrow> same 8 (ram s) a b i" and "0 < n"
  shows "returned s (memcmp_code s)"
    "ucast (gpr (memcmp_code s) RAX) = (0 :: u32) \<longleftrightarrow> (\<forall>i < unat n. ram s (a + word_of_nat i) = ram s (b + word_of_nat i))"
proof -
  let ?same = "same 1 (ram s) (a + word_of_nat (8 * q)) (b + word_of_nat (8 * q))"
  have eq: "(\<forall>i < unat n. ram s (a + word_of_nat i) = ram s (b + word_of_nat i)) \<longleftrightarrow> (\<forall>j < r. ?same j)"
    using same_split [OF call_sizes(1) [OF C]] w by simp
  have "returned s (memcmp_code s) \<and> (ucast (gpr (memcmp_code s) RAX) = (0 :: u32) \<longleftrightarrow> (\<forall>j < r. ?same j))"
  proof (cases "r = 0")
    case True
    have "unat n \<noteq> 0" using \<open>0 < n\<close> by (simp add: unat_eq_zero)
    then have "0 < q" using call_sizes(1) [OF C] True by simp
    then show ?thesis using all_words [OF C [unfolded True] w] True by simp
  next
    case False
    then have "\<exists>j < r. j = r - 1 \<or> \<not> ?same j" by (intro exI [where x = "r - 1"]) simp
    then obtain j where j: "j < r" "j = r - 1 \<or> \<not> ?same j" "\<And>i. i < j \<Longrightarrow> ?same i"
      by (rule first_below) blast
    have "(\<forall>j < r. ?same j) \<longleftrightarrow> ?same j"
    proof
      assume "?same j"
      then have "r = Suc j" using j(1,2) by auto
      then show "\<forall>j < r. ?same j" using j(3) \<open>?same j\<close> by (auto simp only: less_Suc_eq)
    qed (use j(1) in blast)
    also have "\<dots> \<longleftrightarrow> ram s (a + word_of_nat (8 * q + j)) = ram s (b + word_of_nat (8 * q + j))"
      using load_eq_iff [of 1 "ram s" "a + word_of_nat (8 * q) + word_of_nat (1 * j)" "b + word_of_nat (8 * q) + word_of_nat (1 * j)"]
      by (simp add: algebra_simps)
    finally show ?thesis
      using rest_bytes [OF C w _ j(1) j(3) j(2)] False by (simp add: ucast_diff_0 del: of_nat_add of_nat_mult)
  qed
  then show "returned s (memcmp_code s)"
    "ucast (gpr (memcmp_code s) RAX) = (0 :: u32) \<longleftrightarrow> (\<forall>i < unat n. ram s (a + word_of_nat i) = ram s (b + word_of_nat i))"
    unfolding eq by blast+
qed

text \<open>
  C23: \<open>memcmp\<close> returns to its caller with the stack and the callee-saved registers intact, and for
  two blocks of at least one byte its result is 0 exactly when the blocks are equal, with one
  exception: when the first words of eight bytes that differ agree in their lower halves, the
  difference is lost in the \<open>int\<close>, and the blocks pass for equal.
\<close>
theorem memcmp_zero:
  assumes "0 < n" and "(bytes_at buf1 (unat n) \<union> bytes_at buf2 (unat n)) \<inter> bytes_at (gpr c RSP - 32) 32 = {}"
    and "memcmp buf1 buf2 n c = (res, c')"
  shows "returned c c' \<and> (res = 0 \<longleftrightarrow>
    (\<forall>i < unat n. ram c (buf1 + word_of_nat i) = ram c (buf2 + word_of_nat i)) \<or>
    (\<exists>k < unat n div 8. (\<forall>i < k. read64 (ram c) (buf1 + 8 * word_of_nat i) = read64 (ram c) (buf2 + 8 * word_of_nat i)) \<and>
       read64 (ram c) (buf1 + 8 * word_of_nat k) \<noteq> read64 (ram c) (buf2 + 8 * word_of_nat k) \<and>
       read32 (ram c) (buf1 + 8 * word_of_nat k) = read32 (ram c) (buf2 + 8 * word_of_nat k)))"
    (is "_ \<and> (_ \<longleftrightarrow> ?equal \<or> ?lost)")
proof -
  let ?q = "unat n div 8" and ?r = "unat n mod 8" and ?h = "ram c"
  define s where "s = set_reg RDX n (set_reg RSI buf2 (set_reg RDI buf1 c))"
  note call = memcmp_is_call [OF assms(2), folded s_def]
  have C: "memcmp_call s buf1 buf2 n ?q ?r" and h: "ram s = ?h" by (rule call)+
  have res: "res = ucast (gpr (memcmp_code s) RAX)" "c' = memcmp_code s" using call(4) assms(3) by simp_all
  have word: "same 8 ?h buf1 buf2 i \<longleftrightarrow> read64 ?h (buf1 + 8 * word_of_nat i) = read64 ?h (buf2 + 8 * word_of_nat i)" for i
    unfolding same_words by simp
  show ?thesis
  proof (cases "\<forall>i < ?q. same 8 ?h buf1 buf2 i")
    case True
    then have "\<not> ?lost" unfolding word by blast
    moreover have "returned c (memcmp_code s)" "ucast (gpr (memcmp_code s) RAX) = (0 :: u32) \<longleftrightarrow> ?equal"
      using equal_words [OF C _ assms(1), unfolded h] True call(3) by blast+
    ultimately show ?thesis unfolding res by blast
  next
    case False
    then have "\<exists>i < ?q. \<not> same 8 ?h buf1 buf2 i" by blast
    then obtain k where k: "k < ?q" "\<not> same 8 ?h buf1 buf2 k" "\<And>i. i < k \<Longrightarrow> same 8 ?h buf1 buf2 i"
      by (rule first_below) blast
    have "i = k" if "i < ?q" "\<forall>j < i. same 8 ?h buf1 buf2 j" "\<not> same 8 ?h buf1 buf2 i" for i
      using that k by (meson linorder_neqE_nat)
    then have l: "?lost \<longleftrightarrow> read32 ?h (buf1 + 8 * word_of_nat k) = read32 ?h (buf2 + 8 * word_of_nat k)"
      using k unfolding word by blast
    have "\<not> ?equal" using k(1,2) same_split [of "unat n" ?q ?r] by auto
    moreover note differ_word [OF C k(1), unfolded h, OF k(3) k(2)]
    then have "returned c (memcmp_code s)" "ucast (gpr (memcmp_code s) RAX) = (0 :: u32) \<longleftrightarrow> ?lost"
      using l call(3) by (simp_all add: ucast_diff_words)
    ultimately show ?thesis unfolding res by blast
  qed
qed

text \<open>For a length of 0 the result is the difference of the words in front of the blocks.\<close>

lemma memcmp_empty:
  assumes "memcmp buf1 buf2 0 c = (res, c')" "(bytes_at (buf1 - 8) 8 \<union> bytes_at (buf2 - 8) 8) \<inter> bytes_at (gpr c RSP - 32) 32 = {}"
  shows "res = ucast (read64 (ram c) (buf1 - 8) - read64 (ram c) (buf2 - 8))"
proof -
  define s where "s = set_reg RDX 0 (set_reg RSI buf2 (set_reg RDI buf1 c))"
  note call = memcmp_is_call [of buf1 0 buf2 c, folded s_def, simplified]
  obtain d where d: "run_code memcmp_rest (run_code memcmp_words s) = d" "flag ZF (run_code memcmp_words s)"
    "in_frame s d" "gpr d RSI = buf2" "gpr d RDI = buf1" "ram d = ram (memcmp_entry s)" "flag ZF d"
    using behind_words [OF call(1)] by auto
  have "ram (memcmp_entry s) x = ram c x" if "x \<notin> bytes_at (gpr c RSP - 32) 32" for x
    using call_entry(1) [OF call(1)] that by (simp add: in_frame_def s_def)
  then have "read64 (ram d) (buf1 - 8) = read64 (ram c) (buf1 - 8)" "read64 (ram d) (buf2 - 8) = read64 (ram c) (buf2 - 8)"
    unfolding d(6) using assms(2) by (auto intro!: read64_cong)
  moreover have "memcmp_code s = run_code (Lerr08 @ Lend) d" using d by (simp add: memcmp_code_def)
  ultimately show ?thesis using err08_result(2) [OF d(3)] assms(1) call(4) d by simp
qed

text \<open>Two blocks of eight bytes that differ in the sixth byte alone compare as equal.\<close>

definition demo_blocks_cpu :: cpu where
  "demo_blocks_cpu = \<lparr>gpr = (\<lambda>_. 0)(RSP := 0x9000), eflags = 0, pc = 0, seg = \<lambda>_. 0, creg = \<lambda>_. 0, msrs = \<lambda>_. 0,
     ram = (\<lambda>_. 0)(0x1005 := 1)\<rparr>"

theorem memcmp_zero_witness:
  "fst (memcmp 0x1000 0x2000 8 demo_blocks_cpu) = 0 \<and> ram demo_blocks_cpu 0x1005 \<noteq> ram demo_blocks_cpu 0x2005"
proof -
  obtain res c' where m: "memcmp 0x1000 0x2000 8 demo_blocks_cpu = (res, c')" by force
  have "(bytes_at 0x1000 8 \<union> bytes_at 0x2000 8) \<inter> bytes_at (0x8fe0 :: addr) 32 = {}" by (auto simp: in_bytes_at)
  then have "res = 0"
    using memcmp_zero [OF _ _ m] by (simp add: demo_blocks_cpu_def read64_def read32_def load_numeral)
  then show ?thesis using m by (simp add: demo_blocks_cpu_def)
qed

end
