(* ===== verification/Elf_Load.thy ===== *)
theory Elf_Load
  imports Addresses
begin

unbundle bit_operations_syntax

text \<open>
  The ELF loader of the boot program (boot/boot.c with include/elf.h): \<open>CalcLoadAddressRange\<close> and
  \<open>CopyLoadSegments\<close>, and the program's own \<open>memcpy\<close> and \<open>memset\<close>. Memory is the physical one the
  firmware maps one to one.
\<close>

subsection \<open>Block routines of boot/boot.c\<close>

text \<open>The boot program is compiled for a target whose \<open>size_t\<close> has 64 bits.\<close>

definition boot_memcpy :: "addr \<Rightarrow> addr \<Rightarrow> u64 \<Rightarrow> mem \<Rightarrow> mem" where
  "boot_memcpy buf1 buf2 n h = memcpy_loop buf1 buf2 (unat n) h"

definition boot_memset :: "addr \<Rightarrow> u32 \<Rightarrow> u64 \<Rightarrow> mem \<Rightarrow> mem" where
  "boot_memset buf ch n h = memset_loop buf (ucast ch) (unat n) h"

subsection \<open>include/elf.h\<close>

record elf_ehdr =
  e_ident :: "u8 list"
  e_type :: u16
  e_machine :: u16
  e_version :: u32
  e_entry :: u64
  e_phoff :: u64
  e_shoff :: u64
  e_flags :: u32
  e_ehsize :: u16
  e_phentsize :: u16
  e_phnum :: u16
  e_shentsize :: u16
  e_shnum :: u16
  e_shstrndx :: u16

definition read_ehdr :: "mem \<Rightarrow> addr \<Rightarrow> elf_ehdr" where
  "read_ehdr h a = \<lparr>e_ident = map (\<lambda>i. h (a + word_of_nat i)) [0..<16],
     e_type = read16 h (a + 16), e_machine = read16 h (a + 18), e_version = read32 h (a + 20),
     e_entry = read64 h (a + 24), e_phoff = read64 h (a + 32), e_shoff = read64 h (a + 40),
     e_flags = read32 h (a + 48), e_ehsize = read16 h (a + 52), e_phentsize = read16 h (a + 54),
     e_phnum = read16 h (a + 56), e_shentsize = read16 h (a + 58), e_shnum = read16 h (a + 60),
     e_shstrndx = read16 h (a + 62)\<rparr>"

text \<open>
  The structure declares \<open>p_type\<close> and \<open>p_flags\<close> with 16 bits; the compiler pads them to 8 bytes, so
  the fields behind them are where the ELF format has them.
\<close>

record elf_phdr =
  p_type :: u16
  p_flags :: u16
  p_offset :: u64
  p_vaddr :: u64
  p_paddr :: u64
  p_filesz :: u64
  p_memsz :: u64
  p_align :: u64

definition read_phdr :: "mem \<Rightarrow> addr \<Rightarrow> elf_phdr" where
  "read_phdr h a = \<lparr>p_type = read16 h a, p_flags = read16 h (a + 2), p_offset = read64 h (a + 8),
     p_vaddr = read64 h (a + 16), p_paddr = read64 h (a + 24), p_filesz = read64 h (a + 32),
     p_memsz = read64 h (a + 40), p_align = read64 h (a + 48)\<rparr>"

definition PT_LOAD :: u16 where "PT_LOAD = 1"

definition phdr_table :: "mem \<Rightarrow> addr \<Rightarrow> addr" where
  "phdr_table h ehdr = ehdr + e_phoff (read_ehdr h ehdr)"

definition phdr_entry :: "mem \<Rightarrow> addr \<Rightarrow> nat \<Rightarrow> elf_phdr" where
  "phdr_entry h phdr i = read_phdr h (phdr + 56 * word_of_nat i)"

subsection \<open>Loading\<close>

definition extend_range :: "elf_phdr \<Rightarrow> u64 \<times> u64 \<Rightarrow> u64 \<times> u64" where
  "extend_range ph = (\<lambda>(start, end).
     if p_type ph \<noteq> PT_LOAD then (start, end)
     else (min start (p_vaddr ph), max end (p_vaddr ph + p_memsz ph)))"

definition CalcLoadAddressRange :: "mem \<Rightarrow> addr \<Rightarrow> u64 \<times> u64" where
  "CalcLoadAddressRange h ehdr =
     (let phdr = phdr_table h ehdr;
          (start, end) = fold (\<lambda>i. extend_range (phdr_entry h phdr i))
            [0..<unat (e_phnum (read_ehdr h ehdr))] (- 1, 0)
      in (start - 0xffff800000000000 + 0x100000, end - 0xffff800000000000 + 0x100000))"

text \<open>\<open>load_addr\<close> is the physical address of a segment.\<close>

definition load_addr :: "elf_phdr \<Rightarrow> addr" where
  "load_addr ph = p_vaddr ph - 0xffff800000000000 + 0x100000"

definition copy_segment :: "addr \<Rightarrow> elf_phdr \<Rightarrow> mem \<Rightarrow> mem" where
  "copy_segment ehdr ph h =
     (let vaddr = load_addr ph; segm_in_file = ehdr + p_offset ph
      in boot_memset (vaddr + p_filesz ph) 0 (p_memsz ph - p_filesz ph)
           (boot_memcpy vaddr segm_in_file (p_filesz ph) h))"

text \<open>The loop reads the header and the table from the memory the copies have changed.\<close>

function copy_segments :: "addr \<Rightarrow> addr \<Rightarrow> nat \<Rightarrow> mem \<Rightarrow> mem" where
  "copy_segments ehdr phdr i h =
     (if unat (e_phnum (read_ehdr h ehdr)) \<le> i then h
      else let ph = phdr_entry h phdr i
           in copy_segments ehdr phdr (Suc i)
                (if p_type ph \<noteq> PT_LOAD then h else copy_segment ehdr ph h))"
  by pat_completeness auto
termination
proof (relation "measure (\<lambda>(ehdr, phdr, i, h). 65536 - i)", goal_cases)
  case (2 ehdr phdr i h ph)
  then have "i < 65536" using unat_lt_pow [of "e_phnum (read_ehdr h ehdr)"] by simp
  then show ?case by simp
qed simp

declare copy_segments.simps [simp del]

definition CopyLoadSegments :: "addr \<Rightarrow> mem \<Rightarrow> mem" where
  "CopyLoadSegments ehdr h = copy_segments ehdr (phdr_table h ehdr) 0 h"

subsection \<open>Well-formed images\<close>

text \<open>
  An image of \<open>len\<close> bytes at \<open>ehdr\<close> whose headers and segment contents lie inside it, and whose
  segments lie in the kernel window, apart from each other and from the image.
\<close>

definition segs :: "mem \<Rightarrow> addr \<Rightarrow> nat \<Rightarrow> elf_phdr" where
  "segs h ehdr i = phdr_entry h (phdr_table h ehdr) i"

definition num_segs :: "mem \<Rightarrow> addr \<Rightarrow> nat" where
  "num_segs h ehdr = unat (e_phnum (read_ehdr h ehdr))"

definition loadable :: "mem \<Rightarrow> addr \<Rightarrow> nat \<Rightarrow> bool" where
  "loadable h ehdr i \<longleftrightarrow> i < num_segs h ehdr \<and> p_type (segs h ehdr i) = PT_LOAD"

definition seg_bytes :: "elf_phdr \<Rightarrow> addr set" where
  "seg_bytes ph = bytes_at (load_addr ph) (unat (p_memsz ph))"

definition segment_ok :: "addr \<Rightarrow> nat \<Rightarrow> elf_phdr \<Rightarrow> bool" where
  "segment_ok ehdr len ph \<longleftrightarrow>
     unat (p_offset ph) + unat (p_filesz ph) \<le> len \<and> p_filesz ph \<le> p_memsz ph \<and>
     KERNEL_MAPPING \<le> p_vaddr ph \<and> unat (p_vaddr ph) + unat (p_memsz ph) < 2 ^ 64 \<and>
     seg_bytes ph \<inter> bytes_at ehdr len = {}"

definition image_ok :: "mem \<Rightarrow> addr \<Rightarrow> nat \<Rightarrow> bool" where
  "image_ok h ehdr len \<longleftrightarrow>
     unat ehdr + len \<le> 2 ^ 64 \<and> 64 \<le> len \<and>
     unat (e_phoff (read_ehdr h ehdr)) + 56 * num_segs h ehdr \<le> len \<and>
     (\<forall>i. loadable h ehdr i \<longrightarrow> segment_ok ehdr len (segs h ehdr i)) \<and>
     (\<forall>i j. loadable h ehdr i \<and> loadable h ehdr j \<and> i \<noteq> j \<longrightarrow>
        seg_bytes (segs h ehdr i) \<inter> seg_bytes (segs h ehdr j) = {})"

subsection \<open>One segment\<close>

lemma read16_cong: "(\<And>x. x \<in> bytes_at a 2 \<Longrightarrow> h x = h' x) \<Longrightarrow> read16 h a = read16 h' a"
  unfolding read16_def by (metis load_cong)

lemma read_ehdr_cong:
  assumes "\<And>x. x \<in> bytes_at a 64 \<Longrightarrow> h x = h' x"
  shows "read_ehdr h a = read_ehdr h' a"
proof -
  have f: "h x = h' x" if "x \<in> bytes_at (a + word_of_nat k) n" "k + n \<le> 64" for x k n
    using assms that bytes_at_shift [of k n 64 a] by blast
  have "map (\<lambda>i. h (a + word_of_nat i)) [0..<16] = map (\<lambda>i. h' (a + word_of_nat i)) [0..<16]"
    using assms by (intro map_cong refl) (simp add: bytes_at_I)
  moreover have "read16 h (a + word_of_nat k) = read16 h' (a + word_of_nat k)" if "k + 2 \<le> 64" for k
    using f that by (intro read16_cong) blast
  note r16 = this [of 16, simplified] this [of 18, simplified] this [of 52, simplified] this [of 54, simplified]
    this [of 56, simplified] this [of 58, simplified] this [of 60, simplified] this [of 62, simplified]
  moreover have "read32 h (a + word_of_nat k) = read32 h' (a + word_of_nat k)" if "k + 4 \<le> 64" for k
    using f that by (intro read32_cong) blast
  note r32 = this [of 20, simplified] this [of 48, simplified]
  moreover have "read64 h (a + word_of_nat k) = read64 h' (a + word_of_nat k)" if "k + 8 \<le> 64" for k
    using f that by (intro read64_cong) blast
  note r64 = this [of 24, simplified] this [of 32, simplified] this [of 40, simplified]
  ultimately show ?thesis unfolding read_ehdr_def r16 r32 r64 by (simp only:)
qed

lemma read_phdr_cong:
  assumes "\<And>x. x \<in> bytes_at a 56 \<Longrightarrow> h x = h' x"
  shows "read_phdr h a = read_phdr h' a"
proof -
  have f: "h x = h' x" if "x \<in> bytes_at (a + word_of_nat k) n" "k + n \<le> 56" for x k n
    using assms that bytes_at_shift [of k n 56 a] by blast
  have "read16 h (a + word_of_nat k) = read16 h' (a + word_of_nat k)" if "k + 2 \<le> 56" for k
    using f that by (intro read16_cong) blast
  note r16 = this [of 0, simplified] this [of 2, simplified]
  have "read64 h (a + word_of_nat k) = read64 h' (a + word_of_nat k)" if "k + 8 \<le> 56" for k
    using f that by (intro read64_cong) blast
  note r64 = this [of 8, simplified] this [of 16, simplified] this [of 24, simplified]
    this [of 32, simplified] this [of 40, simplified] this [of 48, simplified]
  show ?thesis unfolding read_phdr_def r16 r64 by simp
qed

lemma unat_load_addr:
  assumes "KERNEL_MAPPING \<le> p_vaddr ph"
  shows "unat (load_addr ph) = unat (p_vaddr ph) - unat KERNEL_MAPPING + 0x100000"
proof -
  have "unat (p_vaddr ph - KERNEL_MAPPING) = unat (p_vaddr ph) - unat KERNEL_MAPPING"
    using assms by (rule unat_sub_exact)
  moreover have "unat (p_vaddr ph) - unat KERNEL_MAPPING < 2 ^ 47"
    using unat_lt_pow [of "p_vaddr ph"] by (simp add: KERNEL_MAPPING_def)
  ultimately show ?thesis
    using unat_add_exact [of "p_vaddr ph - KERNEL_MAPPING" "0x100000"]
    by (simp add: load_addr_def KERNEL_MAPPING_def)
qed

lemma segment_room:
  assumes "segment_ok ehdr len ph"
  shows "unat (load_addr ph) + unat (p_memsz ph) < 2 ^ 64"
proof -
  have a: "KERNEL_MAPPING \<le> p_vaddr ph" "unat (p_vaddr ph) + unat (p_memsz ph) < 2 ^ 64"
    using assms by (auto simp: segment_ok_def)
  show ?thesis using a unat_load_addr [OF a(1)] by (simp add: word_le_nat_alt KERNEL_MAPPING_def)
qed

text \<open>What copying one segment does to its bytes and to the others.\<close>

lemma copy_segment_other:
  assumes "segment_ok ehdr len ph" and "x \<notin> seg_bytes ph"
  shows "copy_segment ehdr ph h x = h x"
proof -
  let ?f = "unat (p_filesz ph)" and ?m = "unat (p_memsz ph)"
  have fm: "?f \<le> ?m" "unat (p_memsz ph - p_filesz ph) = ?m - ?f"
    using assms(1) by (auto simp: segment_ok_def word_le_nat_alt unat_sub_exact)
  have e: "load_addr ph + p_filesz ph = load_addr ph + word_of_nat ?f" by simp
  have "bytes_at (load_addr ph) ?f \<subseteq> seg_bytes ph"
    and "bytes_at (load_addr ph + p_filesz ph) (?m - ?f) \<subseteq> seg_bytes ph"
    unfolding seg_bytes_def e using fm(1) by (intro bytes_at_mono bytes_at_shift; simp)+
  then have "x \<notin> bytes_at (load_addr ph) ?f" "x \<notin> bytes_at (load_addr ph + p_filesz ph) (?m - ?f)"
    using assms(2) by blast+
  then show ?thesis
    by (simp add: copy_segment_def Let_def boot_memset_def boot_memcpy_def memset_loop_eq memcpy_loop_other fm)
qed

lemma copy_segment_at:
  assumes ok: "segment_ok ehdr len ph" and k: "k < unat (p_memsz ph)"
  shows "copy_segment ehdr ph h (load_addr ph + word_of_nat k) =
    (if k < unat (p_filesz ph) then h (ehdr + p_offset ph + word_of_nat k) else 0)"
proof -
  let ?f = "unat (p_filesz ph)" and ?m = "unat (p_memsz ph)" and ?a = "load_addr ph"
  have fm: "?f \<le> ?m" "unat (p_memsz ph - p_filesz ph) = ?m - ?f" "unat (p_offset ph) + ?f \<le> len"
    and dis: "seg_bytes ph \<inter> bytes_at ehdr len = {}"
    using ok by (auto simp: segment_ok_def word_le_nat_alt unat_sub_exact)
  note room = segment_room [OF ok]
  have ua: "unat (?a + word_of_nat i) = unat ?a + i" if "i \<le> ?m" for i
    using that room by (intro unat_add_of_nat) simp
  have af: "unat (?a + p_filesz ph) = unat ?a + ?f"
    using room fm(1) by (intro unat_add_exact) simp
  have src: "bytes_at (ehdr + p_offset ph) ?f \<subseteq> bytes_at ehdr len"
    using bytes_at_shift [of "unat (p_offset ph)" ?f len ehdr] fm(3) by simp
  have sep: "bytes_at ?a ?f \<inter> bytes_at (ehdr + p_offset ph) ?f = {}"
    using dis src bytes_at_mono [OF fm(1), of ?a] unfolding seg_bytes_def by blast
  have "?f \<le> 2 ^ 64" using unat_lt_pow [of "p_filesz ph"] by simp
  note cp = memcpy_loop_at [OF sep this]
  have in2: "?a + word_of_nat k \<in> bytes_at (?a + p_filesz ph) (?m - ?f) \<longleftrightarrow> ?f \<le> k"
    using room fm(1) k by (subst in_bytes_at) (auto simp: af ua)
  show ?thesis
    using in2 cp [of k h]
    by (auto simp: copy_segment_def Let_def boot_memset_def boot_memcpy_def memset_loop_eq fm(2))
qed

subsection \<open>The whole image\<close>

text \<open>The headers read the same while the image is intact.\<close>

lemma image_headers:
  assumes ok: "image_ok h0 ehdr len" and eq: "\<And>x. x \<in> bytes_at ehdr len \<Longrightarrow> h x = h0 x"
  shows "read_ehdr h ehdr = read_ehdr h0 ehdr"
    and "i < num_segs h0 ehdr \<Longrightarrow> phdr_entry h (phdr_table h0 ehdr) i = segs h0 ehdr i"
proof -
  have "bytes_at ehdr 64 \<subseteq> bytes_at ehdr len"
    using ok by (intro bytes_at_mono) (simp add: image_ok_def)
  then show "read_ehdr h ehdr = read_ehdr h0 ehdr" using eq by (intro read_ehdr_cong) blast
  assume i: "i < num_segs h0 ehdr"
  let ?o = "unat (e_phoff (read_ehdr h0 ehdr))"
  have "?o + 56 * i + 56 \<le> ?o + 56 * num_segs h0 ehdr" using i by linarith
  also have "\<dots> \<le> len" using ok by (simp add: image_ok_def)
  finally have "bytes_at (ehdr + word_of_nat (?o + 56 * i)) 56 \<subseteq> bytes_at ehdr len" by (rule bytes_at_shift)
  then show "phdr_entry h (phdr_table h0 ehdr) i = segs h0 ehdr i"
    unfolding segs_def phdr_entry_def phdr_table_def using eq
    by (intro read_phdr_cong) (auto simp: algebra_simps)
qed

lemma copy_segments_spec:
  assumes ok: "image_ok h0 ehdr len" and eq: "\<And>x. x \<in> bytes_at ehdr len \<Longrightarrow> h x = h0 x"
  shows "(\<forall>x. (\<forall>j\<ge>i. loadable h0 ehdr j \<longrightarrow> x \<notin> seg_bytes (segs h0 ehdr j)) \<longrightarrow>
        copy_segments ehdr (phdr_table h0 ehdr) i h x = h x) \<and>
    (\<forall>j\<ge>i. \<forall>k. loadable h0 ehdr j \<and> k < unat (p_memsz (segs h0 ehdr j)) \<longrightarrow>
       copy_segments ehdr (phdr_table h0 ehdr) i h (load_addr (segs h0 ehdr j) + word_of_nat k) =
         (if k < unat (p_filesz (segs h0 ehdr j)) then h0 (ehdr + p_offset (segs h0 ehdr j) + word_of_nat k) else 0))"
  using eq
proof (induction "num_segs h0 ehdr - i" arbitrary: i h)
  case 0
  then have "num_segs h0 ehdr \<le> i" by simp
  then show ?case
    using image_headers(1) [OF ok "0.prems"] by (subst (1 2) copy_segments.simps) (auto simp: num_segs_def loadable_def)
next
  case (Suc d)
  let ?ph = "segs h0 ehdr i" and ?t = "phdr_table h0 ehdr"
  let ?h1 = "if p_type ?ph \<noteq> PT_LOAD then h else copy_segment ehdr ?ph h"
  have i: "i < num_segs h0 ehdr" using Suc.hyps(2) by simp
  have step: "copy_segments ehdr ?t i h = copy_segments ehdr ?t (Suc i) ?h1"
    using i image_headers(1) [OF ok Suc.prems] image_headers(2) [OF ok Suc.prems i]
    by (subst copy_segments.simps) (simp add: num_segs_def Let_def)
  have seg: "segment_ok ehdr len (segs h0 ehdr j)" if "loadable h0 ehdr j" for j
    using ok that by (simp add: image_ok_def)
  have h1: "?h1 x = h x" if "loadable h0 ehdr i \<longrightarrow> x \<notin> seg_bytes ?ph" for x
    using that i copy_segment_other [OF seg] by (auto simp: loadable_def)
  have img: "?h1 x = h0 x" if "x \<in> bytes_at ehdr len" for x
  proof -
    have "loadable h0 ehdr i \<longrightarrow> x \<notin> seg_bytes ?ph"
      using seg [of i] that by (auto simp: segment_ok_def)
    from h1 [OF this] Suc.prems [OF that] show ?thesis by simp
  qed
  note IH = Suc.hyps(1) [of "Suc i" ?h1, OF _ img]
  have d: "d = num_segs h0 ehdr - Suc i" using Suc.hyps(2) by simp
  show ?case unfolding step
  proof (intro conjI allI impI, goal_cases)
    case (1 x)
    then have "copy_segments ehdr ?t (Suc i) ?h1 x = ?h1 x" using IH [OF d] by auto
    with 1 show ?case using h1 by auto
  next
    case (2 j k)
    let ?a = "load_addr (segs h0 ehdr j) + word_of_nat k"
    show ?case
    proof (cases "j = i")
      case False
      with 2 show ?thesis using IH [OF d] by auto
    next
      case True
      have in_i: "?a \<in> seg_bytes ?ph" using 2 True by (simp add: seg_bytes_def bytes_at_I)
      have "?a \<notin> seg_bytes (segs h0 ehdr j')" if "Suc i \<le> j'" "loadable h0 ehdr j'" for j'
        using ok 2 True in_i that unfolding image_ok_def by (metis IntI Suc_n_not_le_n empty_iff)
      then have "copy_segments ehdr ?t (Suc i) ?h1 ?a = ?h1 ?a" using IH [OF d] by blast
      moreover have "h (ehdr + p_offset ?ph + word_of_nat k) = h0 (ehdr + p_offset ?ph + word_of_nat k)"
        if "k < unat (p_filesz ?ph)"
      proof (rule Suc.prems)
        have "unat (p_offset ?ph) + k < len" using that seg [of i] 2 True by (auto simp: segment_ok_def)
        then show "ehdr + p_offset ?ph + word_of_nat k \<in> bytes_at ehdr len"
          using bytes_at_I [of "unat (p_offset ?ph) + k" len ehdr] by (simp add: add.assoc)
      qed
      moreover have "p_type ?ph = PT_LOAD" using 2 True by (simp add: loadable_def)
      ultimately show ?thesis
        using 2 True copy_segment_at [OF seg, of i k h] by auto
    qed
  qed
qed

text \<open>The range of \<open>CalcLoadAddressRange\<close>, before the shift to physical addresses.\<close>

lemma extend_range_fold:
  "fold (\<lambda>i. extend_range (f i)) [0..<n] (s0, e0) = (s, e) \<Longrightarrow>
   (\<forall>i<n. p_type (f i) = PT_LOAD \<longrightarrow> s \<le> p_vaddr (f i) \<and> p_vaddr (f i) + p_memsz (f i) \<le> e) \<and> s \<le> s0 \<and> e0 \<le> e \<and>
   (s = s0 \<or> (\<exists>i<n. p_type (f i) = PT_LOAD \<and> s = p_vaddr (f i))) \<and>
   (e = e0 \<or> (\<exists>i<n. p_type (f i) = PT_LOAD \<and> e = p_vaddr (f i) + p_memsz (f i)))"
proof (induction n arbitrary: s e)
  case (Suc n)
  obtain s1 e1 where f: "fold (\<lambda>i. extend_range (f i)) [0..<n] (s0, e0) = (s1, e1)" by force
  note IH = Suc.IH [OF f]
  show ?case
  proof (cases "p_type (f n) = PT_LOAD")
    case True
    then have "s = min s1 (p_vaddr (f n))" "e = max e1 (p_vaddr (f n) + p_memsz (f n))"
      using Suc.prems f by (auto simp: extend_range_def)
    with IH True show ?thesis by (auto simp: less_Suc_eq min_def max_def split: if_splits)
  next
    case False
    then have "s = s1" "e = e1" using Suc.prems f by (auto simp: extend_range_def)
    with IH False show ?thesis by (auto simp: less_Suc_eq)
  qed
qed simp

lemma load_range:
  assumes ok: "image_ok h ehdr len" and r: "CalcLoadAddressRange h ehdr = (s, e)"
    and i: "loadable h ehdr i" and k: "k < unat (p_memsz (segs h ehdr i))"
  shows "s \<le> load_addr (segs h ehdr i) + word_of_nat k \<and> load_addr (segs h ehdr i) + word_of_nat k < e"
proof -
  let ?f = "segs h ehdr" and ?n = "num_segs h ehdr"
  obtain s' e' where f: "fold (\<lambda>i. extend_range (?f i)) [0..<?n] (- 1, 0) = (s', e')" by force
  note R = extend_range_fold [OF f]
  have se: "s = s' - KERNEL_MAPPING + 0x100000" "e = e' - KERNEL_MAPPING + 0x100000"
    using r f by (auto simp: CalcLoadAddressRange_def Let_def segs_def num_segs_def KERNEL_MAPPING_def)
  have seg: "KERNEL_MAPPING \<le> p_vaddr (?f j)" "unat (p_vaddr (?f j)) + unat (p_memsz (?f j)) < 2 ^ 64"
    if "loadable h ehdr j" for j
    using ok that by (auto simp: image_ok_def segment_ok_def)
  have sum: "unat (p_vaddr (?f j) + p_memsz (?f j)) = unat (p_vaddr (?f j)) + unat (p_memsz (?f j))"
    if "loadable h ehdr j" for j
    using seg [OF that] by (intro unat_add_exact) simp
  have i': "i < ?n" "p_type (?f i) = PT_LOAD" using i by (auto simp: loadable_def)
  have le: "s' \<le> p_vaddr (?f i)" "p_vaddr (?f i) + p_memsz (?f i) \<le> e'" using R i' by auto
  have "s' = - 1 \<or> (\<exists>j. loadable h ehdr j \<and> s' = p_vaddr (?f j))" using R by (auto simp: loadable_def)
  then have "KERNEL_MAPPING \<le> s'" using seg(1) by auto
  then have us: "unat s = unat s' - unat KERNEL_MAPPING + 0x100000"
    using unat_load_addr [of "?f i\<lparr>p_vaddr := s'\<rparr>"] by (simp add: se load_addr_def KERNEL_MAPPING_def)
  have "KERNEL_MAPPING \<le> e'"
    using le(2) seg(1) [OF i] sum [OF i] by (simp add: word_le_nat_alt)
  then have ue: "unat e = unat e' - unat KERNEL_MAPPING + 0x100000"
    using unat_load_addr [of "?f i\<lparr>p_vaddr := e'\<rparr>"] by (simp add: se load_addr_def KERNEL_MAPPING_def)
  have "segment_ok ehdr len (?f i)" using ok i by (simp add: image_ok_def)
  then have ua: "unat (load_addr (?f i) + word_of_nat k) = unat (p_vaddr (?f i)) - unat KERNEL_MAPPING + 0x100000 + k"
    using segment_room [of ehdr len "?f i"] k unat_load_addr [OF seg(1) [OF i]]
      unat_add_of_nat [of "load_addr (?f i)" k] by simp
  have "unat KERNEL_MAPPING \<le> unat (p_vaddr (?f i))" using seg(1) [OF i] by (simp add: word_le_nat_alt)
  then show ?thesis
    using le sum [OF i] us ue ua k unfolding word_le_nat_alt word_less_nat_alt by linarith
qed

text \<open>
  C14: For a well-formed image, the loader places every loadable segment at its physical address:
  first the contents from the file, then zeros up to the memory size; it writes nowhere else; and
  every byte of every segment lies in the range that \<open>CalcLoadAddressRange\<close> returns, which is
  the range the boot program allocates.
\<close>
theorem load_image:
  assumes "image_ok h ehdr len"
  shows "(\<forall>i k. loadable h ehdr i \<and> k < unat (p_memsz (segs h ehdr i)) \<longrightarrow>
      CopyLoadSegments ehdr h (load_addr (segs h ehdr i) + word_of_nat k) =
        (if k < unat (p_filesz (segs h ehdr i)) then h (ehdr + p_offset (segs h ehdr i) + word_of_nat k) else 0) \<and>
      fst (CalcLoadAddressRange h ehdr) \<le> load_addr (segs h ehdr i) + word_of_nat k \<and>
      load_addr (segs h ehdr i) + word_of_nat k < snd (CalcLoadAddressRange h ehdr)) \<and>
    (\<forall>x. (\<forall>i. loadable h ehdr i \<longrightarrow> x \<notin> seg_bytes (segs h ehdr i)) \<longrightarrow> CopyLoadSegments ehdr h x = h x)"
  using copy_segments_spec [OF assms, of h 0] load_range [OF assms, of "fst (CalcLoadAddressRange h ehdr)"
      "snd (CalcLoadAddressRange h ehdr)"]
  by (simp add: CopyLoadSegments_def)

text \<open>A small image: one segment of four bytes from the file and four more, linked at the window's start.\<close>

definition demo_image :: mem where
  "demo_image = (\<lambda>_. 0)(0x1000020 := 64, 0x1000038 := 1,
     0x1000040 := 1, 0x1000048 := 120, 0x1000055 := 0x80, 0x1000056 := 0xff, 0x1000057 := 0xff,
     0x1000060 := 4, 0x1000068 := 8,
     0x1000078 := 10, 0x1000079 := 11, 0x100007a := 12, 0x100007b := 13)"

lemma demo_headers:
  "num_segs demo_image 0x1000000 = 1" "e_phoff (read_ehdr demo_image 0x1000000) = 64"
  "segs demo_image 0x1000000 0 = \<lparr>p_type = 1, p_flags = 0, p_offset = 120, p_vaddr = KERNEL_MAPPING,
     p_paddr = 0, p_filesz = 4, p_memsz = 8, p_align = 0\<rparr>"
  by (simp_all add: num_segs_def segs_def phdr_entry_def phdr_table_def read_ehdr_def read_phdr_def
      demo_image_def read16_def read64_def load_numeral KERNEL_MAPPING_def)

lemma demo_image_ok: "image_ok demo_image 0x1000000 124"
proof -
  have l: "loadable demo_image 0x1000000 i \<longleftrightarrow> i = 0" for i
    by (auto simp: loadable_def demo_headers PT_LOAD_def)
  have "load_addr (segs demo_image 0x1000000 0) = 0x100000"
    by (simp add: demo_headers load_addr_def KERNEL_MAPPING_def)
  then have "segment_ok 0x1000000 124 (segs demo_image 0x1000000 0)"
    unfolding segment_ok_def seg_bytes_def
    by (intro conjI bytes_at_disjoint) (simp_all add: demo_headers KERNEL_MAPPING_def)
  then show ?thesis by (simp add: image_ok_def l demo_headers)
qed

theorem load_image_witness:
  "CopyLoadSegments 0x1000000 demo_image 0x100003 = 13 \<and> CopyLoadSegments 0x1000000 demo_image 0x100004 = 0 \<and>
   fst (CalcLoadAddressRange demo_image 0x1000000) \<le> 0x100007 \<and>
   0x100007 < snd (CalcLoadAddressRange demo_image 0x1000000)"
proof -
  let ?s = "segs demo_image 0x1000000 0"
  have s: "load_addr ?s = 0x100000" "p_memsz ?s = 8" "p_filesz ?s = 4" "p_offset ?s = 120"
    by (simp_all add: demo_headers load_addr_def KERNEL_MAPPING_def)
  have l: "loadable demo_image 0x1000000 0" by (simp add: loadable_def demo_headers PT_LOAD_def)
  have b: "demo_image 0x100007b = 13" by (simp add: demo_image_def)
  have *: "k < 8 \<Longrightarrow> CopyLoadSegments 0x1000000 demo_image (0x100000 + word_of_nat k) =
      (if k < 4 then demo_image (0x1000078 + word_of_nat k) else 0) \<and>
      fst (CalcLoadAddressRange demo_image 0x1000000) \<le> 0x100000 + word_of_nat k \<and>
      0x100000 + word_of_nat k < snd (CalcLoadAddressRange demo_image 0x1000000)" for k
    using load_image [OF demo_image_ok, THEN conjunct1, rule_format, of 0 k] l by (simp add: s)
  from * [of 3] * [of 4] * [of 7] b show ?thesis by simp
qed

end
