(* ===== verification/Boot_Paging.thy ===== *)
theory Boot_Paging
  imports Paging
begin

unbundle bit_operations_syntax

text \<open>
  The page tables the boot program builds (the second half of \<open>BootMain\<close>, boot/boot.c), in
  physical memory, and their translation: the windows of include/paging.h that \<open>P2V\<close> and \<open>v2p\<close>
  compute with.
\<close>

subsection \<open>The tables\<close>

text \<open>The physical addresses of the tables.\<close>

record boot_tables =
  pml4_addr :: u64
  pdp_addr :: u64
  page_dir :: u64
  actual_page_dir :: u64
  actual_page_dir2 :: u64
  kernel_pdp :: u64
  kernel_pdp2 :: u64
  kernel_page_directory_addr :: u64
  kernel_page_table_addr :: u64

definition put_entry :: "addr \<Rightarrow> nat \<Rightarrow> u64 \<Rightarrow> mem \<Rightarrow> mem" where
  "put_entry table i v h = write64 (table + 8 * word_of_nat i) v h"

text \<open>
  The shape of all four nested loops: entry \<open>first + i\<close> of the upper table points to the \<open>i\<close>-th
  page of the lower ones, whose entries are the leaves.
\<close>

definition fill_tables :: "addr \<Rightarrow> nat \<Rightarrow> addr \<Rightarrow> nat \<Rightarrow> (nat \<Rightarrow> nat \<Rightarrow> u64) \<Rightarrow> mem \<Rightarrow> mem" where
  "fill_tables upper first lower n leaf h =
     fold (\<lambda>i h. fold (\<lambda>j. put_entry lower (i * 512 + j) (leaf i j)) [0..<512]
         (put_entry upper (first + i) ((lower + 8 * word_of_nat (i * 512)) OR 0x003) h))
       [0..<n] h"

definition large_page :: "nat \<Rightarrow> nat \<Rightarrow> nat \<Rightarrow> u64" where
  "large_page base i j = word_of_nat (base + i * 512 * 512 * 4096 + j * 512 * 4096) OR 0x083"

definition kernel_page :: "nat \<Rightarrow> nat \<Rightarrow> u64" where
  "kernel_page i j = word_of_nat (0x100000 + i * 4096 * 512 + j * 4096) OR 0x003"

definition map_identity :: "boot_tables \<Rightarrow> mem \<Rightarrow> mem" where
  "map_identity t = fill_tables (pdp_addr t) 0 (page_dir t) 128 (large_page 0)"

definition map_kernel :: "boot_tables \<Rightarrow> mem \<Rightarrow> mem" where
  "map_kernel t = fill_tables (kernel_page_directory_addr t) 0 (kernel_page_table_addr t) 16 kernel_page"

definition map_physical :: "boot_tables \<Rightarrow> mem \<Rightarrow> mem" where
  "map_physical t = fill_tables (kernel_pdp t) (512 - 128) (actual_page_dir t) 128 (large_page 0)"

definition map_physical2 :: "boot_tables \<Rightarrow> mem \<Rightarrow> mem" where
  "map_physical2 t =
     fill_tables (kernel_pdp2 t) 0 (actual_page_dir2 t) 512 (large_page (128 * (512 * 512 * 4096)))"

definition map_top :: "boot_tables \<Rightarrow> mem \<Rightarrow> mem" where
  "map_top t h =
     put_entry (pml4_addr t) 257 (kernel_pdp2 t OR 0x003)
      (put_entry (pml4_addr t) 256 (kernel_pdp t OR 0x003)
       (put_entry (pml4_addr t) 0 (pdp_addr t OR 0x003) h))"

definition build_page_tables :: "boot_tables \<Rightarrow> mem \<Rightarrow> mem" where
  "build_page_tables t h =
     map_physical2 t (map_physical t (map_kernel t
       (put_entry (kernel_pdp t) 0 (kernel_page_directory_addr t OR 0x003)
         (map_identity t (map_top t h)))))"

subsection \<open>Entries after the loops\<close>

lemma read_put_entry:
  assumes "unat b + 8 * (i + 1) \<le> 2 ^ 64" "unat b + 8 * (j + 1) \<le> 2 ^ 64"
  shows "read64 (put_entry b i v h) (b + 8 * word_of_nat j) =
    (if j = i then v else read64 h (b + 8 * word_of_nat j))"
proof -
  have u: "unat (b + 8 * word_of_nat k) = unat b + 8 * k" if "unat b + 8 * (k + 1) \<le> 2 ^ 64" for k
    using that unat_add_of_nat [of b "8 * k"] by simp
  have "bytes_at (b + 8 * word_of_nat j) 8 \<inter> bytes_at (b + 8 * word_of_nat i) 8 = {}" if "j \<noteq> i"
    using that assms by (intro bytes_at_disjoint) (auto simp: u)
  then show ?thesis by (simp add: put_entry_def read64_write64_other)
qed

lemma put_entry_other: "x \<notin> bytes_at (b + 8 * word_of_nat i) 8 \<Longrightarrow> put_entry b i v h x = h x"
  by (simp add: put_entry_def write64_other)

lemma entry_bytes:
  assumes "c \<le> i" "i < c + n"
  shows "bytes_at (b + 8 * word_of_nat i) 8 \<subseteq> bytes_at (b + 8 * word_of_nat c) (8 * n)"
proof -
  have "b + 8 * word_of_nat i = b + 8 * word_of_nat c + word_of_nat (8 * (i - c))"
    using assms(1) by (simp add: algebra_simps)
  moreover have "8 * (i - c) + 8 \<le> 8 * n" using assms by linarith
  ultimately show ?thesis using bytes_at_shift by metis
qed

lemma read64_outside:
  "\<lbrakk>\<And>x. x \<notin> A \<Longrightarrow> h' x = h x; bytes_at a 8 \<inter> A = {}\<rbrakk> \<Longrightarrow> read64 h' a = read64 h a"
  by (rule read64_cong) blast

text \<open>A row of entries.\<close>

lemma fold_put_entry_other:
  assumes "\<forall>x \<in> bytes_at (b + 8 * word_of_nat c) (8 * m). x \<noteq> a"
  shows "fold (\<lambda>j. put_entry b (c + j) (f j)) [0..<m] h a = h a"
  using assms
proof (induction m)
  case (Suc m)
  have "bytes_at (b + 8 * word_of_nat c) (8 * m) \<subseteq> bytes_at (b + 8 * word_of_nat c) (8 * Suc m)"
    by (rule bytes_at_mono) simp
  moreover have "bytes_at (b + 8 * word_of_nat (c + m)) 8 \<subseteq> bytes_at (b + 8 * word_of_nat c) (8 * Suc m)"
    by (rule entry_bytes) simp_all
  ultimately show ?case using Suc
    by (simp del: mult_Suc_right of_nat_add) (subst put_entry_other; blast)
qed simp

lemma fold_put_entry_at:
  assumes "unat b + 8 * (c + m) \<le> 2 ^ 64" "j < m"
  shows "read64 (fold (\<lambda>j. put_entry b (c + j) (f j)) [0..<m] h) (b + 8 * word_of_nat (c + j)) = f j"
  using assms
proof (induction m)
  case (Suc m)
  then show ?case
    by (cases "j = m") (simp_all add: read_put_entry del: of_nat_add)
qed simp

subsection \<open>Two levels of tables\<close>

text \<open>Room for the upper entries and the lower tables, apart from each other.\<close>

definition two_levels :: "addr \<Rightarrow> nat \<Rightarrow> addr \<Rightarrow> nat \<Rightarrow> bool" where
  "two_levels upper first lower n \<longleftrightarrow>
     unat upper + 8 * (first + n) \<le> 2 ^ 64 \<and> unat lower + 4096 * n \<le> 2 ^ 64 \<and>
     bytes_at (upper + 8 * word_of_nat first) (8 * n) \<inter> bytes_at lower (4096 * n) = {}"

definition filled_bytes :: "addr \<Rightarrow> nat \<Rightarrow> addr \<Rightarrow> nat \<Rightarrow> addr set" where
  "filled_bytes upper first lower n =
     bytes_at (upper + 8 * word_of_nat first) (8 * n) \<union> bytes_at lower (4096 * n)"

lemma filled_bytes_mono: "n \<le> m \<Longrightarrow> filled_bytes upper first lower n \<subseteq> filled_bytes upper first lower m"
  unfolding filled_bytes_def by (intro Un_mono bytes_at_mono) simp_all

lemma two_levels_mono:
  assumes "two_levels upper first lower m" "n \<le> m"
  shows "two_levels upper first lower n"
proof -
  have "bytes_at (upper + 8 * word_of_nat first) (8 * n) \<subseteq> bytes_at (upper + 8 * word_of_nat first) (8 * m)"
    "bytes_at lower (4096 * n) \<subseteq> bytes_at lower (4096 * m)"
    using assms(2) by (simp_all add: bytes_at_mono)
  moreover have "8 * (first + n) \<le> 8 * (first + m)" "4096 * n \<le> 4096 * m" using assms(2) by simp_all
  ultimately show ?thesis using assms(1) unfolding two_levels_def
    by (elim conjE, intro conjI) (erule order_trans [rotated], simp, erule order_trans [rotated], simp, blast)
qed

lemma row_bytes: "i < n \<Longrightarrow> bytes_at (lower + 8 * word_of_nat (i * 512)) (8 * 512) \<subseteq> bytes_at lower (4096 * n)"
  using bytes_at_shift [of "4096 * i" 4096 "4096 * n" lower] by (simp add: algebra_simps)

text \<open>The last turn of the outer loop.\<close>

lemma fill_tables_Suc:
  "fill_tables upper first lower (Suc n) leaf h =
   fold (\<lambda>j. put_entry lower (n * 512 + j) (leaf n j)) [0..<512]
     (put_entry upper (first + n) ((lower + 8 * word_of_nat (n * 512)) OR 0x003)
       (fill_tables upper first lower n leaf h))"
  by (simp add: fill_tables_def)

lemma fill_tables_other:
  assumes "x \<notin> filled_bytes upper first lower n"
  shows "fill_tables upper first lower n leaf h x = h x"
  using assms
proof (induction n)
  case (Suc n)
  have up: "bytes_at (upper + 8 * word_of_nat (first + n)) 8 \<subseteq> filled_bytes upper first lower (Suc n)"
    unfolding filled_bytes_def using entry_bytes [of first "first + n" "Suc n" upper] by simp blast
  have row: "bytes_at (lower + 8 * word_of_nat (n * 512)) (8 * 512) \<subseteq> filled_bytes upper first lower (Suc n)"
    unfolding filled_bytes_def using row_bytes [of n "Suc n" lower] by blast
  have "fill_tables upper first lower n leaf h x = h x"
    using Suc filled_bytes_mono [of n "Suc n" upper first lower] by (intro Suc.IH) auto
  moreover have "x \<notin> bytes_at (upper + 8 * word_of_nat (first + n)) 8" using up Suc.prems by blast
  moreover have "\<forall>y \<in> bytes_at (lower + 8 * word_of_nat (n * 512)) (8 * 512). y \<noteq> x" using row Suc.prems by blast
  ultimately show ?case
    unfolding fill_tables_Suc by (subst fold_put_entry_other; simp only: put_entry_other not_False_eq_True)
qed (simp add: fill_tables_def)

lemma fill_tables_read:
  assumes "two_levels upper first lower n"
  shows "(\<forall>i<n. read64 (fill_tables upper first lower n leaf h) (upper + 8 * word_of_nat (first + i)) =
      (lower + 8 * word_of_nat (i * 512)) OR 0x003) \<and>
    (\<forall>i<n. \<forall>j<512. read64 (fill_tables upper first lower n leaf h) (lower + 8 * word_of_nat (i * 512 + j)) = leaf i j)"
  using assms
proof (induction n)
  case (Suc n)
  let ?f = "fill_tables upper first lower n leaf h" and ?u = "(lower + 8 * word_of_nat (n * 512)) OR 0x003"
  let ?g = "put_entry upper (first + n) ?u ?f"
  let ?r = "fold (\<lambda>j. put_entry lower (n * 512 + j) (leaf n j)) [0..<512] ?g"
  have t: "unat upper + 8 * (first + Suc n) \<le> 2 ^ 64" "unat lower + 4096 * Suc n \<le> 2 ^ 64"
    and dis: "bytes_at (upper + 8 * word_of_nat first) (8 * Suc n) \<inter> bytes_at lower (4096 * Suc n) = {}"
    using Suc.prems by (auto simp: two_levels_def)
  note IH = Suc.IH [OF two_levels_mono [OF Suc.prems]]
  have up: "bytes_at (upper + 8 * word_of_nat (first + i)) 8 \<subseteq> bytes_at (upper + 8 * word_of_nat first) (8 * Suc n)"
    if "i < Suc n" for i using that by (intro entry_bytes) simp_all
  have low: "bytes_at (lower + 8 * word_of_nat (i * 512 + j)) 8 \<subseteq> bytes_at lower (4096 * Suc n)"
    if "i < Suc n" "j < 512" for i j
    using that entry_bytes [of 0 "i * 512 + j" "512 * Suc n" lower] by simp
  have row: "bytes_at (lower + 8 * word_of_nat (n * 512)) (8 * 512) \<subseteq> bytes_at lower (4096 * Suc n)"
    by (rule row_bytes) simp
  have fold_other: "read64 ?r a = read64 ?g a"
    if "bytes_at a 8 \<inter> bytes_at (lower + 8 * word_of_nat (n * 512)) (8 * 512) = {}" for a
    by (rule read64_outside [OF _ that]) (rule fold_put_entry_other, blast)
  have "read64 ?r (upper + 8 * word_of_nat (first + i)) = (lower + 8 * word_of_nat (i * 512)) OR 0x003"
    if i: "i < Suc n" for i
  proof -
    have "read64 ?r (upper + 8 * word_of_nat (first + i)) = read64 ?g (upper + 8 * word_of_nat (first + i))"
      using up [OF i] row dis by (intro fold_other) blast
    also have "\<dots> = (lower + 8 * word_of_nat (i * 512)) OR 0x003"
    proof -
      have "unat upper + 8 * (first + n + 1) \<le> 2 ^ 64" "unat upper + 8 * (first + i + 1) \<le> 2 ^ 64"
        using t(1) i by simp_all
      then show ?thesis using IH i
        by (cases "i = n") (simp_all add: read_put_entry del: of_nat_add of_nat_mult)
    qed
    finally show ?thesis .
  qed
  moreover have "read64 ?r (lower + 8 * word_of_nat (i * 512 + j)) = leaf i j"
    if i: "i < Suc n" and j: "j < 512" for i j
  proof (cases "i = n")
    case True
    have "unat lower + 8 * (n * 512 + 512) \<le> 2 ^ 64" using t(2) by simp
    then show ?thesis unfolding True using j by (rule fold_put_entry_at)
  next
    case False
    have "unat lower + 8 * (i * 512 + j) + 8 \<le> unat lower + 8 * (n * 512)"
      using i j False by simp
    moreover have "unat (lower + 8 * word_of_nat (i * 512 + j)) = unat lower + 8 * (i * 512 + j)"
      "unat (lower + 8 * word_of_nat (n * 512)) = unat lower + 8 * (n * 512)"
      using t(2) i j False unat_add_of_nat [of lower "8 * (i * 512 + j)"] unat_add_of_nat [of lower "8 * (n * 512)"]
      by simp_all
    ultimately have "bytes_at (lower + 8 * word_of_nat (i * 512 + j)) 8 \<inter>
        bytes_at (lower + 8 * word_of_nat (n * 512)) (8 * 512) = {}"
      using t(2) by (intro bytes_at_disjoint) auto
    then have "read64 ?r (lower + 8 * word_of_nat (i * 512 + j)) = read64 ?g (lower + 8 * word_of_nat (i * 512 + j))"
      by (rule fold_other)
    also have "\<dots> = read64 ?f (lower + 8 * word_of_nat (i * 512 + j))"
      unfolding put_entry_def using low [OF i j] up [of n] dis by (intro read64_write64_other) blast
    also have "\<dots> = leaf i j" using IH i j False by simp
    finally show ?thesis .
  qed
  ultimately show ?case unfolding fill_tables_Suc by blast
qed simp

subsection \<open>One step of the walk\<close>

lemma part_div: "1 \<le> level \<Longrightarrow> level \<le> 4 \<Longrightarrow> part v level = unat v div 2 ^ part_lo level mod 512"
proof -
  assume l: "1 \<le> level" "level \<le> 4"
  have "unat (drop_bit (part_lo level) v) = unat v div 2 ^ part_lo level"
    unfolding unat_drop_bit_eq by (simp add: drop_bit_eq_div)
  moreover have "unat (take_bit 9 w) = unat w mod 512" for w :: u64
    unfolding unsigned_take_bit_eq by (simp add: take_bit_eq_mod)
  ultimately show ?thesis using l by (simp add: part_def bf_get_def part_width_def)
qed

lemma part_window:
  assumes "1 \<le> level" "level \<le> 4" "unat v = 2 ^ part_lo level * (512 * m + r) + x"
  shows "part v level = (r + x div 2 ^ part_lo level) mod 512"
proof -
  have "unat v div 2 ^ part_lo level = 512 * m + r + x div 2 ^ part_lo level"
    unfolding assms(3) by simp
  moreover have "(512 * m + r + x div 2 ^ part_lo level) mod 512 = (r + x div 2 ^ part_lo level) mod 512"
    by (metis add.assoc mod_mult_self4)
  ultimately show ?thesis using assms(1,2) by (simp add: part_div)
qed

lemma entry_bits:
  assumes "4096 dvd unat a" "unat a < 2 ^ 52"
  shows "pte_frame (a OR 0x003) = a" "pte_frame (a OR 0x083) = a"
    "pte_p (a OR 0x003)" "pte_p (a OR 0x083)" "pte_rw (a OR 0x003)" "pte_rw (a OR 0x083)"
    "\<not> pte_us (a OR 0x003)" "\<not> pte_us (a OR 0x083)" "\<not> bit (a OR 0x003) 7" "bit (a OR 0x083) 7"
proof -
  have z: "\<not> bit a 2" "\<not> bit a 7"
    using assms(1) aligned_bits [of 12 a] by auto
  have f: "pte_addr (a OR x) = take_bit 40 (drop_bit 12 a) OR take_bit 40 (drop_bit 12 x)" for x
    by (simp add: pte_addr_def bf_get_or) (simp add: bf_get_def)
  show "pte_frame (a OR 0x003) = a" "pte_frame (a OR 0x083) = a"
    using page_frame_roundtrip [OF assms] by (simp_all add: pte_frame_def f)
  show "pte_p (a OR 0x003)" "pte_p (a OR 0x083)" "pte_rw (a OR 0x003)" "pte_rw (a OR 0x083)"
    "\<not> pte_us (a OR 0x003)" "\<not> pte_us (a OR 0x083)" "\<not> bit (a OR 0x003) 7" "bit (a OR 0x083) 7"
    using z by (simp_all add: pte_p_def pte_rw_def pte_us_def bit_or_iff)
qed

text \<open>What the boot tables map: writable, not for user programs.\<close>

definition mapped :: "u64 \<Rightarrow> xlate option" where
  "mapped a = Some \<lparr>xaddr = a, xrw = True, xus = False\<rparr>"

definition boot_walk :: "mem \<Rightarrow> nat \<Rightarrow> u64 \<Rightarrow> u64 \<Rightarrow> xlate option" where
  "boot_walk = walk (\<lambda>a. a)"

lemma walk_down:
  assumes "read64 h (t + 8 * word_of_nat (part v (Suc k))) = a OR 0x003"
    and "4096 dvd unat a" "unat a < 2 ^ 52" "1 \<le> k" and "boot_walk h k a v = mapped p"
  shows "boot_walk h (Suc k) t v = mapped p"
  using assms by (simp add: boot_walk_def walk.simps entry_bits mapped_def)

lemma walk_page:
  assumes "read64 h (t + 8 * word_of_nat (part v 1)) = a OR 0x003"
    and "4096 dvd unat a" "unat a < 2 ^ 52"
  shows "boot_walk h 1 t v = mapped (a + (v AND mask 12))"
proof -
  have "a AND NOT (mask 12) = a"
    by (intro bit_word_eqI) (use assms(2) aligned_bits [of 12 a] in \<open>auto simp: bit_simps\<close>)
  then show ?thesis
    using assms by (simp add: boot_walk_def walk.simps entry_bits mapped_def part_lo_def)
qed

lemma walk_large:
  assumes "read64 h (t + 8 * word_of_nat (part v 2)) = a OR 0x083"
    and "2 ^ 21 dvd unat a" "unat a < 2 ^ 52"
  shows "boot_walk h 2 t v = mapped (a + (v AND mask 21))"
proof -
  have "(2 ^ 12 :: nat) dvd 2 ^ 21" by (rule le_imp_power_dvd) simp
  from dvd_trans [OF this assms(2)] have "4096 dvd unat a" by simp
  note e = entry_bits [OF this assms(3)]
  have "a AND NOT (mask 21) = a"
    by (intro bit_word_eqI) (use assms(2) aligned_bits [of 21 a] in \<open>auto simp: bit_simps\<close>)
  then show ?thesis
    using assms(1) by (simp add: boot_walk_def numeral_2_eq_2 walk.simps e mapped_def part_lo_def)
qed

lemma low_bits:
  assumes "unat v mod 2 ^ n = y mod 2 ^ n" "n < 64"
  shows "v AND mask n = (word_of_nat (y mod 2 ^ n) :: u64)"
proof (rule word_eq_unatI)
  have "unat (take_bit n v) = y mod 2 ^ n"
    unfolding unsigned_take_bit_eq using assms(1) by (simp add: take_bit_eq_mod)
  moreover have "(2 :: nat) ^ n < 2 ^ 64" using assms(2) by (rule power_strict_increasing) simp
  then have "y mod 2 ^ n < 2 ^ 64" by (meson mod_less_divisor order_less_trans zero_less_numeral zero_less_power)
  then have "unat (word_of_nat (y mod 2 ^ n) :: u64) = y mod 2 ^ n" by (simp add: unat_of_nat)
  ultimately show "unat (v AND mask n) = unat (word_of_nat (y mod 2 ^ n) :: u64)"
    by (simp add: take_bit_eq_mask)
qed

text \<open>A window of large pages below one entry of the top table.\<close>

lemma large_window:
  assumes top: "read64 h (pml4 + 8 * word_of_nat (part v 4)) = pdp OR 0x003"
    and pdp: "\<And>i. i < n \<Longrightarrow> read64 h (pdp + 8 * word_of_nat (first + i)) = (dir + 8 * word_of_nat (i * 512)) OR 0x003"
    and dir: "\<And>i j. i < n \<Longrightarrow> j < 512 \<Longrightarrow> read64 h (dir + 8 * word_of_nat (i * 512 + j)) = large_page base i j"
    and al: "4096 dvd unat pdp" "unat pdp < 2 ^ 52" "4096 dvd unat dir" "unat dir + 4096 * n \<le> 2 ^ 52"
    and base: "2 ^ 21 dvd base" "base + 2 ^ 30 * n \<le> 2 ^ 52"
    and y: "y < 2 ^ 30 * n" "part v 3 = first + y div 2 ^ 30" "part v 2 = y div 2 ^ 21 mod 512"
      "unat v mod 2 ^ 21 = y mod 2 ^ 21"
  shows "boot_walk h 4 pml4 v = mapped (word_of_nat (base + y))"
proof -
  let ?i = "y div 2 ^ 30" and ?j = "y div 2 ^ 21 mod 512"
  have i: "?i < n" using y(1) by (simp add: less_mult_imp_div_less mult.commute)
  have j: "?j < 512" by simp
  let ?d = "dir + 8 * word_of_nat (?i * 512)"
  have "unat dir + 4096 * ?i < 2 ^ 52" using i al(4) by simp
  then have ud: "unat ?d = unat dir + 4096 * ?i"
    using unat_add_of_nat [of dir "8 * (?i * 512)"] by simp
  have d: "4096 dvd unat ?d" "unat ?d < 2 ^ 52"
    unfolding ud using al(3) \<open>unat dir + 4096 * ?i < 2 ^ 52\<close> by simp_all
  have dirw: "?d + 8 * word_of_nat ?j = dir + 8 * word_of_nat (?i * 512 + ?j)"
    by (simp add: algebra_simps)
  let ?leaf = "base + ?i * 512 * 512 * 4096 + ?j * 512 * 4096"
  have split: "?i * 512 * 512 * 4096 + ?j * 512 * 4096 + y mod 2 ^ 21 = y"
  proof -
    define q r where "q = y div 2 ^ 21" and "r = y mod 2 ^ 21"
    have "?i = q div 512" by (simp add: q_def flip: div_mult2_eq)
    moreover have "q div 512 * 512 + q mod 512 = q" by (rule div_mult_mod_eq)
    moreover have "q * 2 ^ 21 + r = y" unfolding q_def r_def by (rule div_mult_mod_eq)
    moreover have "i * 512 * 512 * 4096 + j * 512 * 4096 + r = y"
      if "i * 512 + j = q" "q * 2 ^ 21 + r = y" for i j
      unfolding that(2) [symmetric] that(1) [symmetric] by simp
    ultimately show ?thesis unfolding q_def [symmetric] r_def [symmetric] by (simp only:)
  qed
  have "base + y < 2 ^ 52" using y(1) base(2) by linarith
  then have lb: "?leaf < 2 ^ 52" "?leaf + y mod 2 ^ 21 < 2 ^ 52" using split by linarith+
  have ul: "unat (word_of_nat ?leaf :: u64) = ?leaf"
    using lb(1) by (simp only: unat_of_nat) simp
  have la: "2 ^ 21 dvd ?leaf" using base(1) by (intro dvd_add) (auto simp: mult.assoc)
  have "boot_walk h 2 ?d v = mapped (word_of_nat ?leaf + (v AND mask 21))"
  proof (rule walk_large)
    show "read64 h (?d + 8 * word_of_nat (part v 2)) = word_of_nat ?leaf OR 0x083"
      unfolding y(3) dirw using dir [OF i j] by (simp only: large_page_def)
    show "2 ^ 21 dvd unat (word_of_nat ?leaf :: u64)" "unat (word_of_nat ?leaf :: u64) < 2 ^ 52"
      unfolding ul using la lb(1) .
  qed
  also have "word_of_nat ?leaf + (v AND mask 21) = (word_of_nat (base + y) :: u64)"
  proof -
    have "v AND mask 21 = word_of_nat (y mod 2 ^ 21)" using y(4) by (intro low_bits) simp_all
    then have "word_of_nat ?leaf + (v AND mask 21) = (word_of_nat (?leaf + y mod 2 ^ 21) :: u64)"
      by (simp only: of_nat_add)
    then show ?thesis using split by (simp only: add.assoc)
  qed
  finally have w2: "boot_walk h 2 ?d v = mapped (word_of_nat (base + y))" .
  have w3: "boot_walk h 3 pdp v = mapped (word_of_nat (base + y))"
  proof -
    have s: "Suc 2 = 3" by simp
    have "read64 h (pdp + 8 * word_of_nat (part v (Suc 2))) = ?d OR 0x003"
      unfolding s y(2) by (rule pdp [OF i])
    from walk_down [OF this d _ w2] show ?thesis by simp
  qed
  have "read64 h (pml4 + 8 * word_of_nat (part v (Suc 3))) = pdp OR 0x003" using top by simp
  from walk_down [OF this al(1,2) _ w3] show ?thesis by simp
qed

text \<open>A window of small pages of the kernel image.\<close>

lemma kernel_window:
  assumes top: "read64 h (pml4 + 8 * word_of_nat (part v 4)) = pdp OR 0x003"
    and pdp: "read64 h (pdp + 8 * word_of_nat (part v 3)) = pd OR 0x003"
    and pd: "\<And>i. i < 16 \<Longrightarrow> read64 h (pd + 8 * word_of_nat i) = (pt + 8 * word_of_nat (i * 512)) OR 0x003"
    and pt: "\<And>i j. i < 16 \<Longrightarrow> j < 512 \<Longrightarrow> read64 h (pt + 8 * word_of_nat (i * 512 + j)) = kernel_page i j"
    and al: "4096 dvd unat pdp" "unat pdp < 2 ^ 52" "4096 dvd unat pd" "unat pd < 2 ^ 52"
      "4096 dvd unat pt" "unat pt + 4096 * 16 \<le> 2 ^ 52"
    and y: "y < 2 ^ 25" "part v 2 = y div 2 ^ 21" "part v 1 = y div 2 ^ 12 mod 512" "unat v mod 2 ^ 12 = y mod 2 ^ 12"
  shows "boot_walk h 4 pml4 v = mapped (word_of_nat (0x100000 + y))"
proof -
  let ?i = "y div 2 ^ 21" and ?j = "y div 2 ^ 12 mod 512"
  have i: "?i < 16" using y(1) by (intro less_mult_imp_div_less) simp
  have j: "?j < 512" by simp
  let ?d = "pt + 8 * word_of_nat (?i * 512)"
  have lt: "unat pt + 4096 * ?i < 2 ^ 52" using i al(6) by linarith
  then have ud: "unat ?d = unat pt + 4096 * ?i"
    using unat_add_of_nat [of pt "8 * (?i * 512)"] by simp
  have d: "4096 dvd unat ?d" "unat ?d < 2 ^ 52"
    unfolding ud using al(5) lt by simp_all
  have ptw: "?d + 8 * word_of_nat ?j = pt + 8 * word_of_nat (?i * 512 + ?j)"
    by (simp add: algebra_simps)
  let ?leaf = "0x100000 + ?i * 4096 * 512 + ?j * 4096"
  have split: "?i * 4096 * 512 + ?j * 4096 + y mod 2 ^ 12 = y"
  proof -
    define q r where "q = y div 2 ^ 12" and "r = y mod 2 ^ 12"
    have "?i = q div 512" by (simp add: q_def flip: div_mult2_eq)
    moreover have "q div 512 * 512 + q mod 512 = q" by (rule div_mult_mod_eq)
    moreover have "q * 2 ^ 12 + r = y" unfolding q_def r_def by (rule div_mult_mod_eq)
    moreover have "i * 4096 * 512 + j * 4096 + r = y" if "i * 512 + j = q" "q * 2 ^ 12 + r = y" for i j
      unfolding that(2) [symmetric] that(1) [symmetric] by simp
    ultimately show ?thesis unfolding q_def [symmetric] r_def [symmetric] by (simp only:)
  qed
  have "0x100000 + a + b < 2 ^ 52" if "a + b + c = y" for a b c using that y(1) by simp
  from this [OF split] have lb: "?leaf < 2 ^ 52" .
  have ul: "unat (word_of_nat ?leaf :: u64) = ?leaf" using lb by (simp only: unat_of_nat) simp
  have la: "4096 dvd ?leaf" by (intro dvd_add) (auto simp: mult.assoc)
  have "boot_walk h 1 ?d v = mapped (word_of_nat ?leaf + (v AND mask 12))"
  proof (rule walk_page)
    show "read64 h (?d + 8 * word_of_nat (part v 1)) = word_of_nat ?leaf OR 0x003"
      unfolding y(3) ptw using pt [OF i j] by (simp only: kernel_page_def)
    show "4096 dvd unat (word_of_nat ?leaf :: u64)" "unat (word_of_nat ?leaf :: u64) < 2 ^ 52"
      unfolding ul using la lb .
  qed
  also have "word_of_nat ?leaf + (v AND mask 12) = (word_of_nat (0x100000 + y) :: u64)"
  proof -
    have "v AND mask 12 = word_of_nat (y mod 2 ^ 12)" using y(4) by (intro low_bits) simp_all
    then have "word_of_nat ?leaf + (v AND mask 12) = (word_of_nat (?leaf + y mod 2 ^ 12) :: u64)"
      by (simp only: of_nat_add)
    then show ?thesis using split by (simp only: add.assoc)
  qed
  finally have w1: "boot_walk h 1 ?d v = mapped (word_of_nat (0x100000 + y))" .
  have "read64 h (pd + 8 * word_of_nat (part v (Suc 1))) = ?d OR 0x003"
    using pd [OF i] y(2) by (simp add: numeral_2_eq_2)
  from walk_down [OF this d _ w1] have w2: "boot_walk h 2 pd v = mapped (word_of_nat (0x100000 + y))"
    by (simp add: numeral_2_eq_2)
  have s: "Suc 2 = 3" by simp
  have "read64 h (pdp + 8 * word_of_nat (part v (Suc 2))) = pd OR 0x003"
    unfolding s by (rule pdp)
  from walk_down [OF this al(3,4) _ w2] have w3: "boot_walk h 3 pdp v = mapped (word_of_nat (0x100000 + y))"
    by simp
  have "read64 h (pml4 + 8 * word_of_nat (part v (Suc 3))) = pdp OR 0x003" using top by simp
  from walk_down [OF this al(1,2) _ w3] show ?thesis by simp
qed

subsection \<open>The boot tables as a whole\<close>

text \<open>The nine allocations: page aligned, below 2^52, apart from each other.\<close>

definition table_regions :: "boot_tables \<Rightarrow> (u64 \<times> nat) list" where
  "table_regions t =
     [(pml4_addr t, 1), (pdp_addr t, 1), (page_dir t, 128), (actual_page_dir t, 128), (actual_page_dir2 t, 512),
      (kernel_pdp t, 1), (kernel_pdp2 t, 1), (kernel_page_directory_addr t, 1), (kernel_page_table_addr t, 16)]"

definition tables_ok :: "boot_tables \<Rightarrow> bool" where
  "tables_ok t \<longleftrightarrow>
     (\<forall>(a, n) \<in> set (table_regions t). 4096 dvd unat a \<and> unat a + 4096 * n \<le> 2 ^ 52) \<and>
     sorted_wrt (\<lambda>(a, n) (b, m). bytes_at a (4096 * n) \<inter> bytes_at b (4096 * m) = {}) (table_regions t)"

lemma disjoint_sym: "A \<inter> B = {} \<Longrightarrow> B \<inter> A = {}" by blast

lemma put_frame:
  "bytes_at a 8 \<subseteq> A \<Longrightarrow> A \<inter> bytes_at u 4096 = {} \<Longrightarrow> i < 512 \<Longrightarrow> read64 (put_entry u i v h) a = read64 h a"
  unfolding put_entry_def using entry_bytes [of 0 i 512 u] by (intro read64_write64_other) auto

lemma fill_frame:
  assumes "bytes_at a 8 \<subseteq> A" "A \<inter> bytes_at u 4096 = {}" "A \<inter> bytes_at l (4096 * n) = {}" "f + n \<le> 512"
  shows "read64 (fill_tables u f l n leaf h) a = read64 h a"
proof (rule read64_outside)
  show "fill_tables u f l n leaf h x = h x" if "x \<notin> filled_bytes u f l n" for x
    using that by (rule fill_tables_other)
  have "bytes_at (u + 8 * word_of_nat f) (8 * n) \<subseteq> bytes_at u 4096"
    using bytes_at_shift [of "8 * f" "8 * n" 4096 u] assms(4) by simp
  then show "bytes_at a 8 \<inter> filled_bytes u f l n = {}" using assms(1-3) unfolding filled_bytes_def by blast
qed

lemma two_levels_I:
  assumes "unat u + 4096 \<le> 2 ^ 52" "unat l + 4096 * n \<le> 2 ^ 52" "f + n \<le> 512"
    "bytes_at u 4096 \<inter> bytes_at l (4096 * n) = {}"
  shows "two_levels u f l n"
proof -
  have "bytes_at (u + 8 * word_of_nat f) (8 * n) \<subseteq> bytes_at u 4096"
    using bytes_at_shift [of "8 * f" "8 * n" 4096 u] assms(3) by simp
  with assms(4) have "bytes_at (u + 8 * word_of_nat f) (8 * n) \<inter> bytes_at l (4096 * n) = {}" by blast
  with assms(1-3) show ?thesis unfolding two_levels_def by auto
qed

text \<open>Slots lie in their tables.\<close>

lemma slot_bytes: "i < 512 * n \<Longrightarrow> bytes_at (b + 8 * word_of_nat i) 8 \<subseteq> bytes_at b (4096 * n)"
  using entry_bytes [of 0 i "512 * n" b] by simp

text \<open>What the finished tables contain.\<close>

definition linked :: "mem \<Rightarrow> addr \<Rightarrow> nat \<Rightarrow> addr \<Rightarrow> nat \<Rightarrow> (nat \<Rightarrow> nat \<Rightarrow> u64) \<Rightarrow> bool" where
  "linked h upper first lower n leaf \<longleftrightarrow>
     (\<forall>i<n. read64 h (upper + 8 * word_of_nat (first + i)) = (lower + 8 * word_of_nat (i * 512)) OR 0x003) \<and>
     (\<forall>i<n. \<forall>j<512. read64 h (lower + 8 * word_of_nat (i * 512 + j)) = leaf i j)"

lemma linked_fill: "two_levels u f l n \<Longrightarrow> linked (fill_tables u f l n leaf h) u f l n leaf"
  unfolding linked_def by (rule fill_tables_read)

text \<open>Later loops keep it, when they work on other tables.\<close>

lemma linked_frame:
  assumes "linked h u f l n leaf" "f + n \<le> 512"
    and "\<And>a A. A = bytes_at u 4096 \<or> A = bytes_at l (4096 * n) \<Longrightarrow> bytes_at a 8 \<subseteq> A \<Longrightarrow> read64 h' a = read64 h a"
  shows "linked h' u f l n leaf"
proof -
  have "read64 h' (u + 8 * word_of_nat (f + i)) = read64 h (u + 8 * word_of_nat (f + i))" if "i < n" for i
    using assms(2) that slot_bytes [of "f + i" 1 u] by (intro assms(3)) auto
  moreover have "read64 h' (l + 8 * word_of_nat (i * 512 + j)) = read64 h (l + 8 * word_of_nat (i * 512 + j))"
    if "i < n" "j < 512" for i j
    using that slot_bytes [of "i * 512 + j" n l] by (intro assms(3)) auto
  ultimately show ?thesis using assms(1) by (simp add: linked_def)
qed

definition tables_built :: "boot_tables \<Rightarrow> mem \<Rightarrow> bool" where
  "tables_built t h \<longleftrightarrow>
     read64 h (pml4_addr t + 8 * word_of_nat 0) = pdp_addr t OR 0x003 \<and>
     read64 h (pml4_addr t + 8 * word_of_nat 256) = kernel_pdp t OR 0x003 \<and>
     read64 h (pml4_addr t + 8 * word_of_nat 257) = kernel_pdp2 t OR 0x003 \<and>
     read64 h (kernel_pdp t + 8 * word_of_nat 0) = kernel_page_directory_addr t OR 0x003 \<and>
     linked h (pdp_addr t) 0 (page_dir t) 128 (large_page 0) \<and>
     linked h (kernel_page_directory_addr t) 0 (kernel_page_table_addr t) 16 kernel_page \<and>
     linked h (kernel_pdp t) 384 (actual_page_dir t) 128 (large_page 0) \<and>
     linked h (kernel_pdp2 t) 0 (actual_page_dir2 t) 512 (large_page (128 * (512 * 512 * 4096)))"

lemma map_top_entries:
  assumes "unat (pml4_addr t) + 4096 \<le> 2 ^ 52"
  shows "read64 (map_top t h) (pml4_addr t + 8 * word_of_nat 0) = pdp_addr t OR 0x003"
    and "read64 (map_top t h) (pml4_addr t + 8 * word_of_nat 256) = kernel_pdp t OR 0x003"
    and "read64 (map_top t h) (pml4_addr t + 8 * word_of_nat 257) = kernel_pdp2 t OR 0x003"
proof -
  have same: "read64 (put_entry (pml4_addr t) i v g) (pml4_addr t + 8 * word_of_nat i) = v" if "i < 512" for i v g
    using assms that by (subst read_put_entry) simp_all
  have other: "read64 (put_entry (pml4_addr t) i v g) (pml4_addr t + 8 * word_of_nat j) =
      read64 g (pml4_addr t + 8 * word_of_nat j)" if "j \<noteq> i" "i < 512" "j < 512" for i j v g
    using assms that by (subst read_put_entry) simp_all
  show "read64 (map_top t h) (pml4_addr t + 8 * word_of_nat 0) = pdp_addr t OR 0x003"
    unfolding map_top_def by (rule trans [OF other trans [OF other same]]) simp_all
  show "read64 (map_top t h) (pml4_addr t + 8 * word_of_nat 256) = kernel_pdp t OR 0x003"
    unfolding map_top_def by (rule trans [OF other same]) simp_all
  show "read64 (map_top t h) (pml4_addr t + 8 * word_of_nat 257) = kernel_pdp2 t OR 0x003"
    unfolding map_top_def by (rule same) simp
qed

lemma build_tables:
  assumes ok: "tables_ok t"
  shows "tables_built t (build_page_tables t h)"
proof -
  note D = ok [unfolded tables_ok_def table_regions_def, THEN conjunct2, simplified]
  note B = ok [unfolded tables_ok_def table_regions_def, THEN conjunct1, simplified]
  define h1 where "h1 = map_top t h"
  define h2 where "h2 = map_identity t h1"
  define h3 where "h3 = put_entry (kernel_pdp t) 0 (kernel_page_directory_addr t OR 0x003) h2"
  define h4 where "h4 = map_kernel t h3"
  define h5 where "h5 = map_physical t h4"
  define h6 where "h6 = map_physical2 t h5"
  have b: "build_page_tables t h = h6"
    by (simp add: build_page_tables_def h6_def h5_def h4_def h3_def h2_def h1_def)
  have f2: "read64 h2 a = read64 h1 a"
    if "bytes_at a 8 \<subseteq> A" "A \<inter> bytes_at (pdp_addr t) 4096 = {}" "A \<inter> bytes_at (page_dir t) (4096 * 128) = {}" for a A
    unfolding h2_def map_identity_def by (rule fill_frame [OF that]) simp
  have f3: "read64 h3 a = read64 h2 a"
    if "bytes_at a 8 \<subseteq> A" "A \<inter> bytes_at (kernel_pdp t) 4096 = {}" for a A
    unfolding h3_def by (rule put_frame [OF that]) simp
  have f4: "read64 h4 a = read64 h3 a"
    if "bytes_at a 8 \<subseteq> A" "A \<inter> bytes_at (kernel_page_directory_addr t) 4096 = {}"
      "A \<inter> bytes_at (kernel_page_table_addr t) (4096 * 16) = {}" for a A
    unfolding h4_def map_kernel_def by (rule fill_frame [OF that]) simp
  have f5: "read64 h5 a = read64 h4 a"
    if "bytes_at a 8 \<subseteq> A" "A \<inter> bytes_at (kernel_pdp t) 4096 = {}" "A \<inter> bytes_at (actual_page_dir t) (4096 * 128) = {}" for a A
    unfolding h5_def map_physical_def by (rule fill_frame [OF that]) simp
  have f6: "read64 h6 a = read64 h5 a"
    if "bytes_at a 8 \<subseteq> A" "A \<inter> bytes_at (kernel_pdp2 t) 4096 = {}" "A \<inter> bytes_at (actual_page_dir2 t) (4096 * 512) = {}" for a A
    unfolding h6_def map_physical2_def by (rule fill_frame [OF that]) simp
  have e0: "read64 h6 a = read64 h1 a" if "bytes_at a 8 \<subseteq> bytes_at (pml4_addr t) 4096" for a
    using that D by (simp add: f6 [OF that] f5 [OF that] f4 [OF that] f3 [OF that] f2 [OF that])
  have pm: "bytes_at (pml4_addr t + 8 * word_of_nat i) 8 \<subseteq> bytes_at (pml4_addr t) 4096" if "i < 512" for i
    using that slot_bytes [of i 1 "pml4_addr t"] by simp
  have top: "read64 h6 (pml4_addr t + 8 * word_of_nat 0) = pdp_addr t OR 0x003"
    "read64 h6 (pml4_addr t + 8 * word_of_nat 256) = kernel_pdp t OR 0x003"
    "read64 h6 (pml4_addr t + 8 * word_of_nat 257) = kernel_pdp2 t OR 0x003"
    using map_top_entries [of t h] B pm [of 0] pm [of 256] pm [of 257]
    by (simp_all only: e0 h1_def) simp_all
  have "linked h2 (pdp_addr t) 0 (page_dir t) 128 (large_page 0)"
    unfolding h2_def map_identity_def using B D by (intro linked_fill two_levels_I) simp_all
  then have "linked h6 (pdp_addr t) 0 (page_dir t) 128 (large_page 0)"
  proof (rule linked_frame)
    fix a A
    assume "A = bytes_at (pdp_addr t) 4096 \<or> A = bytes_at (page_dir t) (4096 * 128)" and a: "bytes_at a 8 \<subseteq> A"
    then show "read64 h6 a = read64 h2 a"
      using D by (elim disjE) (simp_all add: f6 [OF a] f5 [OF a] f4 [OF a] f3 [OF a])
  qed simp
  have D2: "bytes_at (kernel_page_directory_addr t) 4096 \<inter> bytes_at (kernel_pdp t) 4096 = {}"
    "bytes_at (kernel_page_directory_addr t) 4096 \<inter> bytes_at (actual_page_dir t) (4096 * 128) = {}"
    "bytes_at (kernel_page_directory_addr t) 4096 \<inter> bytes_at (kernel_pdp2 t) 4096 = {}"
    "bytes_at (kernel_page_directory_addr t) 4096 \<inter> bytes_at (actual_page_dir2 t) (4096 * 512) = {}"
    "bytes_at (kernel_page_table_addr t) (4096 * 16) \<inter> bytes_at (kernel_pdp t) 4096 = {}"
    "bytes_at (kernel_page_table_addr t) (4096 * 16) \<inter> bytes_at (actual_page_dir t) (4096 * 128) = {}"
    "bytes_at (kernel_page_table_addr t) (4096 * 16) \<inter> bytes_at (kernel_pdp2 t) 4096 = {}"
    "bytes_at (kernel_page_table_addr t) (4096 * 16) \<inter> bytes_at (actual_page_dir2 t) (4096 * 512) = {}"
    "bytes_at (kernel_pdp t) 4096 \<inter> bytes_at (actual_page_dir2 t) (4096 * 512) = {}"
    "bytes_at (kernel_pdp t) 4096 \<inter> bytes_at (actual_page_dir t) (4096 * 128) = {}"
    "bytes_at (kernel_pdp2 t) 4096 \<inter> bytes_at (actual_page_dir2 t) (4096 * 512) = {}"
    by (rule disjoint_sym, simp add: D)+
  have "linked h4 (kernel_page_directory_addr t) 0 (kernel_page_table_addr t) 16 kernel_page"
    unfolding h4_def map_kernel_def using B D by (intro linked_fill two_levels_I) simp_all
  then have "linked h6 (kernel_page_directory_addr t) 0 (kernel_page_table_addr t) 16 kernel_page"
  proof (rule linked_frame)
    fix a A
    assume "A = bytes_at (kernel_page_directory_addr t) 4096 \<or> A = bytes_at (kernel_page_table_addr t) (4096 * 16)"
      and a: "bytes_at a 8 \<subseteq> A"
    then show "read64 h6 a = read64 h4 a"
      using D2 by (elim disjE) (simp_all add: f6 [OF a] f5 [OF a])
  qed simp
  moreover have "linked h5 (kernel_pdp t) 384 (actual_page_dir t) 128 (large_page 0)"
    unfolding h5_def map_physical_def using B D2 by (simp, intro linked_fill two_levels_I) simp_all
  then have "linked h6 (kernel_pdp t) 384 (actual_page_dir t) 128 (large_page 0)"
  proof (rule linked_frame)
    fix a A
    assume "A = bytes_at (kernel_pdp t) 4096 \<or> A = bytes_at (actual_page_dir t) (4096 * 128)"
      and a: "bytes_at a 8 \<subseteq> A"
    then show "read64 h6 a = read64 h5 a"
      using D D2 by (elim disjE) (simp_all add: f6 [OF a])
  qed simp
  moreover have "linked h6 (kernel_pdp2 t) 0 (actual_page_dir2 t) 512 (large_page (128 * (512 * 512 * 4096)))"
    unfolding h6_def map_physical2_def using B D2 by (intro linked_fill two_levels_I) simp_all
  moreover have "read64 h6 (kernel_pdp t + 8 * word_of_nat 0) = kernel_page_directory_addr t OR 0x003"
  proof -
    let ?a = "kernel_pdp t + 8 * word_of_nat 0"
    have a: "bytes_at ?a 8 \<subseteq> bytes_at (kernel_pdp t) 4096" using slot_bytes [of 0 1 "kernel_pdp t"] by simp
    have "read64 h6 ?a = read64 h5 ?a" using D D2 by (intro f6 [OF a]) simp_all
    also have "\<dots> = read64 h4 ?a"
      unfolding h5_def map_physical_def
    proof (rule read64_outside [OF fill_tables_other])
      have "bytes_at ?a 8 \<inter> bytes_at (kernel_pdp t + 8 * word_of_nat (512 - 128)) (8 * 128) = {}"
        using B unat_add_of_nat [of "kernel_pdp t" "8 * 384"] by (intro bytes_at_disjoint) auto
      then show "bytes_at ?a 8 \<inter> filled_bytes (kernel_pdp t) (512 - 128) (actual_page_dir t) 128 = {}"
        unfolding filled_bytes_def using a D2(10) by blast
    qed
    also have "\<dots> = read64 h3 ?a" using D by (intro f4 [OF a]) simp_all
    also have "\<dots> = kernel_page_directory_addr t OR 0x003"
      unfolding h3_def using B by (subst read_put_entry) simp_all
    finally show ?thesis .
  qed
  ultimately show ?thesis
    using top \<open>linked h6 (pdp_addr t) 0 (page_dir t) 128 (large_page 0)\<close> unfolding b tables_built_def by blast
qed

text \<open>Other memory is left alone.\<close>

definition region_bytes :: "(u64 \<times> nat) list \<Rightarrow> addr set" where
  "region_bytes rs = (\<Union>(a, n) \<in> set rs. bytes_at a (4096 * n))"

lemma build_other:
  assumes "x \<notin> region_bytes (table_regions t)"
  shows "build_page_tables t h x = h x"
proof -
  have apart: "x \<notin> bytes_at u (4096 * n)" if "(u, n) \<in> set (table_regions t)" for u n
    using assms that unfolding region_bytes_def by blast
  have fill: "fill_tables u f l n leaf h x = h x"
    if "(u, 1) \<in> set (table_regions t)" "(l, n) \<in> set (table_regions t)" "f + n \<le> 512" for u f l n leaf h
  proof (rule fill_tables_other)
    have "bytes_at (u + 8 * word_of_nat f) (8 * n) \<subseteq> bytes_at u (4096 * 1)"
      using bytes_at_shift [of "8 * f" "8 * n" 4096 u] that(3) by simp
    then show "x \<notin> filled_bytes u f l n"
      using apart [OF that(1)] apart [OF that(2)] unfolding filled_bytes_def by blast
  qed
  have put: "put_entry u i v h x = h x" if "(u, 1) \<in> set (table_regions t)" "i < 512" for u i v h
    using apart [OF that(1)] slot_bytes [of i 1 u] that(2) by (intro put_entry_other) auto
  have m: "(pml4_addr t, 1) \<in> set (table_regions t)" "(kernel_pdp t, 1) \<in> set (table_regions t)"
    "(pdp_addr t, 1) \<in> set (table_regions t)" "(page_dir t, 128) \<in> set (table_regions t)"
    "(kernel_page_directory_addr t, 1) \<in> set (table_regions t)" "(kernel_page_table_addr t, 16) \<in> set (table_regions t)"
    "(actual_page_dir t, 128) \<in> set (table_regions t)" "(kernel_pdp2 t, 1) \<in> set (table_regions t)"
    "(actual_page_dir2 t, 512) \<in> set (table_regions t)"
    by (simp_all add: table_regions_def)
  show ?thesis
    unfolding build_page_tables_def map_physical2_def map_physical_def map_kernel_def map_identity_def map_top_def
    by (simp only: fill [OF m(8,9)] fill [OF m(2,7)] fill [OF m(5,6)] fill [OF m(3,4)] put [OF m(1)] put [OF m(2)])
qed

subsection \<open>Translation\<close>

lemma parts_lo: "part_lo 4 = 39" "part_lo 3 = 30" "part_lo 2 = 21" "part_lo 1 = 12"
  "part_lo (Suc 0) = 12"
  by (simp_all add: part_lo_def)

lemma linkedD:
  "linked h u f l n leaf \<Longrightarrow> i < n \<Longrightarrow> read64 h (u + 8 * word_of_nat (f + i)) = (l + 8 * word_of_nat (i * 512)) OR 0x003"
  "linked h u f l n leaf \<Longrightarrow> i < n \<Longrightarrow> j < 512 \<Longrightarrow> read64 h (l + 8 * word_of_nat (i * 512 + j)) = leaf i j"
  by (simp_all add: linked_def)

lemma boot_identity:
  assumes ok: "tables_ok t" and built: "tables_built t h" and v: "v < 0x2000000000"
  shows "boot_walk h 4 (pml4_addr t) v = mapped v"
proof -
  note B = ok [unfolded tables_ok_def table_regions_def, THEN conjunct1, simplified]
  note L = built [unfolded tables_built_def]
  have y: "unat v < 2 ^ 37" using v by (simp add: word_less_nat_alt)
  have p: "part v 4 = 0" "part v 3 = 0 + unat v div 2 ^ 30" "part v 2 = unat v div 2 ^ 21 mod 512"
    using part_window [of 4 v 0 0 "unat v"] part_window [of 3 v 0 0 "unat v"] part_window [of 2 v 0 0 "unat v"] y
    by (simp_all add: parts_lo)
  have "boot_walk h 4 (pml4_addr t) v = mapped (word_of_nat (0 + unat v))"
  proof (rule large_window)
    show "read64 h (pml4_addr t + 8 * word_of_nat (part v 4)) = pdp_addr t OR 0x003"
      unfolding p using L by blast
    show "read64 h (pdp_addr t + 8 * word_of_nat (0 + i)) = (page_dir t + 8 * word_of_nat (i * 512)) OR 0x003" if "i < 128" for i
      using that L linkedD(1) by blast
    show "read64 h (page_dir t + 8 * word_of_nat (i * 512 + j)) = large_page 0 i j" if "i < 128" "j < 512" for i j
      using that L linkedD(2) by blast
  qed (use B p y in simp_all)
  then show ?thesis by simp
qed

lemma boot_physical:
  assumes ok: "tables_ok t" and built: "tables_built t h"
    and v: "unat v = unat PAGE_OFFSET + y" "y < 640 * 2 ^ 30"
  shows "boot_walk h 4 (pml4_addr t) v = mapped (word_of_nat y)"
proof (cases "y < 2 ^ 37")
  case True
  note B = ok [unfolded tables_ok_def table_regions_def, THEN conjunct1, simplified]
  note L = built [unfolded tables_built_def]
  have po: "unat PAGE_OFFSET = 2 ^ 39 * (512 * 65535 + 256) + 412316860416"
    "unat PAGE_OFFSET = 2 ^ 30 * (512 * 33554176 + 384)" "unat PAGE_OFFSET = 2 ^ 21 * (512 * 17179738496 + 0)"
    by (simp_all add: PAGE_OFFSET_def)
  have p: "part v 4 = 256" "part v 3 = 384 + y div 2 ^ 30" "part v 2 = y div 2 ^ 21 mod 512" "unat v mod 2 ^ 21 = y mod 2 ^ 21"
  proof -
    have "part v 4 = (256 + (412316860416 + y) div 2 ^ 39) mod 512"
      using v po(1) by (subst part_window [of 4 v 65535 256 "412316860416 + y"]) (simp_all add: parts_lo)
    moreover have "(412316860416 + y) div 2 ^ 39 = 0" using True by simp
    ultimately show "part v 4 = 256" by simp
    have "part v 3 = (384 + y div 2 ^ 30) mod 512"
      using v po(2) by (subst part_window [of 3 v 33554176 384 y]) (simp_all add: parts_lo)
    moreover have "y div 2 ^ 30 < 128" using True by (intro less_mult_imp_div_less) simp
    ultimately show "part v 3 = 384 + y div 2 ^ 30" by simp
    show "part v 2 = y div 2 ^ 21 mod 512"
      using v po(3) by (subst part_window [of 2 v 17179738496 0 y]) (simp_all add: parts_lo)
    show "unat v mod 2 ^ 21 = y mod 2 ^ 21" unfolding v(1) po(3) by (rule mod_mult_self4)
  qed
  have "boot_walk h 4 (pml4_addr t) v = mapped (word_of_nat (0 + y))"
  proof (rule large_window)
    show "read64 h (pml4_addr t + 8 * word_of_nat (part v 4)) = kernel_pdp t OR 0x003"
      unfolding p using L by blast
    show "read64 h (kernel_pdp t + 8 * word_of_nat (384 + i)) = (actual_page_dir t + 8 * word_of_nat (i * 512)) OR 0x003" if "i < 128" for i
      using that L linkedD(1) by blast
    show "read64 h (actual_page_dir t + 8 * word_of_nat (i * 512 + j)) = large_page 0 i j" if "i < 128" "j < 512" for i j
      using that L linkedD(2) by blast
  qed (use B p True in simp_all)
  then show ?thesis by simp
next
  case False
  note B = ok [unfolded tables_ok_def table_regions_def, THEN conjunct1, simplified]
  note L = built [unfolded tables_built_def]
  define z where "z = y - 2 ^ 37"
  have z: "y = 2 ^ 37 + z" "z < 2 ^ 39" using False v(2) by (simp_all add: z_def)
  have po: "unat PAGE_OFFSET + 2 ^ 37 = 2 ^ 39 * (512 * 65535 + 257)"
    "unat PAGE_OFFSET + 2 ^ 37 = 2 ^ 30 * (512 * 33554177 + 0)" "unat PAGE_OFFSET + 2 ^ 37 = 2 ^ 21 * (512 * 17179738624 + 0)"
    by (simp_all add: PAGE_OFFSET_def)
  have vz: "unat v = unat PAGE_OFFSET + 2 ^ 37 + z" using v(1) z(1) by simp
  have p: "part v 4 = 257" "part v 3 = 0 + z div 2 ^ 30" "part v 2 = z div 2 ^ 21 mod 512" "unat v mod 2 ^ 21 = z mod 2 ^ 21"
  proof -
    have "part v 4 = (257 + z div 2 ^ 39) mod 512"
      using vz po(1) by (subst part_window [of 4 v 65535 257 z]) (simp_all add: parts_lo)
    then show "part v 4 = 257" using z(2) by simp
    have "part v 3 = (0 + z div 2 ^ 30) mod 512"
      using vz po(2) by (subst part_window [of 3 v 33554177 0 z]) (simp_all add: parts_lo)
    moreover have "z div 2 ^ 30 < 512" using z(2) by (intro less_mult_imp_div_less) simp
    ultimately show "part v 3 = 0 + z div 2 ^ 30" by simp
    show "part v 2 = z div 2 ^ 21 mod 512"
      using vz po(3) by (subst part_window [of 2 v 17179738624 0 z]) (simp_all add: parts_lo)
    show "unat v mod 2 ^ 21 = z mod 2 ^ 21" unfolding vz po(3) by (rule mod_mult_self4)
  qed
  have "boot_walk h 4 (pml4_addr t) v = mapped (word_of_nat (128 * (512 * 512 * 4096) + z))"
  proof (rule large_window)
    show "read64 h (pml4_addr t + 8 * word_of_nat (part v 4)) = kernel_pdp2 t OR 0x003"
      unfolding p using L by blast
    show "read64 h (kernel_pdp2 t + 8 * word_of_nat (0 + i)) = (actual_page_dir2 t + 8 * word_of_nat (i * 512)) OR 0x003" if "i < 512" for i
      using that L linkedD(1) by blast
    show "read64 h (actual_page_dir2 t + 8 * word_of_nat (i * 512 + j)) = large_page (128 * (512 * 512 * 4096)) i j" if "i < 512" "j < 512" for i j
      using that L linkedD(2) by blast
  qed (use B p z in simp_all)
  then show ?thesis using z(1) by simp
qed

lemma boot_kernel:
  assumes ok: "tables_ok t" and built: "tables_built t h"
    and v: "unat v = unat KERNEL_MAPPING + y" "y < 2 ^ 25"
  shows "boot_walk h 4 (pml4_addr t) v = mapped (word_of_nat (0x100000 + y))"
proof -
  note B = ok [unfolded tables_ok_def table_regions_def, THEN conjunct1, simplified]
  note L = built [unfolded tables_built_def]
  have km: "unat KERNEL_MAPPING = 2 ^ 39 * (512 * 65535 + 256)" "unat KERNEL_MAPPING = 2 ^ 30 * (512 * 33554176 + 0)"
    "unat KERNEL_MAPPING = 2 ^ 21 * (512 * 17179738112 + 0)" "unat KERNEL_MAPPING = 2 ^ 12 * (512 * 8796025913344 + 0)"
    by (simp_all add: KERNEL_MAPPING_def)
  have p: "part v 4 = 256" "part v 3 = 0" "part v 2 = y div 2 ^ 21" "part v 1 = y div 2 ^ 12 mod 512"
    "unat v mod 2 ^ 12 = y mod 2 ^ 12"
  proof -
    have "part v 4 = (256 + y div 2 ^ 39) mod 512"
      using v km(1) by (subst part_window [of 4 v 65535 256 y]) (simp_all add: parts_lo)
    then show "part v 4 = 256" using v(2) by simp
    have "part v 3 = (0 + y div 2 ^ 30) mod 512"
      using v km(2) by (subst part_window [of 3 v 33554176 0 y]) (simp_all add: parts_lo)
    then show "part v 3 = 0" using v(2) by simp
    have "part v 2 = (0 + y div 2 ^ 21) mod 512"
      using v km(3) by (subst part_window [of 2 v 17179738112 0 y]) (simp_all add: parts_lo)
    moreover have "y div 2 ^ 21 < 16" using v(2) by (intro less_mult_imp_div_less) simp
    ultimately show "part v 2 = y div 2 ^ 21" by simp
    show "part v 1 = y div 2 ^ 12 mod 512"
      using v km(4) by (subst part_window [of 1 v 8796025913344 0 y]) (simp_all add: parts_lo)
    show "unat v mod 2 ^ 12 = y mod 2 ^ 12" unfolding v(1) km(4) by (rule mod_mult_self4)
  qed
  show ?thesis
  proof (rule kernel_window)
    show "read64 h (pml4_addr t + 8 * word_of_nat (part v 4)) = kernel_pdp t OR 0x003"
      unfolding p using L by blast
    show "read64 h (kernel_pdp t + 8 * word_of_nat (part v 3)) = kernel_page_directory_addr t OR 0x003"
      unfolding p using L by blast
    show "read64 h (kernel_page_directory_addr t + 8 * word_of_nat i) =
        (kernel_page_table_addr t + 8 * word_of_nat (i * 512)) OR 0x003" if "i < 16" for i
      using that L linkedD(1) [of h "kernel_page_directory_addr t" 0 _ 16 _ i] by auto
    show "read64 h (kernel_page_table_addr t + 8 * word_of_nat (i * 512 + j)) = kernel_page i j" if "i < 16" "j < 512" for i j
      using that L linkedD(2) by blast
  qed (use B p v in simp_all)
qed

text \<open>Both windows.\<close>

definition in_window :: "u64 \<Rightarrow> bool" where
  "in_window v \<longleftrightarrow> KERNEL_MAPPING \<le> v \<and> v < KERNEL_MAPPING + 0x2000000 \<or>
      PAGE_OFFSET \<le> v \<and> v < PAGE_OFFSET + 0xa000000000"

lemma boot_windows:
  assumes "tables_ok t" "tables_built t h" "in_window v"
  shows "boot_walk h 4 (pml4_addr t) v = mapped (v2p v)"
  using assms(3) unfolding in_window_def
proof
  assume v: "KERNEL_MAPPING \<le> v \<and> v < KERNEL_MAPPING + 0x2000000"
  define y where "y = unat v - unat KERNEL_MAPPING"
  have uv: "unat v = unat KERNEL_MAPPING + y" "y < 2 ^ 25"
    using v by (auto simp: y_def word_le_nat_alt word_less_nat_alt KERNEL_MAPPING_def)
  have "v < PAGE_OFFSET" using v by (auto simp: word_less_nat_alt KERNEL_MAPPING_def PAGE_OFFSET_def)
  then have "v2p v = v - KERNEL_MAPPING + 0x100000" by (rule v2p_image)
  moreover have "unat (v - KERNEL_MAPPING) = y" using v by (simp add: unat_sub_exact y_def)
  then have "v - KERNEL_MAPPING = word_of_nat y" by auto
  ultimately have "v2p v = word_of_nat (0x100000 + y)" by simp
  then show ?thesis using boot_kernel [OF assms(1,2) uv] by simp
next
  assume v: "PAGE_OFFSET \<le> v \<and> v < PAGE_OFFSET + 0xa000000000"
  define y where "y = unat v - unat PAGE_OFFSET"
  have uv: "unat v = unat PAGE_OFFSET + y" "y < 640 * 2 ^ 30"
    using v by (auto simp: y_def word_le_nat_alt word_less_nat_alt PAGE_OFFSET_def)
  have "v2p v = v - PAGE_OFFSET" using v by (intro v2p_direct) simp
  moreover have "unat (v - PAGE_OFFSET) = y" using v by (simp add: unat_sub_exact y_def)
  then have "v - PAGE_OFFSET = word_of_nat y" by auto
  ultimately show ?thesis using boot_physical [OF assms(1,2) uv] by simp
qed

text \<open>
  C13: With the boot program's page tables, built in separate pages over whatever memory held, the
  processor translates the two windows of include/paging.h exactly as \<open>v2p\<close> computes: the kernel
  image's 32 MB, and 640 GB (not the 512 GB of the comment in the source) of physical memory from
  \<open>PAGE_OFFSET\<close>; and the first 128 GB to themselves, so the loader keeps running when the tables
  are switched. Everything is writable and closed to user programs.
\<close>
theorem boot_translation:
  assumes "tables_ok t"
    and "KERNEL_MAPPING \<le> v \<and> v < KERNEL_MAPPING + 0x2000000 \<or>
      PAGE_OFFSET \<le> v \<and> v < PAGE_OFFSET + 0xa000000000"
  shows "walk (\<lambda>a. a) (build_page_tables t h) 4 (pml4_addr t) v =
      Some \<lparr>xaddr = v2p v, xrw = True, xus = False\<rparr> \<and>
    (w < 0x2000000000 \<longrightarrow> walk (\<lambda>a. a) (build_page_tables t h) 4 (pml4_addr t) w =
      Some \<lparr>xaddr = w, xrw = True, xus = False\<rparr>)"
proof -
  note built = build_tables [OF assms(1), of h]
  have "boot_walk (build_page_tables t h) 4 (pml4_addr t) v = mapped (v2p v)"
    using boot_windows [OF assms(1) built] assms(2) by (simp add: in_window_def)
  moreover have "boot_walk (build_page_tables t h) 4 (pml4_addr t) w = mapped w" if "w < 0x2000000000"
    using boot_identity [OF assms(1) built that] .
  ultimately show ?thesis by (simp add: boot_walk_def mapped_def)
qed

text \<open>Tables in the pages from 16 MB.\<close>

definition demo_tables :: boot_tables where
  "demo_tables = \<lparr>pml4_addr = 0x1000000, pdp_addr = 0x1001000, page_dir = 0x1100000,
     actual_page_dir = 0x1200000, actual_page_dir2 = 0x1400000, kernel_pdp = 0x1002000,
     kernel_pdp2 = 0x1003000, kernel_page_directory_addr = 0x1004000, kernel_page_table_addr = 0x1010000\<rparr>"

lemma demo_tables_ok: "tables_ok demo_tables"
proof -
  have "bytes_at a (4096 * n) \<inter> bytes_at b (4096 * m) = {}"
    if "unat a + 4096 * n \<le> unat b \<or> unat b + 4096 * m \<le> unat a" "unat a + 4096 * n \<le> 2 ^ 64"
      "unat b + 4096 * m \<le> 2 ^ 64" for a b :: u64 and n m
    using that by (intro bytes_at_disjoint) auto
  then have "sorted_wrt (\<lambda>(a, n) (b, m). bytes_at a (4096 * n) \<inter> bytes_at b (4096 * m) = {}) (table_regions demo_tables)"
    by (simp add: table_regions_def demo_tables_def bytes_at_disjoint)
  then show ?thesis by (simp add: tables_ok_def) (simp add: table_regions_def demo_tables_def)
qed

theorem boot_translation_witness:
  "walk (\<lambda>a. a) (build_page_tables demo_tables (\<lambda>_. 0xff)) 4 0x1000000 0xffff800000001234 =
     Some \<lparr>xaddr = 0x101234, xrw = True, xus = False\<rparr> \<and>
   walk (\<lambda>a. a) (build_page_tables demo_tables (\<lambda>_. 0xff)) 4 0x1000000 0xffff806080000678 =
     Some \<lparr>xaddr = 0x80000678, xrw = True, xus = False\<rparr>"
  using boot_translation [OF demo_tables_ok, of "0xffff800000001234" "\<lambda>_. 0xff" 0]
    boot_translation [OF demo_tables_ok, of "0xffff806080000678" "\<lambda>_. 0xff" 0]
  by (simp add: demo_tables_def v2p_def KERNEL_MAPPING_def PAGE_OFFSET_def)

end
