(* ===== verification/Boot.thy ===== *)
theory Boot
  imports Elf_Load Boot_Paging
begin

unbundle bit_operations_syntax

text \<open>
  The UEFI boot program (boot/boot.c, boot/lib.c): from the firmware's call of \<open>BootMain\<close> to the
  jump to \<open>vMain\<close>. The firmware is not code of the repository: its services are the fields of a
  record, functions on the physical memory and a state of the firmware's own. A service returns a
  status, its output values and the new state.
\<close>

subsection \<open>include/uefi.h\<close>

record efi_guid =
  guid0 :: u32
  guid1 :: u16
  guid2 :: u16
  guid3 :: "u8 list"

definition EFI_LOADED_IMAGE_PROTOCOL_GUID :: efi_guid where
  "EFI_LOADED_IMAGE_PROTOCOL_GUID = \<lparr>guid0 = 0x5b1b31a1, guid1 = 0x9562, guid2 = 0x11d2,
     guid3 = [0x8e, 0x3f, 0x00, 0xa0, 0xc9, 0x69, 0x72, 0x3b]\<rparr>"

definition EFI_SIMPLE_FILE_SYSTEM_PROTOCOL_GUID :: efi_guid where
  "EFI_SIMPLE_FILE_SYSTEM_PROTOCOL_GUID = \<lparr>guid0 = 0x964e5b22, guid1 = 0x6459, guid2 = 0x11d2,
     guid3 = [0x8e, 0x39, 0x00, 0xa0, 0xc9, 0x69, 0x72, 0x3b]\<rparr>"

definition EFI_GRAPHICS_OUTPUT_PROTOCOL_GUID :: efi_guid where
  "EFI_GRAPHICS_OUTPUT_PROTOCOL_GUID = \<lparr>guid0 = 0x9042a9de, guid1 = 0x23dc, guid2 = 0x4a38,
     guid3 = [0x96, 0xfb, 0x7a, 0xde, 0xd0, 0x80, 0x51, 0x6a]\<rparr>"

definition EFI_FILE_INFO_ID :: efi_guid where
  "EFI_FILE_INFO_ID = \<lparr>guid0 = 0x09576e92, guid1 = 0x6d3f, guid2 = 0x11d2,
     guid3 = [0x8e, 0x39, 0x00, 0xa0, 0xc9, 0x69, 0x72, 0x3b]\<rparr>"

definition EFI_SUCCESS :: u64 where "EFI_SUCCESS = 0"
definition EFI_UNSUPPORTED :: u64 where "EFI_UNSUPPORTED = 3"

datatype allocate_type = AllocateAnyPages | AllocateMaxAddress | AllocateAddress

datatype memory_type =
  EfiReservedMemoryType | EfiLoaderCode | EfiLoaderData | EfiBootServicesCode | EfiBootServicesData
| EfiRuntimeServicesCode | EfiRuntimeServicesData | EfiConventionalMemory | EfiUnusableMemory
| EfiACPIReclaimMemory | EfiACPIMemoryNVS | EfiMemoryMappedIO | EfiMemoryMappedIOPortSpace
| EfiPalCode | EfiPersistentMemory

type_synonym 'd boot_state = "mem \<times> 'd"

record 'd efi =
  ClearScreen :: "'d boot_state \<Rightarrow> 'd boot_state"
  OutputString :: "u16 list \<Rightarrow> 'd boot_state \<Rightarrow> 'd boot_state"
  LocateProtocol :: "efi_guid \<Rightarrow> 'd boot_state \<Rightarrow> u64 \<times> addr \<times> 'd boot_state"
  OpenProtocol :: "addr \<Rightarrow> efi_guid \<Rightarrow> 'd boot_state \<Rightarrow> u64 \<times> addr \<times> 'd boot_state"
  OpenVolume :: "addr \<Rightarrow> 'd boot_state \<Rightarrow> u64 \<times> addr \<times> 'd boot_state"
  Open :: "addr \<Rightarrow> u16 list \<Rightarrow> u64 \<Rightarrow> u64 \<Rightarrow> 'd boot_state \<Rightarrow> u64 \<times> addr \<times> 'd boot_state"
  GetInfo :: "addr \<Rightarrow> efi_guid \<Rightarrow> u64 \<Rightarrow> addr \<Rightarrow> 'd boot_state \<Rightarrow> u64 \<times> 'd boot_state"
  Read :: "addr \<Rightarrow> u64 \<Rightarrow> addr \<Rightarrow> 'd boot_state \<Rightarrow> u64 \<times> 'd boot_state"
  AllocatePool :: "memory_type \<Rightarrow> u64 \<Rightarrow> 'd boot_state \<Rightarrow> u64 \<times> addr \<times> 'd boot_state"
  FreePool :: "addr \<Rightarrow> 'd boot_state \<Rightarrow> u64 \<times> 'd boot_state"
  AllocatePages :: "allocate_type \<Rightarrow> memory_type \<Rightarrow> u64 \<Rightarrow> addr \<Rightarrow> 'd boot_state \<Rightarrow> u64 \<times> addr \<times> 'd boot_state"
  GetMemoryMap_service :: "u64 \<Rightarrow> addr \<Rightarrow> 'd boot_state \<Rightarrow> u64 \<times> (u64 \<times> u64 \<times> u64) \<times> 'd boot_state"
  ExitBootServices :: "addr \<Rightarrow> u64 \<Rightarrow> 'd boot_state \<Rightarrow> u64 \<times> 'd boot_state"

subsection \<open>boot/lib.c\<close>

definition utf16 :: "string \<Rightarrow> u16 list" where "utf16 = map of_char"

definition Print :: "'d efi \<Rightarrow> u16 list \<Rightarrow> 'd boot_state \<Rightarrow> 'd boot_state" where
  "Print efi str = OutputString efi str"

definition PrintLn :: "'d efi \<Rightarrow> u16 list \<Rightarrow> 'd boot_state \<Rightarrow> 'd boot_state" where
  "PrintLn efi str s = Print efi [0x0d, 0x0a] (Print efi str s)"

definition hex_digit :: "u64 \<Rightarrow> u16" where
  "hex_digit k = utf16 ''0123456789ABCDEF'' ! unat k"

fun convert_loop :: "u64 \<Rightarrow> u64 \<Rightarrow> nat \<Rightarrow> u16 list \<Rightarrow> u16 list" where
  "convert_loop value base 0 buf = buf"
| "convert_loop value base (Suc j) buf = convert_loop (value div base) base j (hex_digit (value mod base) # buf)"

text \<open>The characters \<open>convert\<close> leaves in the buffer, the terminating 0 included.\<close>

definition convert :: "u64 \<Rightarrow> u64 \<Rightarrow> nat \<Rightarrow> u16 list" where
  "convert value base digit = convert_loop value base digit [0]"

text \<open>
  \<open>efi_error\<close> returns on success only. Otherwise it prints and halts (\<open>Hlt\<close>), or reads behind its
  table of 15 messages (\<open>Wild\<close>).
\<close>

datatype stop = Hlt | Wild

definition efi_messages :: "string list" where
  "efi_messages =
     [''EFI_LOAD_ERROR'', ''EFI_INVALID_PARAMETER'', ''EFI_UNSUPPORTED'', ''EFI_BAD_BUFFER_SIZE'',
      ''EFI_BUFFER_TOO_SMALL'', ''EFI_NOT_READY'', ''EFI_DEVICE_ERROR'', ''EFI_WRITE_PROTECTED'',
      ''EFI_OUT_OF_RESOURCES'', ''EFI_VOLUME_CORRUPTED'', ''EFI_VOLUME_FULL'', ''EFI_NO_MEDIA'',
      ''EFI_MEDIA_CHANGED'', ''EFI_NOT_FOUND'', ''EFI_ACCESS_DENIED'']"

definition efi_error :: "'d efi \<Rightarrow> u64 \<Rightarrow> u64 \<Rightarrow> 'd boot_state \<Rightarrow> (stop \<times> 'd boot_state) + 'd boot_state" where
  "efi_error efi status line s =
     (if status = EFI_SUCCESS then Inr s
      else let s = Print efi (utf16 ''Error! '') s
           in if 15 \<le> status - 1 then Inl (Wild, s)
              else let s = PrintLn efi (utf16 (efi_messages ! unat (status - 1))) s;
                       s = Print efi (utf16 ''Line:'') s
                   in Inl (Hlt, PrintLn efi (butlast (convert line 10 4)) s))"

text \<open>A call followed by the macro \<open>EFI_ERROR\<close>, and the rest of the function.\<close>

definition checked ::
  "'d efi \<Rightarrow> u64 \<Rightarrow> u64 \<times> 'a \<times> 'd boot_state \<Rightarrow> ('a \<Rightarrow> 'd boot_state \<Rightarrow> (stop \<times> 'd boot_state) + 'r) \<Rightarrow>
   (stop \<times> 'd boot_state) + 'r" where
  "checked efi line result k =
     (case result of (status, v, s) \<Rightarrow>
        case efi_error efi status line s of Inl e \<Rightarrow> Inl e | Inr s \<Rightarrow> k v s)"

definition no_value :: "u64 \<times> 'd boot_state \<Rightarrow> u64 \<times> unit \<times> 'd boot_state" where
  "no_value = (\<lambda>(status, s). (status, (), s))"

subsection \<open>boot/boot.c\<close>

text \<open>Where the compiler puts the local objects whose addresses are passed on.\<close>

record boot_frame =
  file_info_buffer :: addr
  memmap_buf :: addr
  memmap :: addr

text \<open>The loaded image's \<open>DeviceHandle\<close> is at offset 24 of its structure.\<close>

definition OpenRootFolder ::
  "'d efi \<Rightarrow> addr \<Rightarrow> 'd boot_state \<Rightarrow> (stop \<times> 'd boot_state) + (u64 \<times> addr \<times> 'd boot_state)" where
  "OpenRootFolder efi ImageHandle s =
     checked efi 37 (OpenProtocol efi ImageHandle EFI_LOADED_IMAGE_PROTOCOL_GUID s) (\<lambda>loaded_image s.
     checked efi 40 (OpenProtocol efi (read64 (fst s) (loaded_image + 24))
       EFI_SIMPLE_FILE_SYSTEM_PROTOCOL_GUID s) (\<lambda>fs s.
     Inr (OpenVolume efi fs s)))"

text \<open>\<open>EFI_FILE_INFO\<close> has 80 bytes and the file size at offset 8; 12 characters are allowed for the name.\<close>

definition ReadFile ::
  "'d efi \<Rightarrow> boot_frame \<Rightarrow> addr \<Rightarrow> 'd boot_state \<Rightarrow> (stop \<times> 'd boot_state) + (u64 \<times> addr \<times> 'd boot_state)" where
  "ReadFile efi fr file s =
     checked efi 53 (no_value (GetInfo efi file EFI_FILE_INFO_ID (80 + 2 * 12) (file_info_buffer fr) s)) (\<lambda>_ s.
     let filesize = read64 (fst s) (file_info_buffer fr + 8) in
     checked efi 59 (AllocatePool efi EfiLoaderData filesize s) (\<lambda>buffer s.
     case Read efi file filesize buffer s of (status, s) \<Rightarrow> Inr (status, buffer, s)))"

text \<open>\<open>struct UEFI_MemoryMap\<close>: buffer, map size and descriptor size.\<close>

definition write_memmap :: "addr \<Rightarrow> addr \<Rightarrow> u64 \<Rightarrow> u64 \<Rightarrow> 'd boot_state \<Rightarrow> 'd boot_state" where
  "write_memmap p buffer mapsize descsize = map_prod
     (\<lambda>h. write64 (p + 16) descsize (write64 (p + 8) mapsize (write64 p buffer h))) id"

definition GetMemoryMap ::
  "'d efi \<Rightarrow> addr \<Rightarrow> u32 \<Rightarrow> 'd boot_state \<Rightarrow> (stop \<times> 'd boot_state) + (u64 \<times> 'd boot_state)" where
  "GetMemoryMap efi p mapsize s =
     (let s = map_prod (write64 (p + 8) (ucast mapsize)) id s in
      checked efi 111 (GetMemoryMap_service efi (read64 (fst s) (p + 8)) (read64 (fst s) p) s)
        (\<lambda>(mapsize', key, descsize) s.
           Inr (key, map_prod (\<lambda>h. write64 (p + 16) descsize (write64 (p + 8) mapsize' h)) id s)))"

definition pixel_format_of :: "mem \<Rightarrow> addr \<Rightarrow> u32" where
  "pixel_format_of h gop = read32 h (read64 h (read64 h (gop + 24) + 8) + 12)"

text \<open>Opening, reading and loading the kernel; the result is \<open>kernel_start_addr\<close> and \<open>e_entry\<close>.\<close>

definition load_kernel ::
  "'d efi \<Rightarrow> boot_frame \<Rightarrow> addr \<Rightarrow> 'd boot_state \<Rightarrow> (stop \<times> 'd boot_state) + ((addr \<times> u64) \<times> 'd boot_state)" where
  "load_kernel efi fr ImageHandle s =
     (case OpenRootFolder efi ImageHandle s of Inl e \<Rightarrow> Inl e | Inr result \<Rightarrow>
      checked efi 144 result (\<lambda>root_dir s.
      checked efi 149 (Open efi root_dir (utf16 (CHR 0x5C # ''kernel.elf'') @ [0]) 1 0 s) (\<lambda>kernel s.
      case ReadFile efi fr kernel s of Inl e \<Rightarrow> Inl e | Inr result \<Rightarrow>
      checked efi 152 result (\<lambda>kernel_buffer s.
      let (kernel_start_addr, kernel_end_addr) = CalcLoadAddressRange (fst s) kernel_buffer;
          pages = drop_bit 12 (kernel_end_addr - kernel_start_addr + 0xfff)
      in checked efi 161 (AllocatePages efi AllocateAddress EfiUnusableMemory pages kernel_start_addr s)
           (\<lambda>kernel_start_addr s.
      let s = map_prod (CopyLoadSegments kernel_buffer) id s in
      checked efi 166 (no_value (FreePool efi kernel_buffer s)) (\<lambda>_ s.
      Inr ((kernel_start_addr, e_entry (read_ehdr (fst s) kernel_start_addr)), s)))))))"

text \<open>One allocation of zeroed page tables.\<close>

definition alloc_table ::
  "'d efi \<Rightarrow> u64 \<Rightarrow> memory_type \<Rightarrow> nat \<Rightarrow> 'd boot_state \<Rightarrow>
   (addr \<Rightarrow> 'd boot_state \<Rightarrow> (stop \<times> 'd boot_state) + 'r) \<Rightarrow> (stop \<times> 'd boot_state) + 'r" where
  "alloc_table efi line ty n s k =
     checked efi line (AllocatePages efi AllocateAnyPages ty (word_of_nat n) 0 s)
       (\<lambda>a s. k a (map_prod (boot_memset a 0 (4096 * word_of_nat n)) id s))"

definition alloc_tables ::
  "'d efi \<Rightarrow> 'd boot_state \<Rightarrow> (stop \<times> 'd boot_state) + (boot_tables \<times> 'd boot_state)" where
  "alloc_tables efi s =
     alloc_table efi 182 EfiUnusableMemory 1 s (\<lambda>pml4 s.
     alloc_table efi 185 EfiLoaderData 1 s (\<lambda>pdp s.
     alloc_table efi 188 EfiLoaderData 128 s (\<lambda>dir s.
     alloc_table efi 191 EfiUnusableMemory 128 s (\<lambda>actual s.
     alloc_table efi 195 EfiUnusableMemory 512 s (\<lambda>actual2 s.
     alloc_table efi 199 EfiUnusableMemory 1 s (\<lambda>kpdp s.
     alloc_table efi 202 EfiLoaderData 1 s (\<lambda>kpdp2 s.
     alloc_table efi 205 EfiUnusableMemory 1 s (\<lambda>kpd s.
     alloc_table efi 208 EfiUnusableMemory 16 s (\<lambda>kpt s.
       Inr (\<lparr>pml4_addr = pml4, pdp_addr = pdp, page_dir = dir, actual_page_dir = actual,
         actual_page_dir2 = actual2, kernel_pdp = kpdp, kernel_pdp2 = kpdp2,
         kernel_page_directory_addr = kpd, kernel_page_table_addr = kpt\<rparr>, s))))))))))"

text \<open>Leaving the firmware; a failure is retried once with a new memory map.\<close>

definition exit_boot_services ::
  "'d efi \<Rightarrow> boot_frame \<Rightarrow> addr \<Rightarrow> 'd boot_state \<Rightarrow> (stop \<times> 'd boot_state) + 'd boot_state" where
  "exit_boot_services efi fr ImageHandle s =
     (case GetMemoryMap efi (memmap fr) (1024 * 16) s of Inl e \<Rightarrow> Inl e | Inr (key, s) \<Rightarrow>
      case ExitBootServices efi ImageHandle key s of (status, s) \<Rightarrow>
      if status = EFI_SUCCESS then Inr s
      else case GetMemoryMap efi (memmap fr) (1024 * 16) s of Inl e \<Rightarrow> Inl e | Inr (key, s) \<Rightarrow>
           checked efi 284 (no_value (ExitBootServices efi ImageHandle key s)) (\<lambda>_ s. Inr s))"

text \<open>The call of \<open>vMain\<close> under the new page tables.\<close>

record kernel_call =
  vMain_addr :: u64
  page_tables :: u64
  arg_memmap :: addr
  arg_gop :: addr

text \<open>From the page tables to the jump.\<close>

definition enter_kernel ::
  "'d efi \<Rightarrow> boot_frame \<Rightarrow> addr \<Rightarrow> u64 \<Rightarrow> addr \<Rightarrow> 'd boot_state \<Rightarrow>
   (stop \<times> 'd boot_state) + (kernel_call \<times> boot_tables \<times> 'd boot_state)" where
  "enter_kernel efi fr ImageHandle entry gop s =
     (case alloc_tables efi s of Inl e \<Rightarrow> Inl e | Inr (t, s) \<Rightarrow>
      let s = PrintLn efi (utf16 ''Booting...'') (map_prod (build_page_tables t) id s) in
      case exit_boot_services efi fr ImageHandle s of Inl e \<Rightarrow> Inl e | Inr s \<Rightarrow>
      Inr (\<lparr>vMain_addr = entry, page_tables = pml4_addr t,
            arg_memmap = P2V (memmap fr), arg_gop = P2V gop\<rparr>, t, s))"

definition BootMain ::
  "'d efi \<Rightarrow> boot_frame \<Rightarrow> addr \<Rightarrow> 'd boot_state \<Rightarrow> (stop \<times> 'd boot_state) + (kernel_call \<times> boot_tables \<times> 'd boot_state)" where
  "BootMain efi fr ImageHandle s =
     (let s = write_memmap (memmap fr) (memmap_buf fr) (1024 * 16) 0 s;
          s = PrintLn efi [] (PrintLn efi (utf16 ''Hello VimOS.'') (ClearScreen efi s))
      in checked efi 135 (LocateProtocol efi EFI_GRAPHICS_OUTPUT_PROTOCOL_GUID s) (\<lambda>gop s.
      let format = pixel_format_of (fst s) gop in
      checked efi 139 (if format = 2 \<or> format = 3 then EFI_UNSUPPORTED else EFI_SUCCESS, (), s) (\<lambda>_ s.
      case load_kernel efi fr ImageHandle s of Inl e \<Rightarrow> Inl e | Inr ((kernel_start_addr, entry), s) \<Rightarrow>
      checked efi 174 (AllocatePages efi AllocateAddress EfiUnusableMemory 256 0x500000 s) (\<lambda>stack_addr s.
      enter_kernel efi fr ImageHandle entry gop s))))"

subsection \<open>Numbers\<close>

text \<open>Reading the digits back.\<close>

definition value_of :: "u16 \<Rightarrow> nat" where
  "value_of c = (if c < 0x3a then unat c - 48 else unat c - 55)"

definition digits_value :: "nat \<Rightarrow> u16 list \<Rightarrow> nat" where
  "digits_value base ds = foldl (\<lambda>n c. n * base + value_of c) 0 ds"

lemma value_of_hex_digit: "unat k < 16 \<Longrightarrow> value_of (hex_digit k) = unat k"
proof -
  assume "unat k < 16"
  then have "unat k \<in> {0, 1, 2, 3, 4, 5, 6, 7, 8, 9, 10, 11, 12, 13, 14, 15}" by auto presburger
  then show ?thesis by (auto simp: hex_digit_def value_of_def utf16_def)
qed

lemma convert_loop_value:
  assumes "2 \<le> unat base" "unat base \<le> 16"
  shows "\<exists>ds. convert_loop w base n buf = ds @ buf \<and> length ds = n \<and>
    digits_value (unat base) ds = unat w mod unat base ^ n"
proof (induction n arbitrary: w buf)
  case (Suc n)
  let ?b = "unat base" and ?d = "hex_digit (w mod base)"
  obtain ds where ds: "convert_loop (w div base) base n (?d # buf) = ds @ ?d # buf" "length ds = n"
    "digits_value ?b ds = unat (w div base) mod ?b ^ n" using Suc.IH by blast
  have "unat (w mod base) < 16" using assms 
  proof -
    have "unat w mod ?b < ?b" using assms(1) by simp
    with assms(2) show ?thesis by (simp add: unat_mod)
  qed
  then have "digits_value ?b (ds @ [?d]) = unat w div ?b mod ?b ^ n * ?b + unat w mod ?b"
    using ds(3) by (simp add: digits_value_def value_of_hex_digit unat_div unat_mod)
  also have "\<dots> = unat w mod ?b ^ Suc n" by (simp add: mod_mult2_eq mult.commute)
  finally show ?case using ds by (intro exI [of _ "ds @ [?d]"]) simp
qed (simp add: digits_value_def)

text \<open>
  \<open>convert\<close> writes exactly the requested number of digits and the final 0; read back, they are
  the value modulo the power of the base: numbers that fit come back, longer ones lose their
  leading digits.
\<close>
theorem convert_roundtrip:
  assumes "2 \<le> base" and "base \<le> 16"
  shows "length (convert w base n) = Suc n \<and> last (convert w base n) = 0 \<and>
    digits_value (unat base) (butlast (convert w base n)) = unat w mod unat base ^ n"
proof -
  have "2 \<le> unat base" "unat base \<le> 16" using assms by (simp_all add: word_le_nat_alt)
  from convert_loop_value [OF this, of w n "[0]"] show ?thesis by (auto simp: convert_def)
qed

theorem convert_roundtrip_witness:
  "digits_value 10 (butlast (convert 12345 10 4)) = 2345"
  using convert_roundtrip [of 10 12345 4] by simp

subsection \<open>The firmware's promises\<close>

text \<open>
  What the boot program relies on, from the UEFI specification: \<open>owned\<close> is the memory the program
  holds. Printing and leaving the firmware do not touch it; a page allocation adds aligned pages
  it did not hold; \<open>GetMemoryMap\<close> writes in it only to the buffer it is given.
\<close>

definition keeps :: "('d \<Rightarrow> addr set) \<Rightarrow> addr set \<Rightarrow> 'd boot_state \<Rightarrow> 'd boot_state \<Rightarrow> bool" where
  "keeps owned W s s' \<longleftrightarrow> owned (snd s') = owned (snd s) \<and> (\<forall>x \<in> owned (snd s) - W. fst s' x = fst s x)"

definition firmware_ok :: "'d efi \<Rightarrow> ('d \<Rightarrow> addr set) \<Rightarrow> bool" where
  "firmware_ok efi owned \<longleftrightarrow>
     (\<forall>str s. keeps owned {} s (OutputString efi str s)) \<and>
     (\<forall>ih key s. keeps owned {} s (snd (ExitBootServices efi ih key s))) \<and>
     (\<forall>n b s. keeps owned (bytes_at b (unat n)) s (snd (snd (GetMemoryMap_service efi n b s)))) \<and>
     (\<forall>at ty n a s a' s'. AllocatePages efi at ty n a s = (EFI_SUCCESS, a', s') \<longrightarrow>
        4096 dvd unat a' \<and> unat a' + 4096 * unat n \<le> 2 ^ 52 \<and>
        bytes_at a' (4096 * unat n) \<inter> owned (snd s) = {} \<and>
        owned (snd s') = owned (snd s) \<union> bytes_at a' (4096 * unat n) \<and>
        (\<forall>x \<in> owned (snd s). fst s' x = fst s x))"

lemma keeps_trans: "keeps owned W s s' \<Longrightarrow> keeps owned W s' s'' \<Longrightarrow> keeps owned W s s''"
  by (simp add: keeps_def)

lemma keeps_mono: "keeps owned W s s' \<Longrightarrow> W \<subseteq> W' \<Longrightarrow> keeps owned W' s s'"
  by (auto simp: keeps_def)

lemma keeps_println:
  assumes "firmware_ok efi owned"
  shows "keeps owned {} s (PrintLn efi str s)"
proof -
  have "keeps owned {} s (OutputString efi x s)" for x s
    using assms unfolding firmware_ok_def by blast
  from keeps_trans [OF this this] show ?thesis by (simp add: PrintLn_def Print_def)
qed

subsection \<open>Allocating the tables\<close>

text \<open>Regions taken one after the other, each outside what was held before.\<close>

fun fresh_regions :: "addr set \<Rightarrow> (u64 \<times> nat) list \<Rightarrow> bool" where
  "fresh_regions A [] = True"
| "fresh_regions A ((a, n) # rs) =
     (4096 dvd unat a \<and> unat a + 4096 * n \<le> 2 ^ 52 \<and> bytes_at a (4096 * n) \<inter> A = {} \<and>
      fresh_regions (A \<union> bytes_at a (4096 * n)) rs)"

lemma fresh_regions_apart: "fresh_regions A rs \<Longrightarrow> region_bytes rs \<inter> A = {}"
  by (induction A rs rule: fresh_regions.induct) (auto simp: region_bytes_def)

lemma fresh_regions_ok:
  "fresh_regions A rs \<Longrightarrow> (\<forall>(a, n) \<in> set rs. 4096 dvd unat a \<and> unat a + 4096 * n \<le> 2 ^ 52) \<and>
     sorted_wrt (\<lambda>(a, n) (b, m). bytes_at a (4096 * n) \<inter> bytes_at b (4096 * m) = {}) rs"
proof (induction A rs rule: fresh_regions.induct)
  case (2 A a n rs)
  then have "region_bytes rs \<inter> (A \<union> bytes_at a (4096 * n)) = {}" by (intro fresh_regions_apart) simp
  then have "bytes_at a (4096 * n) \<inter> bytes_at b (4096 * m) = {}" if "(b, m) \<in> set rs" for b m
    using that unfolding region_bytes_def by blast
  with 2 show ?case by auto
qed simp

text \<open>One allocation, as a step from \<open>s\<close> to \<open>s'\<close>.\<close>

definition took :: "('d \<Rightarrow> addr set) \<Rightarrow> 'd boot_state \<Rightarrow> nat \<Rightarrow> addr \<Rightarrow> 'd boot_state \<Rightarrow> bool" where
  "took owned s n a s' \<longleftrightarrow>
     4096 dvd unat a \<and> unat a + 4096 * n \<le> 2 ^ 52 \<and> bytes_at a (4096 * n) \<inter> owned (snd s) = {} \<and>
     owned (snd s') = owned (snd s) \<union> bytes_at a (4096 * n) \<and> (\<forall>x \<in> owned (snd s). fst s' x = fst s x)"

lemma alloc_table_rule:
  assumes ok: "firmware_ok efi owned" and r: "alloc_table efi line ty n s k = Inr r" and n: "n < 2 ^ 40"
    and rule: "\<And>a s'. took owned s n a s' \<Longrightarrow> k a s' = Inr r \<Longrightarrow> thesis"
  shows thesis
proof -
  obtain status a s1 where c: "AllocatePages efi AllocateAnyPages ty (word_of_nat n) 0 s = (status, a, s1)"
    by (cases "AllocatePages efi AllocateAnyPages ty (word_of_nat n) 0 s") auto
  with r have st: "status = EFI_SUCCESS"
    by (auto simp: alloc_table_def checked_def efi_error_def Let_def split: if_splits)
  have un: "unat (word_of_nat n :: u64) = n" "unat (4096 * word_of_nat n :: u64) = 4096 * n"
    using n by (simp_all add: unat_of_nat unat_word_ariths)
  have p: "took owned s n a s1"
    using ok c unfolding firmware_ok_def st took_def by (metis un(1))
  let ?s = "map_prod (boot_memset a 0 (4096 * word_of_nat n)) id s1"
  have "fst ?s x = fst s1 x" if "x \<in> owned (snd s)" for x
  proof -
    have "x \<notin> bytes_at a (4096 * n)" using p that by (auto simp: took_def)
    then show ?thesis by (cases s1) (simp add: boot_memset_def memset_loop_eq un)
  qed
  moreover have "snd ?s = snd s1" by (cases s1) simp
  ultimately have "took owned s n a ?s" using p by (simp add: took_def)
  moreover have "k a ?s = Inr r" using r c st by (simp add: alloc_table_def checked_def efi_error_def)
  ultimately show thesis by (rule rule)
qed

fun taken :: "('d \<Rightarrow> addr set) \<Rightarrow> 'd boot_state \<Rightarrow> (u64 \<times> nat) list \<Rightarrow> 'd boot_state \<Rightarrow> bool" where
  "taken owned s [] s' = (s' = s)"
| "taken owned s ((a, n) # rs) s' = (\<exists>s1. took owned s n a s1 \<and> taken owned s1 rs s')"

lemma taken_fresh:
  "taken owned s rs s' \<Longrightarrow> fresh_regions (owned (snd s)) rs \<and>
     owned (snd s') = owned (snd s) \<union> region_bytes rs \<and> (\<forall>x \<in> owned (snd s). fst s' x = fst s x)"
proof (induction rs arbitrary: s)
  case (Cons r rs)
  obtain a n where r: "r = (a, n)" by force
  with Cons.prems obtain s1 where s1: "took owned s n a s1" "taken owned s1 rs s'" by auto
  note IH = Cons.IH [OF s1(2)]
  show ?case
  proof (intro conjI ballI)
    show "fresh_regions (owned (snd s)) (r # rs)" using s1(1) IH by (simp add: r took_def)
    show "owned (snd s') = owned (snd s) \<union> region_bytes (r # rs)"
      using s1(1) IH by (auto simp: r took_def region_bytes_def)
    show "fst s' x = fst s x" if "x \<in> owned (snd s)" for x
      using s1(1) IH that by (simp add: took_def)
  qed
qed (simp add: region_bytes_def)

lemma alloc_tables_taken:
  assumes ok: "firmware_ok efi owned" and r: "alloc_tables efi s = Inr (t, s')"
  shows "taken owned s (table_regions t) s'"
  using r unfolding alloc_tables_def
  by (elim alloc_table_rule [OF ok])
    (simp_all del: split_paired_Ex One_nat_def, clarify,
      simp add: table_regions_def del: split_paired_Ex One_nat_def, blast)

text \<open>The tables survive what only changes other memory.\<close>

lemma tables_built_cong:
  assumes ok: "tables_ok t" and built: "tables_built t h"
    and eq: "\<And>x. x \<in> region_bytes (table_regions t) \<Longrightarrow> h' x = h x"
  shows "tables_built t h'"
proof -
  have r: "read64 h' a = read64 h a" if "bytes_at a 8 \<subseteq> bytes_at b (4096 * n)" "(b, n) \<in> set (table_regions t)" for a b n
    using that eq unfolding region_bytes_def by (intro read64_cong) blast
  have slot: "read64 h' (b + 8 * word_of_nat i) = read64 h (b + 8 * word_of_nat i)"
    if "(b, n) \<in> set (table_regions t)" "i < 512 * n" for b n i
    using slot_bytes [OF that(2)] that(1) by (rule r)
  have l: "linked h' u f l n leaf" if "linked h u f l n leaf" "(u, 1) \<in> set (table_regions t)"
    "(l, n) \<in> set (table_regions t)" "f + n \<le> 512" for u f l n leaf
  proof (rule linked_frame [OF that(1,4)])
    show "read64 h' a = read64 h a" if "A = bytes_at u 4096 \<or> A = bytes_at l (4096 * n)" "bytes_at a 8 \<subseteq> A" for a A
      using that r [of a u 1] r [of a l n] \<open>(u, 1) \<in> _\<close> \<open>(l, n) \<in> _\<close> by auto
  qed
  have m: "(pml4_addr t, 1) \<in> set (table_regions t)" "(kernel_pdp t, 1) \<in> set (table_regions t)"
    "(pdp_addr t, 1) \<in> set (table_regions t)" "(page_dir t, 128) \<in> set (table_regions t)"
    "(kernel_page_directory_addr t, 1) \<in> set (table_regions t)" "(kernel_page_table_addr t, 16) \<in> set (table_regions t)"
    "(actual_page_dir t, 128) \<in> set (table_regions t)" "(kernel_pdp2 t, 1) \<in> set (table_regions t)"
    "(actual_page_dir2 t, 512) \<in> set (table_regions t)"
    by (simp_all add: table_regions_def)
  show ?thesis
    using built unfolding tables_built_def
    using slot [OF m(1), of 0] slot [OF m(1), of 256] slot [OF m(1), of 257] slot [OF m(2), of 0]
      l [OF _ m(3,4), of 0] l [OF _ m(5,6), of 0] l [OF _ m(2,7), of 384] l [OF _ m(8,9), of 0]
    by simp
qed

subsection \<open>Entering the kernel\<close>

text \<open>The memory map structure and its buffer on the program's stack.\<close>

definition stack_bytes :: "boot_frame \<Rightarrow> addr set" where
  "stack_bytes fr = bytes_at (memmap fr) 24 \<union> bytes_at (memmap_buf fr) 16384"

definition stack_ok :: "('d \<Rightarrow> addr set) \<Rightarrow> boot_frame \<Rightarrow> 'd boot_state \<Rightarrow> bool" where
  "stack_ok owned fr s \<longleftrightarrow>
     stack_bytes fr \<subseteq> owned (snd s) \<and> unat (memmap fr) + 24 \<le> 2 ^ 64 \<and>
     bytes_at (memmap fr) 24 \<inter> bytes_at (memmap_buf fr) 16384 = {} \<and>
     read64 (fst s) (memmap fr) = memmap_buf fr"

lemma stack_ok_keeps:
  assumes "stack_ok owned fr s" "keeps owned W s s'" "W \<inter> bytes_at (memmap fr) 8 = {}"
  shows "stack_ok owned fr s'"
proof -
  have "bytes_at (memmap fr) 8 \<subseteq> bytes_at (memmap fr) 24" by (rule bytes_at_mono) simp
  then have "bytes_at (memmap fr) 8 \<subseteq> owned (snd s) - W"
    using assms unfolding stack_ok_def stack_bytes_def by blast
  then have "read64 (fst s') (memmap fr) = read64 (fst s) (memmap fr)"
    using assms(2) unfolding keeps_def by (intro read64_cong) blast
  with assms show ?thesis by (simp add: stack_ok_def keeps_def)
qed

lemma memmap_fields:
  assumes "stack_ok owned fr s"
  shows "bytes_at (memmap fr + 8) 8 \<inter> bytes_at (memmap fr) 8 = {}"
    "bytes_at (memmap fr + 16) 8 \<inter> bytes_at (memmap fr) 8 = {}"
    "bytes_at (memmap fr + 8) 8 \<subseteq> stack_bytes fr" "bytes_at (memmap fr + 16) 8 \<subseteq> stack_bytes fr"
proof -
  have u: "unat (memmap fr + 8) = unat (memmap fr) + 8" "unat (memmap fr + 16) = unat (memmap fr) + 16"
    using assms unat_add_of_nat [of "memmap fr" 8] unat_add_of_nat [of "memmap fr" 16]
    by (simp_all add: stack_ok_def)
  have r: "unat (memmap fr) + 24 \<le> 2 ^ 64" using assms by (simp add: stack_ok_def)
  show "bytes_at (memmap fr + 8) 8 \<inter> bytes_at (memmap fr) 8 = {}"
    "bytes_at (memmap fr + 16) 8 \<inter> bytes_at (memmap fr) 8 = {}"
    using r u by (intro bytes_at_disjoint; simp)+
  show "bytes_at (memmap fr + 8) 8 \<subseteq> stack_bytes fr" "bytes_at (memmap fr + 16) 8 \<subseteq> stack_bytes fr"
    using bytes_at_shift [of 8 8 24 "memmap fr"] bytes_at_shift [of 16 8 24 "memmap fr"]
    unfolding stack_bytes_def by auto
qed

text \<open>A store to a field of the structure.\<close>

lemma keeps_store:
  assumes "bytes_at a 8 \<subseteq> stack_bytes fr"
  shows "keeps owned (stack_bytes fr) s (map_prod (write64 a v) id s)"
proof (cases s)
  case (Pair h d)
  have "write64 a v h x = h x" if "x \<notin> stack_bytes fr" for x
    using assms that by (intro write64_other) blast
  then show ?thesis by (simp add: Pair keeps_def)
qed

lemma stack_ok_store:
  assumes "stack_ok owned fr s" "bytes_at a 8 \<inter> bytes_at (memmap fr) 8 = {}"
  shows "stack_ok owned fr (map_prod (write64 a v) id s)"
  using assms by (cases s) (simp add: stack_ok_def read64_write64_other Int_commute)

lemma GetMemoryMap_keeps:
  assumes ok: "firmware_ok efi owned" and st: "stack_ok owned fr s"
    and r: "GetMemoryMap efi (memmap fr) 16384 s = Inr (key, s')"
  shows "keeps owned (stack_bytes fr) s s'" "stack_ok owned fr s'"
proof -
  let ?p = "memmap fr"
  let ?s1 = "map_prod (write64 (?p + 8) (ucast (16384 :: u32))) id s"
  note f = memmap_fields [OF st]
  have s1: "stack_ok owned fr ?s1" using stack_ok_store [OF st f(1)] .
  have size: "read64 (fst ?s1) (?p + 8) = 16384" by (cases s) simp
  have bufp: "read64 (fst ?s1) ?p = memmap_buf fr" using s1 by (simp add: stack_ok_def)
  obtain status m k n s2 where g: "GetMemoryMap_service efi 16384 (memmap_buf fr) ?s1 = (status, (m, k, n), s2)"
    by (metis prod_cases3 surj_pair)
  have "keeps owned (bytes_at (memmap_buf fr) (unat (16384 :: u64))) ?s1
      (snd (snd (GetMemoryMap_service efi 16384 (memmap_buf fr) ?s1)))"
    using ok unfolding firmware_ok_def by blast
  then have k2: "keeps owned (bytes_at (memmap_buf fr) 16384) ?s1 s2" unfolding g by simp
  have dis: "bytes_at (memmap_buf fr) 16384 \<inter> bytes_at ?p 8 = {}"
    using st bytes_at_mono [of 8 24 ?p] unfolding stack_ok_def by auto
  have s2: "stack_ok owned fr s2" using stack_ok_keeps [OF s1 k2 dis] .
  have s': "s' = map_prod (write64 (?p + 16) n) id (map_prod (write64 (?p + 8) m) id s2)"
    using r by (cases s2) (auto simp: GetMemoryMap_def Let_def size [simplified] bufp [simplified] g [simplified] checked_def efi_error_def split: if_splits)
  have "keeps owned (stack_bytes fr) ?s1 s2" using k2 by (rule keeps_mono) (simp add: stack_bytes_def)
  from keeps_trans [OF keeps_store [OF f(3)] this] keeps_store [OF f(3), of owned s2 m]
    keeps_store [OF f(4), of owned "map_prod (write64 (?p + 8) m) id s2" n]
  show "keeps owned (stack_bytes fr) s s'" unfolding s' by (blast intro: keeps_trans)
  show "stack_ok owned fr s'" unfolding s' by (intro stack_ok_store s2 f)
qed

lemma exit_boot_services_keeps:
  assumes ok: "firmware_ok efi owned" and st: "stack_ok owned fr s"
    and r: "exit_boot_services efi fr ih s = Inr s'"
  shows "keeps owned (stack_bytes fr) s s'"
proof -
  have ex: "keeps owned (stack_bytes fr) s0 s1" "stack_ok owned fr s0 \<Longrightarrow> stack_ok owned fr s1"
    if "ExitBootServices efi ih key s0 = (status, s1)" for key s0 status s1
  proof -
    have "keeps owned {} s0 (snd (ExitBootServices efi ih key s0))" using ok unfolding firmware_ok_def by blast
    then have k: "keeps owned {} s0 s1" using that by simp
    then show "keeps owned (stack_bytes fr) s0 s1" by (rule keeps_mono) simp
    show "stack_ok owned fr s0 \<Longrightarrow> stack_ok owned fr s1" using stack_ok_keeps [OF _ k] by simp
  qed
  obtain key s1 where g1: "GetMemoryMap efi (memmap fr) 16384 s = Inr (key, s1)"
    using r by (auto simp: exit_boot_services_def split: sum.splits)
  note k1 = GetMemoryMap_keeps [OF ok st g1]
  obtain status s2 where e1: "ExitBootServices efi ih key s1 = (status, s2)" by (metis surj_pair)
  note k2 = ex [OF e1]
  show ?thesis
  proof (cases "status = EFI_SUCCESS")
    case True
    then have "s' = s2" using r g1 e1 by (simp add: exit_boot_services_def)
    then show ?thesis using keeps_trans [OF k1(1) k2(1)] by simp
  next
    case False
    then obtain key' s3 where g2: "GetMemoryMap efi (memmap fr) 16384 s2 = Inr (key', s3)"
      using r g1 e1 by (auto simp: exit_boot_services_def split: sum.splits)
    obtain status' s4 where e2: "ExitBootServices efi ih key' s3 = (status', s4)" by (metis surj_pair)
    have "s' = s4" using r g1 e1 g2 e2 False
      by (auto simp: exit_boot_services_def no_value_def checked_def efi_error_def Let_def split: if_splits)
    then show ?thesis
      using keeps_trans [OF keeps_trans [OF k1(1) k2(1)] keeps_trans [OF GetMemoryMap_keeps(1) [OF ok k2(2) [OF k1(2)] g2] ex(1) [OF e2]]]
      by simp
  qed
qed

text \<open>
  C12: When the boot program reaches the jump to the kernel, over any firmware that does what the
  UEFI specification promises and with the memory map buffer on its own stack, the page tables it
  allocated are aligned and apart, and the table it loads translates both kernel windows as
  \<open>v2p\<close> computes and the first 128 GB to themselves; neither the last messages nor the calls that
  fetch the memory map and leave the firmware have damaged a table.
\<close>
theorem enter_kernel_tables:
  assumes "firmware_ok efi owned" and "stack_ok owned fr s"
    and "enter_kernel efi fr ImageHandle entry gop s = Inr (call, t, s')"
    and "in_window v"
  shows "vMain_addr call = entry \<and> tables_ok t \<and>
    boot_walk (fst s') 4 (page_tables call) v = mapped (v2p v) \<and>
    (w < 0x2000000000 \<longrightarrow> boot_walk (fst s') 4 (page_tables call) w = mapped w)"
proof -
  let ?R = "region_bytes (table_regions t)"
  obtain s1 where a: "alloc_tables efi s = Inr (t, s1)"
    using assms(3) by (auto simp: enter_kernel_def split: sum.splits)
  note f = taken_fresh [OF alloc_tables_taken [OF assms(1) a]]
  have ok: "tables_ok t" unfolding tables_ok_def using f fresh_regions_ok by blast
  have apart: "?R \<inter> owned (snd s) = {}" using f fresh_regions_apart by blast
  define s2 where "s2 = map_prod (build_page_tables t) id s1"
  define s3 where "s3 = PrintLn efi (utf16 ''Booting...'') s2"
  have x: "exit_boot_services efi fr ImageHandle s3 = Inr s'"
    and call: "vMain_addr call = entry" "page_tables call = pml4_addr t"
    using assms(3) a by (auto simp: enter_kernel_def s3_def s2_def Let_def split: sum.splits)
  have snd2: "snd s2 = snd s1" and fst2: "fst s2 = build_page_tables t (fst s1)"
    by (cases s1, simp add: s2_def)+
  have k3: "keeps owned {} s2 s3" unfolding s3_def by (rule keeps_println [OF assms(1)])
  have sub: "stack_bytes fr \<subseteq> owned (snd s)" "bytes_at (memmap fr) 8 \<subseteq> owned (snd s)"
    using assms(2) bytes_at_mono [of 8 24 "memmap fr"] unfolding stack_ok_def stack_bytes_def by auto
  have "read64 (fst s2) (memmap fr) = read64 (fst s) (memmap fr)"
  proof (rule read64_cong)
    fix y assume "y \<in> bytes_at (memmap fr) 8"
    then have y: "y \<in> owned (snd s)" "y \<notin> ?R" using sub(2) apart by blast+
    then show "fst s2 y = fst s y" using f by (simp add: fst2 build_other)
  qed
  then have "stack_ok owned fr s2" using assms(2) f by (auto simp: stack_ok_def snd2)
  then have "stack_ok owned fr s3" by (rule stack_ok_keeps [OF _ k3]) simp
  from exit_boot_services_keeps [OF assms(1) this x] k3
  have k: "keeps owned (stack_bytes fr) s2 s'" by (blast intro: keeps_trans keeps_mono)
  have "tables_built t (fst s')"
  proof (rule tables_built_cong [OF ok])
    show "tables_built t (fst s2)" unfolding fst2 by (rule build_tables [OF ok])
    show "fst s' y = fst s2 y" if "y \<in> ?R" for y
      using k that f apart sub(1) unfolding keeps_def snd2 by blast
  qed
  from boot_windows [OF ok this assms(4)] boot_identity [OF ok this] ok call show ?thesis by simp
qed

text \<open>A firmware that hands out page after page; its state is the number of pages in use.\<close>

definition demo_efi :: "nat efi" where
  "demo_efi = \<lparr>ClearScreen = id, OutputString = (\<lambda>_. id), LocateProtocol = (\<lambda>_ s. (0, 0, s)),
     OpenProtocol = (\<lambda>_ _ s. (0, 0, s)), OpenVolume = (\<lambda>_ s. (0, 0, s)), Open = (\<lambda>_ _ _ _ s. (0, 0, s)),
     GetInfo = (\<lambda>_ _ _ _ s. (0, s)), Read = (\<lambda>_ _ _ s. (0, s)), AllocatePool = (\<lambda>_ _ s. (9, 0, s)),
     FreePool = (\<lambda>_ s. (0, s)),
     AllocatePages = (\<lambda>_ _ n _ (h, d). if 4096 * (d + unat n) \<le> 2 ^ 52
       then (0, word_of_nat (4096 * d), h, d + unat n) else (9, 0, h, d)),
     GetMemoryMap_service = (\<lambda>_ _ s. (0, (0, 1, 48), s)),
     ExitBootServices = (\<lambda>_ _ s. (0, s))\<rparr>"

definition demo_owned :: "nat \<Rightarrow> addr set" where "demo_owned d = {x. unat x < 4096 * d}"

lemma demo_efi_ok: "firmware_ok demo_efi demo_owned"
proof -
  have "4096 dvd unat a' \<and> unat a' + 4096 * unat n \<le> 2 ^ 52 \<and> bytes_at a' (4096 * unat n) \<inter> demo_owned (snd s) = {} \<and>
      demo_owned (snd s') = demo_owned (snd s) \<union> bytes_at a' (4096 * unat n) \<and> (\<forall>x \<in> demo_owned (snd s). fst s' x = fst s x)"
    if "AllocatePages demo_efi ty mt n a s = (EFI_SUCCESS, a', s')" for ty mt n a s a' s'
  proof -
    obtain h d where s: "s = (h, d)" by force
    have le: "4096 * (d + unat n) \<le> 2 ^ 52" and a': "a' = word_of_nat (4096 * d)" "s' = (h, d + unat n)"
      using that by (auto simp: s demo_efi_def EFI_SUCCESS_def split: if_splits)
    have "unat a' = (4096 * d) mod 2 ^ 64" unfolding a' unat_of_nat by simp
    with le have u: "unat a' = 4096 * d" by simp
    have b: "x \<in> bytes_at a' (4096 * unat n) \<longleftrightarrow> 4096 * d \<le> unat x \<and> unat x < 4096 * (d + unat n)" for x
      using le u in_bytes_at [of a' "4096 * unat n" x] by auto
    have sets: "bytes_at a' (4096 * unat n) \<inter> demo_owned d = {}" "demo_owned (d + unat n) = demo_owned d \<union> bytes_at a' (4096 * unat n)"
      unfolding demo_owned_def by (auto simp: b)
    have "4096 dvd unat a'" "unat a' + 4096 * unat n \<le> 2 ^ 52" using le unfolding u by auto
    then show ?thesis using sets by (simp only: s a'(2) fst_conv snd_conv) simp
  qed
  then show ?thesis unfolding firmware_ok_def by (auto simp: keeps_def demo_efi_def)
qed

definition demo_frame :: boot_frame where
  "demo_frame = \<lparr>file_info_buffer = 0x1100, memmap_buf = 0x2000, memmap = 0x1000\<rparr>"

definition demo_state :: "nat boot_state" where
  "demo_state = (write64 0x1000 0x2000 (\<lambda>_. 0xff), 16)"

lemma demo_stack_ok: "stack_ok demo_owned demo_frame demo_state"
proof -
  have b: "x \<in> bytes_at 0x1000 24 \<longleftrightarrow> 4096 \<le> unat x \<and> unat x < 4120"
    "x \<in> bytes_at 0x2000 16384 \<longleftrightarrow> 8192 \<le> unat x \<and> unat x < 24576" for x :: addr
    using in_bytes_at [of "0x1000" 24 x] in_bytes_at [of "0x2000" 16384 x] by simp_all
  have "bytes_at 0x1000 24 \<inter> bytes_at 0x2000 16384 = {}" using b by auto
  moreover have "bytes_at 0x1000 24 \<union> bytes_at 0x2000 16384 \<subseteq> demo_owned 16" using b by (auto simp: demo_owned_def)
  ultimately show ?thesis by (simp add: stack_ok_def stack_bytes_def demo_frame_def demo_state_def)
qed

lemma demo_enters: "\<exists>call t s'. enter_kernel demo_efi demo_frame 0 0x101000 0 demo_state = Inr (call, t, s')"
  by (simp add: enter_kernel_def alloc_tables_def alloc_table_def demo_efi_def demo_state_def checked_def efi_error_def
      EFI_SUCCESS_def Let_def exit_boot_services_def GetMemoryMap_def PrintLn_def Print_def)

theorem enter_kernel_tables_witness:
  "\<exists>call t s'. enter_kernel demo_efi demo_frame 0 0x101000 0 demo_state = Inr (call, t, s') \<and>
     vMain_addr call = 0x101000 \<and>
     boot_walk (fst s') 4 (page_tables call) 0xffff800000001234 = mapped 0x101234 \<and>
     boot_walk (fst s') 4 (page_tables call) 0x5678 = mapped 0x5678"
proof -
  obtain call t s' where e: "enter_kernel demo_efi demo_frame 0 0x101000 0 demo_state = Inr (call, t, s')"
    using demo_enters by blast
  have "in_window 0xffff800000001234" by (simp add: in_window_def KERNEL_MAPPING_def)
  from enter_kernel_tables [OF demo_efi_ok demo_stack_ok e this, of "0x5678"] e show ?thesis
    by (simp add: v2p_def KERNEL_MAPPING_def PAGE_OFFSET_def)
qed

end
