(* ===== verification/Strings.thy ===== *)
theory Strings
  imports Memory
begin

unbundle bit_operations_syntax

text \<open>
  The string functions of stdlib on the byte memory. A loop that looks for the end of a string
  does not end when there is none, so the loops are partial functions (\<open>None\<close>: no end found).
  Characters are signed, as in the ABI the kernel is compiled for; a pointer result is an
  address, 0 for \<open>NULL\<close>.
\<close>

subsection \<open>The functions\<close>

text \<open>\<open>s[i]\<close> for a 32-bit index.\<close>

definition at :: "mem \<Rightarrow> addr \<Rightarrow> u32 \<Rightarrow> u8" where "at h s i = h (s + ucast i)"

partial_function (option) strlen_loop :: "mem \<Rightarrow> addr \<Rightarrow> u32 \<Rightarrow> u32 option" where
  "strlen_loop h s i = (if at h s i \<noteq> 0 then strlen_loop h s (i + 1) else Some (i + 1))"

definition strlen :: "mem \<Rightarrow> addr \<Rightarrow> u32 option" where
  "strlen h s = map_option (\<lambda>i. i - 1) (strlen_loop h s 0)"

definition strcpy :: "addr \<Rightarrow> addr \<Rightarrow> mem \<Rightarrow> mem option" where
  "strcpy s1 s2 h = map_option (\<lambda>n. memcpy s1 s2 (n + 1) h) (strlen h s2)"

function strncpy_loop :: "addr \<Rightarrow> u32 \<Rightarrow> u32 \<Rightarrow> mem \<Rightarrow> mem" where
  "strncpy_loop s1 n i h =
     (if i < n then strncpy_loop s1 n (i + 1) (h(s1 + ucast i := 0)) else h)"
  by pat_completeness auto
termination
proof (relation "measure (\<lambda>(s1, n, i, h). unat n - unat i)")
  fix s1 n i h assume "i < (n :: u32)"
  then have "unat i < unat n" "unat n < 2 ^ 32" using unat_lt_pow [of n] by (simp_all add: word_less_nat_alt)
  then show "((s1, n, i + 1, h(s1 + ucast i := 0)), s1, n, i, h)
      \<in> measure (\<lambda>(s1, n, i, h). unat n - unat i)"
    by (simp add: unat_add_exact)
qed simp

declare strncpy_loop.simps [simp del]

text \<open>The second \<open>strlen\<close> runs after the copy.\<close>

definition strncpy :: "addr \<Rightarrow> addr \<Rightarrow> u32 \<Rightarrow> mem \<Rightarrow> mem option" where
  "strncpy s1 s2 n h =
     (let h1 = memcpy s1 s2 n h in map_option (\<lambda>i. strncpy_loop s1 n i h1) (strlen h1 s2))"

partial_function (option) strcat_loop :: "mem \<Rightarrow> addr \<Rightarrow> u32 \<Rightarrow> u32 option" where
  "strcat_loop h s i = (if at h s i \<noteq> 0 then strcat_loop h s (i + 1) else Some i)"

definition strcat :: "addr \<Rightarrow> addr \<Rightarrow> mem \<Rightarrow> mem option" where
  "strcat s1 s2 h =
     (case strcat_loop h s1 0 of None \<Rightarrow> None | Some i \<Rightarrow> strcpy (s1 + ucast i) s2 h)"

partial_function (option) strchr_loop :: "mem \<Rightarrow> addr \<Rightarrow> int \<Rightarrow> u32 \<Rightarrow> addr option" where
  "strchr_loop h s c i =
     (if at h s i \<noteq> 0
      then if sint (at h s i) = c then Some (s + ucast i) else strchr_loop h s c (i + 1)
      else if sint (at h s i) = c then Some (s + ucast i) else Some 0)"

definition strchr :: "mem \<Rightarrow> addr \<Rightarrow> int \<Rightarrow> addr option" where
  "strchr h s c = strchr_loop h s c 0"

partial_function (option) strrchr_loop :: "mem \<Rightarrow> addr \<Rightarrow> int \<Rightarrow> addr \<Rightarrow> addr option" where
  "strrchr_loop h s c p =
     (let p1 = (if sint (h s) = c then s else p)
      in if h s \<noteq> 0 then strrchr_loop h (s + 1) c p1 else Some p1)"

definition strrchr :: "mem \<Rightarrow> addr \<Rightarrow> int \<Rightarrow> addr option" where
  "strrchr h s c = strrchr_loop h s c 0"

partial_function (option) strcmp_loop :: "mem \<Rightarrow> addr \<Rightarrow> addr \<Rightarrow> u32 \<Rightarrow> int option" where
  "strcmp_loop h s1 s2 i =
     (if at h s1 i = at h s2 i \<and> at h s1 i \<noteq> 0 then strcmp_loop h s1 s2 (i + 1)
      else Some (sint (at h s1 i) - sint (at h s2 i)))"

definition strcmp :: "mem \<Rightarrow> addr \<Rightarrow> addr \<Rightarrow> int option" where
  "strcmp h s1 s2 = strcmp_loop h s1 s2 0"

subsection \<open>Strings in memory\<close>

text \<open>\<open>cstr h a cs\<close>: the characters \<open>cs\<close> and a terminating 0 stand at \<open>a\<close>.\<close>

fun cstr :: "mem \<Rightarrow> addr \<Rightarrow> u8 list \<Rightarrow> bool" where
  "cstr h a [] \<longleftrightarrow> h a = 0"
| "cstr h a (c # cs) \<longleftrightarrow> c \<noteq> 0 \<and> h a = c \<and> cstr h (a + 1) cs"

lemma offset_Suc: "a + word_of_nat (Suc i) = a + 1 + (word_of_nat i :: addr)"
  by (simp add: algebra_simps)

lemma cstr_cong:
  "(\<And>x. x \<in> bytes_at a (length cs + 1) \<Longrightarrow> h' x = h x) \<Longrightarrow> cstr h' a cs = cstr h a cs"
proof (induction cs arbitrary: a)
  case (Cons c cs)
  have "cstr h' (a + 1) cs = cstr h (a + 1) cs"
    using Cons.prems by (intro Cons.IH) (simp add: bytes_at_Suc)
  with Cons.prems show ?case by (simp add: bytes_at_Suc)
qed (simp add: bytes_at_Suc)

lemma cstr_nth:
  "cstr h a cs \<Longrightarrow> i < length cs \<Longrightarrow> h (a + word_of_nat i) = cs ! i \<and> cs ! i \<noteq> 0"
proof (induction cs arbitrary: a i)
  case (Cons c cs)
  show ?case
  proof (cases i)
    case (Suc j)
    with Cons.prems Cons.IH [of "a + 1" j] show ?thesis by (simp add: offset_Suc del: of_nat_Suc)
  qed (use Cons.prems in simp)
qed simp

lemma cstr_end: "cstr h a cs \<Longrightarrow> h (a + word_of_nat (length cs)) = 0"
proof (induction cs arbitrary: a)
  case (Cons c cs)
  then show ?case by (simp add: offset_Suc del: of_nat_Suc)
qed simp

lemma cstr_append:
  "cstr h a (cs @ ds) \<longleftrightarrow> (\<forall>i < length cs. h (a + word_of_nat i) = cs ! i \<and> cs ! i \<noteq> 0) \<and>
     cstr h (a + word_of_nat (length cs)) ds"
proof (induction cs arbitrary: a)
  case (Cons c cs)
  have "(\<forall>i < length (c # cs). h (a + word_of_nat i) = (c # cs) ! i \<and> (c # cs) ! i \<noteq> 0) \<longleftrightarrow>
      h a = c \<and> c \<noteq> 0 \<and> (\<forall>i < length cs. h (a + 1 + word_of_nat i) = cs ! i \<and> cs ! i \<noteq> 0)"
    by (auto simp: less_Suc_eq_0_disj offset_Suc simp del: of_nat_Suc)
  with Cons [of "a + 1"] show ?case by (auto simp: offset_Suc simp del: of_nat_Suc)
qed simp

text \<open>An index into a string of fewer than \<open>2 ^ 32\<close> characters.\<close>

lemma at_word_of_nat:
  assumes "i < 2 ^ 32"
  shows "at h s (word_of_nat i) = h (s + word_of_nat i)"
proof -
  have "ucast (word_of_nat i :: u32) = (word_of_nat i :: u64)"
    using assms by (intro word_eq_unatI) (simp add: unat_ucast_up unat_of_nat)
  then show ?thesis by (simp add: at_def)
qed

lemma cstr_at:
  assumes "cstr h s cs" and "i \<le> length cs" and "length cs < 2 ^ 31"
  shows "at h s (word_of_nat i) = (if i < length cs then cs ! i else 0)"
    "at h s (word_of_nat i) = 0 \<longleftrightarrow> i = length cs"
  using assms cstr_nth [OF assms(1), of i] cstr_end [OF assms(1)] at_word_of_nat [of i h s]
  by (cases "i = length cs"; simp)+


subsection \<open>What the functions compute\<close>

lemma index_Suc: "word_of_nat (Suc i) = word_of_nat i + (1 :: u32)"
  by simp

lemma strlen_loop_cstr:
  "cstr h s cs \<Longrightarrow> length cs < 2 ^ 31 \<Longrightarrow> i \<le> length cs \<Longrightarrow>
   strlen_loop h s (word_of_nat i) = Some (word_of_nat (length cs) + 1)"
proof (induction "length cs - i" arbitrary: i)
  case 0
  then have "i = length cs" by simp
  with 0 cstr_at(2) [OF "0.prems"(1,3,2)] show ?case by (subst strlen_loop.simps) simp
next
  case (Suc k)
  then have lt: "i < length cs" by simp
  with Suc cstr_at(2) [OF Suc.prems(1,3,2)] Suc.hyps(1) [of "Suc i"] show ?case
    by (subst strlen_loop.simps) (simp add: add.commute)
qed

lemma strlen_cstr: "cstr h s cs \<Longrightarrow> length cs < 2 ^ 31 \<Longrightarrow> strlen h s = Some (word_of_nat (length cs))"
  using strlen_loop_cstr [of h s cs 0] by (simp add: strlen_def)

lemma strcat_loop_cstr:
  "cstr h s cs \<Longrightarrow> length cs < 2 ^ 31 \<Longrightarrow> i \<le> length cs \<Longrightarrow>
   strcat_loop h s (word_of_nat i) = Some (word_of_nat (length cs))"
proof (induction "length cs - i" arbitrary: i)
  case 0
  then have "i = length cs" by simp
  with 0 cstr_at(2) [OF "0.prems"(1,3,2)] show ?case by (subst strcat_loop.simps) simp
next
  case (Suc k)
  then have lt: "i < length cs" by simp
  with Suc cstr_at(2) [OF Suc.prems(1,3,2)] Suc.hyps(1) [of "Suc i"] show ?case
    by (subst strcat_loop.simps) (simp add: add.commute)
qed

text \<open>A copy of the bytes of a string, its 0 included, is the string.\<close>

lemma cstr_copy:
  assumes "cstr h s2 cs" and "\<And>i. i \<le> length cs \<Longrightarrow> h' (s1 + word_of_nat i) = h (s2 + word_of_nat i)"
  shows "cstr h' s1 cs"
  using cstr_append [of h' s1 cs "[]"] cstr_nth [OF assms(1)] cstr_end [OF assms(1)] assms(2)
  by simp

text \<open>
  C32: \<open>strlen\<close> and \<open>strcpy\<close> on a string that does not overlap the destination: the length is
  found, the destination holds the same string, the source still does, and nothing but the
  bytes of the copy is written.
\<close>

theorem strcpy_copies:
  assumes "cstr h s2 cs" and "length cs < 2 ^ 31"
    and "bytes_at s1 (length cs + 1) \<inter> bytes_at s2 (length cs + 1) = {}"
  shows "\<exists>h'. strlen h s2 = Some (word_of_nat (length cs)) \<and> strcpy s1 s2 h = Some h' \<and>
    cstr h' s1 cs \<and> cstr h' s2 cs \<and> (\<forall>x. x \<notin> bytes_at s1 (length cs + 1) \<longrightarrow> h' x = h x)"
proof -
  define n :: u32 where "n = word_of_nat (length cs) + 1"
  have n: "unat n = length cs + 1"
    using assms(2) by (simp add: n_def unat_add_exact unat_of_nat)
  have sl: "strlen h s2 = Some (word_of_nat (length cs))" by (rule strlen_cstr [OF assms(1,2)])
  let ?h = "memcpy s1 s2 n h"
  have o: "?h x = h x" if "x \<notin> bytes_at s1 (length cs + 1)" for x
    using that n by (simp add: memcpy_other)
  have "cstr ?h s1 cs"
    using assms(1) by (rule cstr_copy) (use memcpy_at [of s1 n s2] n assms(3) in simp)
  moreover have "cstr ?h s2 cs = cstr h s2 cs"
    by (rule cstr_cong) (use o assms(3) in blast)
  ultimately show ?thesis
    using sl o assms(1) by (simp add: strcpy_def n_def [symmetric])
qed

text \<open>A two-character string next to free memory.\<close>

definition demo_str :: mem where
  "demo_str = (\<lambda>_. 0x41)(0x1000 := 0x6f, 0x1001 := 0x6b, 0x1002 := 0)"

lemma demo_str_cstr: "cstr demo_str 0x1000 [0x6f, 0x6b]"
  by (simp add: demo_str_def)

theorem strcpy_copies_witness:
  "\<exists>h'. strcpy 0x2000 0x1000 demo_str = Some h' \<and> cstr h' 0x2000 [0x6f, 0x6b]"
  using strcpy_copies [OF demo_str_cstr, of "0x2000"] bytes_at_disjoint [of "0x2000" "Suc (Suc (Suc 0))" "0x1000" "Suc (Suc (Suc 0))"]
  by auto

text \<open>
  \<open>strcat\<close> appends: given room behind the first string apart from the second, the result is
  the concatenation.
\<close>

theorem strcat_appends:
  assumes "cstr h s1 cs" and "cstr h s2 ds" and "length cs < 2 ^ 31" and "length ds < 2 ^ 31"
    and "bytes_at (s1 + word_of_nat (length cs)) (length ds + 1) \<inter> bytes_at s2 (length ds + 1) = {}"
    and "bytes_at (s1 + word_of_nat (length cs)) (length ds + 1) \<inter> bytes_at s1 (length cs) = {}"
  shows "\<exists>h'. strcat s1 s2 h = Some h' \<and> cstr h' s1 (cs @ ds)"
proof -
  let ?e = "s1 + word_of_nat (length cs)"
  have u: "ucast (word_of_nat (length cs) :: u32) = (word_of_nat (length cs) :: u64)"
    using assms(3) by (intro word_eq_unatI) (simp add: unat_ucast_up unat_of_nat)
  have "strcat_loop h s1 (word_of_nat 0) = Some (word_of_nat (length cs))"
    using assms(1,3) by (intro strcat_loop_cstr) simp_all
  then have l: "strcat s1 s2 h = strcpy ?e s2 h" by (simp add: strcat_def u)
  define n :: u32 where "n = word_of_nat (length ds) + 1"
  have n: "unat n = length ds + 1"
    using assms(4) by (simp add: n_def unat_add_exact unat_of_nat)
  let ?h = "memcpy ?e s2 n h"
  have c: "strcpy ?e s2 h = Some ?h"
    using strlen_cstr [OF assms(2,4)] by (simp add: strcpy_def n_def)
  have "?h (s1 + word_of_nat i) = h (s1 + word_of_nat i)" if "i < length cs" for i
    using bytes_at_I [OF that, of s1] assms(6) n by (intro memcpy_other) auto
  moreover have "cstr ?h ?e ds"
    using assms(2) by (rule cstr_copy) (use memcpy_at [of ?e n s2] n assms(5) in simp)
  ultimately have "cstr ?h s1 (cs @ ds)" using cstr_nth [OF assms(1)] by (simp add: cstr_append)
  with l c show ?thesis by simp
qed

theorem strcat_appends_witness:
  "\<exists>h'. strcat 0x1000 0x2000 (demo_str(0x2000 := 0x21, 0x2001 := 0)) = Some h' \<and>
     cstr h' 0x1000 [0x6f, 0x6b, 0x21]"
proof -
  let ?h = "demo_str(0x2000 := 0x21, 0x2001 := 0)"
  have "cstr ?h 0x1000 [0x6f, 0x6b]" "cstr ?h 0x2000 [0x21]" by (simp_all add: demo_str_def)
  from strcat_appends [OF this] bytes_at_disjoint [of "0x1002" "Suc (Suc 0)" "0x2000" "Suc (Suc 0)"]
    bytes_at_disjoint [of "0x1002" "Suc (Suc 0)" "0x1000" "Suc (Suc 0)"]
  show ?thesis by simp
qed

text \<open>The character at an index of a string, 0 at its end.\<close>

definition char_at :: "u8 list \<Rightarrow> nat \<Rightarrow> u8" where
  "char_at cs k = (if k < length cs then cs ! k else 0)"

lemma cstr_char_at:
  "cstr h s cs \<Longrightarrow> k \<le> length cs \<Longrightarrow> length cs < 2 ^ 31 \<Longrightarrow> at h s (word_of_nat k) = char_at cs k"
  using cstr_at(1) by (simp add: char_at_def)

lemma char_at_zero: "cstr h s cs \<Longrightarrow> k \<le> length cs \<Longrightarrow> char_at cs k = 0 \<longleftrightarrow> k = length cs"
  using cstr_nth [of h s cs k] by (auto simp: char_at_def)

lemma strcmp_loop_cstr:
  assumes "cstr h s1 cs" "cstr h s2 ds" "length cs < 2 ^ 31" "length ds < 2 ^ 31"
  shows "i \<le> length cs \<Longrightarrow> i \<le> length ds \<Longrightarrow> take i cs = take i ds \<Longrightarrow>
    \<exists>k. i \<le> k \<and> k \<le> length cs \<and> k \<le> length ds \<and> take k cs = take k ds \<and>
      (char_at cs k \<noteq> char_at ds k \<or> cs = ds) \<and>
      strcmp_loop h s1 s2 (word_of_nat i) = Some (sint (char_at cs k) - sint (char_at ds k))"
proof (induction "length cs - i" arbitrary: i rule: less_induct)
  case less
  have at: "at h s1 (word_of_nat i) = char_at cs i" "at h s2 (word_of_nat i) = char_at ds i"
    using assms less.prems by (simp_all add: cstr_char_at)
  show ?case
  proof (cases "char_at cs i = char_at ds i \<and> char_at cs i \<noteq> 0")
    case True
    then have lt: "i < length cs" "i < length ds"
      using char_at_zero [OF assms(1) less.prems(1)] char_at_zero [OF assms(2) less.prems(2)] less.prems
      by auto
    with True less.prems(3) have "take (Suc i) cs = take (Suc i) ds"
      by (simp add: take_Suc_conv_app_nth char_at_def)
    moreover have "length cs - Suc i < length cs - i" "Suc i \<le> length cs" "Suc i \<le> length ds"
      using lt by simp_all
    ultimately obtain k where
      "Suc i \<le> k" "k \<le> length cs" "k \<le> length ds" "take k cs = take k ds"
      "char_at cs k \<noteq> char_at ds k \<or> cs = ds"
      "strcmp_loop h s1 s2 (word_of_nat (Suc i)) = Some (sint (char_at cs k) - sint (char_at ds k))"
      using less.hyps [of "Suc i"] by blast
    moreover have "strcmp_loop h s1 s2 (word_of_nat i) = strcmp_loop h s1 s2 (word_of_nat (Suc i))"
    proof -
      from True have "at h s1 (word_of_nat i) = at h s2 (word_of_nat i)" "at h s1 (word_of_nat i) \<noteq> 0"
        unfolding at by metis+
      then show ?thesis unfolding index_Suc by (subst strcmp_loop.simps) (simp only: simp_thms if_True)
    qed
    ultimately show ?thesis by (intro exI [of _ k] conjI) simp_all
  next
    case False
    have "strcmp_loop h s1 s2 (word_of_nat i) = Some (sint (char_at cs i) - sint (char_at ds i))"
      using False unfolding at [symmetric] by (subst strcmp_loop.simps) (rule if_not_P)
    moreover have "cs = ds" if "char_at cs i = char_at ds i"
    proof -
      have "char_at cs i = 0" "char_at ds i = 0" using False that by metis+
      then have "i = length cs" "i = length ds"
        using char_at_zero [OF assms(1) less.prems(1)] char_at_zero [OF assms(2) less.prems(2)] by blast+
      with less.prems(3) show ?thesis by (metis take_all_iff order_refl)
    qed
    ultimately show ?thesis using less.prems by blast
  qed
qed

text \<open>
  \<open>strcmp\<close> returns 0 exactly on equal strings; otherwise the difference of the first
  characters that differ, taken as signed characters.
\<close>

theorem strcmp_difference:
  assumes "cstr h s1 cs" "cstr h s2 ds" "length cs < 2 ^ 31" "length ds < 2 ^ 31"
  shows "\<exists>k r. strcmp h s1 s2 = Some r \<and> (r = 0 \<longleftrightarrow> cs = ds) \<and>
    k \<le> length cs \<and> k \<le> length ds \<and> take k cs = take k ds \<and>
    r = sint (char_at cs k) - sint (char_at ds k)"
proof -
  obtain k where k: "k \<le> length cs" "k \<le> length ds" "take k cs = take k ds"
    "char_at cs k \<noteq> char_at ds k \<or> cs = ds"
    "strcmp_loop h s1 s2 (word_of_nat 0) = Some (sint (char_at cs k) - sint (char_at ds k))"
    using strcmp_loop_cstr [OF assms, of 0] by auto
  moreover have "char_at cs k = char_at ds k \<longleftrightarrow> sint (char_at cs k) - sint (char_at ds k) = 0"
    by (auto dest: signed_word_eqI)
  ultimately show ?thesis by (auto simp: strcmp_def)
qed

theorem strcmp_difference_witness:
  "\<exists>r. strcmp (demo_str(0x2000 := 0x6f, 0x2001 := 0)) 0x1000 0x2000 = Some r \<and> r \<noteq> 0"
proof -
  let ?h = "demo_str(0x2000 := 0x6f, 0x2001 := 0)"
  have "cstr ?h 0x1000 [0x6f, 0x6b]" "cstr ?h 0x2000 [0x6f]" by (simp_all add: demo_str_def)
  from strcmp_difference [OF this] show ?thesis by auto
qed

text \<open>The loop of \<open>strncpy\<close> fills with 0 from the index it starts at.\<close>

lemma strncpy_loop_fills:
  "strncpy_loop s1 n i h x =
     (if x \<in> (\<lambda>k. s1 + word_of_nat k) ` {unat i..<unat n} then 0 else h x)"
proof (induction s1 n i h rule: strncpy_loop.induct)
  case (1 s1 n i h)
  show ?case
  proof (cases "i < n")
    case True
    then have "unat i < unat n" by (simp add: word_less_nat_alt)
    moreover from this have "unat (i + 1) = unat i + 1"
      using unat_lt_pow [of n] by (simp add: unat_add_exact)
    moreover have "s1 + ucast i = s1 + word_of_nat (unat i)" by simp
    moreover have "{unat i..<unat n} = insert (unat i) {unat i + 1..<unat n}"
      using \<open>unat i < unat n\<close> by auto
    moreover have "strncpy_loop s1 n (i + 1) (h(s1 + ucast i := 0)) x =
      (if x \<in> (\<lambda>k. s1 + word_of_nat k) ` {unat (i + 1)..<unat n} then 0
       else (h(s1 + ucast i := 0)) x)" by (rule 1 [OF True])
    moreover have "strncpy_loop s1 n i h x = strncpy_loop s1 n (i + 1) (h(s1 + ucast i := 0)) x"
      using True by (subst strncpy_loop.simps) simp
    ultimately show ?thesis by (simp add: fun_upd_def)
  next
    case False
    then show ?thesis by (subst strncpy_loop.simps) (simp add: word_less_nat_alt)
  qed
qed

lemma word_of_nat_inj64: "i < 2 ^ 64 \<Longrightarrow> k < 2 ^ 64 \<Longrightarrow> (word_of_nat i :: u64) = word_of_nat k \<Longrightarrow> i = k"
proof -
  assume b: "i < 2 ^ 64" "k < 2 ^ 64" and "(word_of_nat i :: u64) = word_of_nat k"
  then have "unat (word_of_nat i :: u64) = unat (word_of_nat k :: u64)" by (simp only:)
  with b show ?thesis by (simp add: unat_of_nat)
qed

text \<open>
  \<open>strncpy\<close> writes exactly \<open>n\<close> characters: those of the string, cut at \<open>n\<close>, then zeros. It
  reads \<open>n\<close> bytes of the source whatever its length, so they must not overlap the destination.
\<close>

theorem strncpy_pads:
  assumes "cstr h s2 cs" and "length cs < 2 ^ 31"
    and "bytes_at s1 (unat n) \<inter> (bytes_at s2 (unat n) \<union> bytes_at s2 (length cs + 1)) = {}"
  shows "\<exists>h'. strncpy s1 s2 n h = Some h' \<and>
    (\<forall>i < unat n. h' (s1 + word_of_nat i) = char_at cs i) \<and>
    (\<forall>x. x \<notin> bytes_at s1 (unat n) \<longrightarrow> h' x = h x)"
proof -
  let ?h = "memcpy s1 s2 n h"
  have "cstr ?h s2 cs = cstr h s2 cs"
    by (rule cstr_cong, rule memcpy_other) (use assms(3) in blast)
  then have sl: "strlen ?h s2 = Some (word_of_nat (length cs))"
    using assms(1,2) by (simp add: strlen_cstr)
  define h' where "h' = strncpy_loop s1 n (word_of_nat (length cs)) ?h"
  have l: "unat (word_of_nat (length cs) :: u32) = length cs" using assms(2) by (simp add: unat_of_nat)
  have nl: "unat n < 2 ^ 64" using unat_u32_lt [of n] by simp
  have ch: "h' (s1 + word_of_nat i) = char_at cs i" if i: "i < unat n" for i
  proof (cases "i < length cs")
    case True
    have "s1 + word_of_nat i \<notin> (\<lambda>k. s1 + word_of_nat k) ` {length cs..<unat n}"
    proof
      assume "s1 + word_of_nat i \<in> (\<lambda>k. s1 + word_of_nat k) ` {length cs..<unat n}"
      then obtain k where k: "length cs \<le> k" "k < unat n" "(word_of_nat i :: u64) = word_of_nat k" by auto
      then have "i = k" using i nl by (intro word_of_nat_inj64) auto
      with k True show False by simp
    qed
    then have "h' (s1 + word_of_nat i) = ?h (s1 + word_of_nat i)"
      by (simp add: h'_def strncpy_loop_fills l)
    also have "\<dots> = h (s2 + word_of_nat i)" using assms(3) i by (intro memcpy_at) auto
    finally show ?thesis using True cstr_nth [OF assms(1) True] by (simp add: char_at_def)
  next
    case False
    then show ?thesis using i by (auto simp: h'_def strncpy_loop_fills l char_at_def)
  qed
  have "h' x = h x" if "x \<notin> bytes_at s1 (unat n)" for x
  proof -
    have "x \<notin> (\<lambda>k. s1 + word_of_nat k) ` {length cs..<unat n}"
      using that by (auto simp: bytes_at_def)
    with that show ?thesis by (simp add: h'_def strncpy_loop_fills l memcpy_other)
  qed
  with ch sl show ?thesis by (simp add: strncpy_def Let_def h'_def)
qed

theorem strncpy_pads_witness:
  "\<exists>h'. strncpy 0x2000 0x1000 4 demo_str = Some h' \<and> h' 0x2001 = 0x6b \<and> h' 0x2003 = 0"
proof -
  have "bytes_at 0x2000 (unat (4 :: u32)) \<inter>
      (bytes_at 0x1000 (unat (4 :: u32)) \<union> bytes_at 0x1000 (length [0x6f :: u8, 0x6b] + 1)) = {}"
    using bytes_at_disjoint [of "0x2000" 4 "0x1000" 4] bytes_at_disjoint [of "0x2000" 4 "0x1000" "Suc (Suc (Suc 0))"]
    by (simp add: Int_Un_distrib)
  from strncpy_pads [OF demo_str_cstr _ this] obtain h' where
    h: "strncpy 0x2000 0x1000 4 demo_str = Some h'" and
    c: "\<forall>i < unat (4 :: u32). h' (0x2000 + word_of_nat i) = char_at [0x6f, 0x6b] i" by auto
  have "1 < unat (4 :: u32)" "3 < unat (4 :: u32)" by simp_all
  from this [THEN c [rule_format]] h show ?thesis by (simp add: char_at_def)
qed

end
