(* ===== verification/Graphics.thy ===== *)
theory Graphics
  imports Font Addresses Bitfields
begin

unbundle bit_operations_syntax

text \<open>
  Drawing on the linear frame buffer (kernel/uefi_graphics.c). Coordinates are C \<open>int\<close>s and
  modelled as integers; the offset \<open>(y * pixels_per_scanline + x) * 4\<close> is added to the frame
  buffer address.
\<close>

subsection \<open>kernel/uefi_graphics.c\<close>

datatype pixel_format = RGB | BGR

record gop_state =
  width :: int
  height :: int
  pixels_per_scanline :: int
  frame_buffer :: addr
  putPixel_ptr :: pixel_format

definition pixel_addr :: "gop_state \<Rightarrow> int \<Rightarrow> int \<Rightarrow> int \<Rightarrow> addr" where
  "pixel_addr gs x y k = frame_buffer gs + word_of_int ((y * pixels_per_scanline gs + x) * 4 + k)"

definition putPixel_RGB :: "gop_state \<Rightarrow> int \<Rightarrow> int \<Rightarrow> u8 \<Rightarrow> u8 \<Rightarrow> u8 \<Rightarrow> mem \<Rightarrow> mem" where
  "putPixel_RGB gs x y r g b h =
     (if width gs \<le> x \<or> height gs \<le> y then h
      else h(pixel_addr gs x y 0 := r, pixel_addr gs x y 1 := g, pixel_addr gs x y 2 := b))"

definition putPixel_BGR :: "gop_state \<Rightarrow> int \<Rightarrow> int \<Rightarrow> u8 \<Rightarrow> u8 \<Rightarrow> u8 \<Rightarrow> mem \<Rightarrow> mem" where
  "putPixel_BGR gs x y r g b h =
     (if width gs \<le> x \<or> height gs \<le> y then h
      else h(pixel_addr gs x y 0 := b, pixel_addr gs x y 1 := g, pixel_addr gs x y 2 := r))"

definition putPixel :: "gop_state \<Rightarrow> int \<Rightarrow> int \<Rightarrow> u8 \<Rightarrow> u8 \<Rightarrow> u8 \<Rightarrow> mem \<Rightarrow> mem" where
  "putPixel gs x y r g b h =
     (case putPixel_ptr gs of RGB \<Rightarrow> putPixel_RGB gs x y r g b h | BGR \<Rightarrow> putPixel_BGR gs x y r g b h)"

text \<open>A row of a glyph: bit 7 is the leftmost pixel.\<close>

definition put_row :: "gop_state \<Rightarrow> u8 \<Rightarrow> int \<Rightarrow> int \<Rightarrow> u8 \<Rightarrow> u8 \<Rightarrow> u8 \<Rightarrow> mem \<Rightarrow> mem" where
  "put_row gs f x y r g b h =
     fold (\<lambda>j h. if f AND drop_bit j 0x80 \<noteq> 0 then putPixel gs (x + int j) y r g b h else h) [0..<8] h"

definition put_char :: "gop_state \<Rightarrow> u8 \<Rightarrow> int \<Rightarrow> int \<Rightarrow> u8 \<Rightarrow> u8 \<Rightarrow> u8 \<Rightarrow> mem \<Rightarrow> mem" where
  "put_char gs c x y r g b h =
     fold (\<lambda>i. put_row gs (font8x16 (unat c * 16 + i)) x (y + int i) r g b) [0..<16] h"

definition clear_screen :: "gop_state \<Rightarrow> mem \<Rightarrow> mem" where
  "clear_screen gs h =
     fold (\<lambda>i. fold (\<lambda>j. putPixel gs (int j) (int i) 0x00 0x00 0x00) [0..<nat (width gs)])
       [0..<nat (height gs)] h"

definition row_addr :: "gop_state \<Rightarrow> int \<Rightarrow> addr" where
  "row_addr gs i = frame_buffer gs + word_of_int (i * pixels_per_scanline gs * 4)"

definition scroll_screen :: "gop_state \<Rightarrow> mem \<Rightarrow> mem" where
  "scroll_screen gs h =
     (let h1 = fold (\<lambda>i. memcpy (row_addr gs (int i)) (row_addr gs (int i + 16)) (400 * 4))
                 [0..<nat (height gs - 16)] h
      in fold (\<lambda>i. memset (frame_buffer gs + word_of_int (pixels_per_scanline gs * (height gs - int i) * 4))
                     0 (400 * 16 * 4)) [0..<16] h1)"

text \<open>\<open>put_string\<close>: after a line feed the next character is drawn unseen (it may be the final 0).\<close>

function put_string_from ::
  "gop_state \<Rightarrow> u8 list \<Rightarrow> int \<Rightarrow> int \<Rightarrow> u8 \<Rightarrow> u8 \<Rightarrow> u8 \<Rightarrow> mem \<Rightarrow> mem option" where
  "put_string_from gs s x y r g b h =
     (case s of
        [] \<Rightarrow> None
      | c # s' \<Rightarrow>
          if c = 0 then Some h
          else
            let (s1, x1, y1) = (if c = 0x0a then (s', 0, y + 16) else (s, x, y))
            in case s1 of
                 [] \<Rightarrow> None
               | c1 # s2 \<Rightarrow>
                   if x1 \<noteq> width gs
                   then put_string_from gs s2 (x1 + 8) y1 r g b (put_char gs c1 x1 y1 r g b h)
                   else put_string_from gs s2 x1 y1 r g b h)"
  by pat_completeness auto
termination
  by (relation "measure (\<lambda>(gs, s, x, y, r, g, b, h). length s)") (auto split: if_splits)

text \<open>The fields of the firmware's mode structures that \<open>init_gop\<close> reads.\<close>

record gop_mode =
  HorizontalResolution :: u32
  VerticalResolution :: u32
  PixelFormat :: u32
  PixelsPerScanLine :: u32
  FrameBufferBase :: u64

definition init_gop :: "gop_mode \<Rightarrow> mem \<Rightarrow> gop_state \<times> mem" where
  "init_gop info h =
     (let gs = \<lparr>width = sint (HorizontalResolution info), height = sint (VerticalResolution info),
                pixels_per_scanline = sint (PixelsPerScanLine info),
                frame_buffer = P2V (FrameBufferBase info),
                putPixel_ptr = (if PixelFormat info = 1 then BGR else RGB)\<rparr>
      in (gs, clear_screen gs h))"

subsection \<open>The screen as a grid of colours\<close>

text \<open>
  The abstract screen: the colour at a position, whatever the byte order of the mode, and the
  bytes of the frame buffer. A geometry is sound when the visible width fits the scan line and
  the buffer fits the address space.
\<close>

definition pixel :: "gop_state \<Rightarrow> mem \<Rightarrow> int \<Rightarrow> int \<Rightarrow> u8 \<times> u8 \<times> u8" where
  "pixel gs h x y =
     (case putPixel_ptr gs of
        RGB \<Rightarrow> (h (pixel_addr gs x y 0), h (pixel_addr gs x y 1), h (pixel_addr gs x y 2))
      | BGR \<Rightarrow> (h (pixel_addr gs x y 2), h (pixel_addr gs x y 1), h (pixel_addr gs x y 0)))"

definition geometry :: "gop_state \<Rightarrow> bool" where
  "geometry gs \<longleftrightarrow> 0 \<le> width gs \<and> width gs \<le> pixels_per_scanline gs \<and> 0 \<le> height gs \<and>
     4 * (pixels_per_scanline gs * height gs) \<le> 2 ^ 64"

definition on_grid :: "gop_state \<Rightarrow> int \<Rightarrow> int \<Rightarrow> bool" where
  "on_grid gs x y \<longleftrightarrow> 0 \<le> x \<and> x < pixels_per_scanline gs \<and> 0 \<le> y \<and> y < height gs"

definition frame_bytes :: "gop_state \<Rightarrow> addr set" where
  "frame_bytes gs = {frame_buffer gs + word_of_int z |z.
     0 \<le> z \<and> z < 4 * (pixels_per_scanline gs * height gs)}"

lemma offset_bounds:
  assumes "on_grid gs x y" and "0 \<le> k" and "k < 4"
  shows "0 \<le> (y * pixels_per_scanline gs + x) * 4 + k"
    and "(y * pixels_per_scanline gs + x) * 4 + k < 4 * (pixels_per_scanline gs * height gs)"
proof -
  let ?p = "pixels_per_scanline gs"
  show "0 \<le> (y * ?p + x) * 4 + k"
    using assms by (auto simp: on_grid_def intro!: add_nonneg_nonneg mult_nonneg_nonneg)
  have "(y + 1) * ?p \<le> height gs * ?p"
    using assms by (intro mult_right_mono) (auto simp: on_grid_def)
  then have "y * ?p + ?p \<le> ?p * height gs" by (simp add: algebra_simps)
  with assms show "(y * ?p + x) * 4 + k < 4 * (?p * height gs)"
    by (auto simp: on_grid_def)
qed

lemma word_of_int_inj:
  "word_of_int a = (word_of_int b :: 64 word) \<Longrightarrow> 0 \<le> a \<Longrightarrow> a < 2 ^ 64 \<Longrightarrow> 0 \<le> b \<Longrightarrow> b < 2 ^ 64 \<Longrightarrow> a = b"
  by (simp add: word_of_int_eq_iff take_bit_int_eq_self)

lemma row_col_unique:
  assumes "0 \<le> x" "x < p" "0 \<le> x'" "x' < p" and "y * p + x = y' * p + (x' :: int)"
  shows "x = x' \<and> y = y'"
proof -
  have "(y * p + x) div p = y" "(y' * p + x') div p = y'"
    using assms(1-4) by (simp_all add: div_pos_pos_trivial)
  with assms(5) have "y = y'" by simp
  with assms(5) show ?thesis by simp
qed

lemma pixel_addr_inj:
  assumes "geometry gs" "on_grid gs x y" "on_grid gs x' y'"
    and "0 \<le> k" "k < 4" "0 \<le> k'" "k' < 4"
    and "pixel_addr gs x y k = pixel_addr gs x' y' k'"
  shows "x = x' \<and> y = y' \<and> k = k'"
proof -
  let ?p = "pixels_per_scanline gs"
  let ?o = "(y * ?p + x) * 4 + k" and ?o' = "(y' * ?p + x') * 4 + k'"
  have le: "4 * (?p * height gs) \<le> 2 ^ 64" using assms(1) by (simp add: geometry_def)
  have "?o = ?o'"
  proof (rule word_of_int_inj)
    show "word_of_int ?o = (word_of_int ?o' :: 64 word)"
      using assms(8) unfolding pixel_addr_def by (simp only: add_left_cancel)
    show "0 \<le> ?o" "0 \<le> ?o'" using assms offset_bounds(1) by blast+
    show "?o < 2 ^ 64" "?o' < 2 ^ 64"
      using offset_bounds(2) [OF assms(2,4,5)] offset_bounds(2) [OF assms(3,6,7)] le by linarith+
  qed
  then have "y * ?p + x = y' * ?p + x'" and "k = k'" using assms(4-7) by presburger+
  moreover have "0 \<le> x" "x < ?p" "0 \<le> x'" "x' < ?p" using assms(2,3) by (auto simp: on_grid_def)
  ultimately show ?thesis using row_col_unique by blast
qed

lemma pixel_addr_in_frame:
  "on_grid gs x y \<Longrightarrow> 0 \<le> k \<Longrightarrow> k < 4 \<Longrightarrow> pixel_addr gs x y k \<in> frame_bytes gs"
  unfolding frame_bytes_def pixel_addr_def using offset_bounds by blast

lemma on_grid_visible:
  "geometry gs \<Longrightarrow> 0 \<le> x \<Longrightarrow> 0 \<le> y \<Longrightarrow> x < width gs \<Longrightarrow> y < height gs \<Longrightarrow> on_grid gs x y"
  by (simp add: geometry_def on_grid_def)

lemmas put_pixel_defs = putPixel_def putPixel_RGB_def putPixel_BGR_def

text \<open>\<open>putPixel\<close> is an update of the grid at one visible position.\<close>

lemma pixel_putPixel:
  assumes g: "geometry gs" and p: "0 \<le> x" "0 \<le> y" and q: "on_grid gs x' y'"
  shows "pixel gs (putPixel gs x y r g b h) x' y' =
    (if x' = x \<and> y' = y \<and> x < width gs \<and> y < height gs then (r, g, b) else pixel gs h x' y')"
proof (cases "x < width gs \<and> y < height gs")
  case True
  with g p have on: "on_grid gs x y" by (simp add: on_grid_visible)
  have ne: "pixel_addr gs x' y' k' \<noteq> pixel_addr gs x y k"
    if "\<not> (x' = x \<and> y' = y)" "0 \<le> k" "k < 4" "0 \<le> k'" "k' < 4" for k k'
    using that pixel_addr_inj [OF g q on] by blast
  have d: "pixel_addr gs x y k' \<noteq> pixel_addr gs x y k"
    if "k' \<noteq> k" "0 \<le> k" "k < 4" "0 \<le> k'" "k' < 4" for k k'
    using that pixel_addr_inj [OF g on on] by blast
  show ?thesis
  proof (cases "x' = x \<and> y' = y")
    case same: True
    have "pixel gs (putPixel gs x y r g b h) x y = (r, g, b)"
      using True by (cases "putPixel_ptr gs") (simp_all add: put_pixel_defs pixel_def d)
    with True same show ?thesis by simp
  next
    case diff: False
    have "pixel gs (putPixel gs x y r g b h) x' y' = pixel gs h x' y'"
      using True
      by (cases "putPixel_ptr gs") (simp_all add: put_pixel_defs pixel_def ne [OF diff])
    with diff show ?thesis by auto
  qed
next
  case False
  then have "putPixel gs x y r g b h = h"
    by (cases "putPixel_ptr gs") (auto simp: put_pixel_defs)
  with False show ?thesis by auto
qed

lemma putPixel_frame:
  assumes "geometry gs" "0 \<le> x" "0 \<le> y" "a \<notin> frame_bytes gs"
  shows "putPixel gs x y r g b h a = h a"
proof (cases "x < width gs \<and> y < height gs")
  case True
  with assms have "on_grid gs x y" by (simp add: on_grid_visible)
  then have "a \<noteq> pixel_addr gs x y k" if "0 \<le> k" "k < 4" for k
    using that pixel_addr_in_frame assms(4) by blast
  then show ?thesis by (cases "putPixel_ptr gs") (simp_all add: put_pixel_defs)
next
  case False
  then show ?thesis by (cases "putPixel_ptr gs") (auto simp: put_pixel_defs)
qed

text \<open>A sequence of drawings, each changing at most its own part of the screen.\<close>

lemma put_row_last:
  "fold (\<lambda>j h. if P j then putPixel gs (x + int j) y r g b h else h) [0..<Suc n] h =
   (let h1 = fold (\<lambda>j h. if P j then putPixel gs (x + int j) y r g b h else h) [0..<n] h
    in if P n then putPixel gs (x + int n) y r g b h1 else h1)"
  by simp

lemma pixel_put_columns:
  assumes g: "geometry gs" and p: "0 \<le> x" "0 \<le> y" and q: "on_grid gs x' y'"
  shows "pixel gs (fold (\<lambda>j h. if P j then putPixel gs (x + int j) y r g b h else h) [0..<n] h) x' y' =
    (if y' = y \<and> x \<le> x' \<and> x' < x + int n \<and> P (nat (x' - x)) \<and> x' < width gs \<and> y' < height gs
     then (r, g, b) else pixel gs h x' y')"
proof (induction n)
  case (Suc n)
  have n: "0 \<le> x + int n" using p by simp
  show ?case
  proof (cases "x' = x + int n \<and> y' = y")
    case True
    then have t: "x' = x + int n" "y' = y" by simp_all
    note q' = q [unfolded t]
    show ?thesis
      using p Suc.IH unfolding put_row_last Let_def t by (auto simp: pixel_putPixel [OF g n p(2) q'])
  next
    case False
    then have c: "(y' = y \<and> x \<le> x' \<and> x' < x + int (Suc n) \<and> R) = (y' = y \<and> x \<le> x' \<and> x' < x + int n \<and> R)" for R
      by auto
    have "pixel gs (if P n then putPixel gs (x + int n) y r g b h1 else h1) x' y' = pixel gs h1 x' y'" for h1
      using False by (auto simp: pixel_putPixel [OF g n p(2) q])
    then show ?thesis
      unfolding put_row_last Let_def c using Suc.IH by (simp only:)
  qed
qed auto

lemma put_columns_frame:
  assumes "geometry gs" "0 \<le> x" "0 \<le> y" "a \<notin> frame_bytes gs"
  shows "fold (\<lambda>j h. if P j then putPixel gs (x + int j) y r g b h else h) [0..<n] h a = h a"
  by (induction n) (use assms in \<open>auto simp: putPixel_frame\<close>)

text \<open>Bit \<open>7 - j\<close> of a glyph row is the pixel in column \<open>j\<close>.\<close>

definition glyph_bit :: "u8 \<Rightarrow> int \<Rightarrow> int \<Rightarrow> bool" where
  "glyph_bit c j i \<longleftrightarrow> bit (font8x16 (unat c * 16 + nat i)) (7 - nat j)"

lemma row_bit: "j < 8 \<Longrightarrow> (f AND drop_bit j 0x80 \<noteq> 0) = bit (f :: u8) (7 - j)"
proof -
  assume j: "j < 8"
  have "drop_bit j (2 ^ 7) = (2 ^ (7 - j) :: u8)"
    by (rule bit_word_eqI)
      (use j in \<open>auto simp: bit_drop_bit_eq bit_exp_iff simp del: power_numeral\<close>)
  then have "drop_bit j 0x80 = (2 ^ (7 - j) :: u8)" by simp
  then show ?thesis by (simp add: and_exp_eq_0_iff_not_bit)
qed

lemma pixel_put_row:
  assumes "geometry gs" "0 \<le> x" "0 \<le> y" "on_grid gs x' y'"
  shows "pixel gs (put_row gs f x y r g b h) x' y' =
    (if y' = y \<and> x \<le> x' \<and> x' < x + 8 \<and> bit f (7 - nat (x' - x)) \<and> x' < width gs \<and> y' < height gs
     then (r, g, b) else pixel gs h x' y')"
proof -
  have "(f AND drop_bit (nat (x' - x)) 0x80 \<noteq> 0) = bit f (7 - nat (x' - x))"
    if "x \<le> x'" "x' < x + 8"
    using that by (intro row_bit) linarith
  then have "(y' = y \<and> x \<le> x' \<and> x' < x + int 8 \<and> f AND drop_bit (nat (x' - x)) 0x80 \<noteq> 0 \<and> x' < width gs \<and> y' < height gs) =
    (y' = y \<and> x \<le> x' \<and> x' < x + 8 \<and> bit f (7 - nat (x' - x)) \<and> x' < width gs \<and> y' < height gs)"
    by auto
  then show ?thesis unfolding put_row_def pixel_put_columns [OF assms] by presburger
qed

lemma pixel_put_rows:
  assumes g: "geometry gs" and p: "0 \<le> x" "0 \<le> y" and q: "on_grid gs x' y'"
  shows "pixel gs (fold (\<lambda>i. put_row gs (F i) x (y + int i) r g b) [0..<n] h) x' y' =
    (if y \<le> y' \<and> y' < y + int n \<and> x \<le> x' \<and> x' < x + 8 \<and> bit (F (nat (y' - y))) (7 - nat (x' - x)) \<and>
        x' < width gs \<and> y' < height gs
     then (r, g, b) else pixel gs h x' y')"
proof (induction n)
  case (Suc n)
  have n: "0 \<le> y + int n" using p by simp
  show ?case
  proof (cases "y' = y + int n")
    case True
    note q' = q [unfolded True]
    show ?thesis using p Suc.IH unfolding True by (auto simp: pixel_put_row [OF g p(1) n q'])
  next
    case False
    then have c: "(y \<le> y' \<and> y' < y + int (Suc n) \<and> R) = (y \<le> y' \<and> y' < y + int n \<and> R)" for R
      by auto
    have "pixel gs (put_row gs f x (y + int n) r g b h1) x' y' = pixel gs h1 x' y'" for h1 f
      using False by (simp add: pixel_put_row [OF g p(1) n q])
    then show ?thesis unfolding c using Suc.IH by simp
  qed
qed auto

lemma put_row_frame:
  assumes "geometry gs" "0 \<le> x" "0 \<le> y" "a \<notin> frame_bytes gs"
  shows "put_row gs f x y r g b h a = h a"
  unfolding put_row_def using put_columns_frame [OF assms] .

lemma put_rows_frame:
  assumes "geometry gs" "0 \<le> x" "0 \<le> y" "a \<notin> frame_bytes gs"
  shows "fold (\<lambda>i. put_row gs (F i) x (y + int i) r g b) [0..<n] h a = h a"
  by (induction n) (use assms in \<open>auto simp: put_row_frame\<close>)

text \<open>
  C26: Drawing a character sets exactly the pixels of its glyph that are on the visible screen, in
  the given colour and the byte order of the mode; every other pixel, and every byte outside the
  frame buffer, keeps its value.
\<close>
theorem put_char_draws:
  assumes "geometry gs" and "0 \<le> x" and "0 \<le> y"
  shows "(\<forall>x' y'. on_grid gs x' y' \<longrightarrow>
      pixel gs (put_char gs c x y r g b h) x' y' =
        (if y \<le> y' \<and> y' < y + 16 \<and> x \<le> x' \<and> x' < x + 8 \<and> glyph_bit c (x' - x) (y' - y) \<and>
            x' < width gs
         then (r, g, b) else pixel gs h x' y')) \<and>
    (\<forall>a. a \<notin> frame_bytes gs \<longrightarrow> put_char gs c x y r g b h a = h a)"
proof (intro conjI allI impI)
  fix x' y'
  assume q: "on_grid gs x' y'"
  then have "y' < height gs" by (simp add: on_grid_def)
  then show "pixel gs (put_char gs c x y r g b h) x' y' =
        (if y \<le> y' \<and> y' < y + 16 \<and> x \<le> x' \<and> x' < x + 8 \<and> glyph_bit c (x' - x) (y' - y) \<and>
            x' < width gs
         then (r, g, b) else pixel gs h x' y')"
    unfolding put_char_def pixel_put_rows [OF assms q, of "\<lambda>i. font8x16 (unat c * 16 + i)"] glyph_bit_def
    by simp
next
  fix a
  assume "a \<notin> frame_bytes gs"
  then show "put_char gs c x y r g b h a = h a"
    unfolding put_char_def using put_rows_frame [OF assms] by simp
qed

definition demo_gop :: gop_state where
  "demo_gop = \<lparr>width = 800, height = 600, pixels_per_scanline = 800,
     frame_buffer = P2V 0x80000000, putPixel_ptr = BGR\<rparr>"

text \<open>The letter A at (8, 16): the top of its left stroke is set, its top left corner is not.\<close>

theorem put_char_draws_witness:
  "pixel demo_gop (put_char demo_gop 0x41 8 16 0xff 0xff 0xff (\<lambda>_. 0)) 11 18 = (0xff, 0xff, 0xff) \<and>
   pixel demo_gop (put_char demo_gop 0x41 8 16 0xff 0xff 0xff (\<lambda>_. 0)) 8 16 = (0, 0, 0) \<and>
   put_char demo_gop 0x41 8 16 0xff 0xff 0xff (\<lambda>_. 7) (P2V 0x1000) = 7"
proof -
  have geo: "geometry demo_gop" by (simp add: geometry_def demo_gop_def)
  have on: "on_grid demo_gop 11 18" "on_grid demo_gop 8 16" by (simp_all add: on_grid_def demo_gop_def)
  have w: "width demo_gop = 800" by (simp add: demo_gop_def)
  have bits: "glyph_bit 0x41 3 2" "\<not> glyph_bit 0x41 0 0"
    by (simp_all add: glyph_bit_def font_low glyph_A glyph_row_def bit_0)
  have p0: "pixel demo_gop (\<lambda>_. 0) 8 16 = (0, 0, 0)"
    by (simp add: pixel_def demo_gop_def)
  have out: "P2V 0x1000 \<notin> frame_bytes demo_gop"
  proof
    assume "P2V 0x1000 \<in> frame_bytes demo_gop"
    then obtain z where z: "0 \<le> z" "z < 1920000"
      and e: "P2V 0x1000 = P2V 0x80000000 + word_of_int z"
      by (auto simp: frame_bytes_def demo_gop_def)
    have "(word_of_int 0x1000 :: 64 word) = word_of_int (0x80000000 + z)"
      using e by (simp add: P2V_def)
    from word_of_int_inj [OF this] z show False by simp
  qed
  from put_char_draws [OF geo, of 8 16 "0x41" "0xff" "0xff" "0xff" "\<lambda>_. 0"]
    put_char_draws [OF geo, of 8 16 "0x41" "0xff" "0xff" "0xff" "\<lambda>_. 7"]
  show ?thesis using on w bits p0 out by simp
qed

text \<open>\<open>clear_screen\<close> paints every visible pixel black.\<close>

lemma pixel_clear_row:
  assumes g: "geometry gs" and y: "0 \<le> y" and q: "on_grid gs x' y'"
  shows "pixel gs (fold (\<lambda>j. putPixel gs (int j) y 0 0 0) [0..<n] h) x' y' =
    (if y' = y \<and> x' < int n \<and> x' < width gs then (0, 0, 0) else pixel gs h x' y')"
proof -
  have "0 \<le> x'" "y' < height gs" using q by (auto simp: on_grid_def)
  then show ?thesis
    using pixel_put_columns [OF g order_refl y q, of "\<lambda>_. True" 0 0 0 n h] by simp
qed

lemma pixel_clear_rows:
  assumes g: "geometry gs" and q: "on_grid gs x' y'"
  shows "pixel gs (fold (\<lambda>i. fold (\<lambda>j. putPixel gs (int j) (int i) 0 0 0) [0..<n]) [0..<m] h) x' y' =
    (if y' < int m \<and> x' < int n \<and> x' < width gs then (0, 0, 0) else pixel gs h x' y')"
proof (induction m)
  case 0
  show ?case using q by (simp add: on_grid_def)
next
  case (Suc m)
  then show ?case by (auto simp: pixel_clear_row [OF g of_nat_0_le_iff q])
qed

text \<open>
  After \<open>init_gop\<close> on a mode of the two supported formats the kernel draws with the
  resolution, scan line and address of the firmware, and every visible pixel is black.
\<close>
theorem init_gop_clears:
  assumes "init_gop info h = (gs, h')"
    and "PixelFormat info = 0 \<or> PixelFormat info = 1"
    and "HorizontalResolution info \<le> PixelsPerScanLine info" and "PixelsPerScanLine info < 0x8000"
    and "VerticalResolution info < 0x8000"
    and "0 \<le> x" and "x < sint (HorizontalResolution info)"
    and "0 \<le> y" and "y < sint (VerticalResolution info)"
  shows "geometry gs \<and> pixel gs h' x y = (0, 0, 0) \<and>
    width gs = int (unat (HorizontalResolution info)) \<and> height gs = int (unat (VerticalResolution info)) \<and>
    pixel_addr gs x y 0 =
      P2V (FrameBufferBase info + 4 * (word_of_int y * ucast (PixelsPerScanLine info) + word_of_int x))"
proof -
  have small: "sint v = int (unat v) \<and> unat v < 0x8000" if "v < 0x8000" for v :: u32
  proof -
    have "unat v < 0x8000" using that by (simp add: word_less_nat_alt)
    moreover have "uint v < 0x8000" "0 \<le> uint v" using that by (simp_all add: word_less_def)
    then have "- 2147483648 \<le> uint v" "uint v < 2147483648" by linarith+
    then have "sint v = int (unat v)"
      by (simp add: sint_uint signed_take_bit_int_eq_self_iff)
    ultimately show ?thesis by simp
  qed
  let ?W = "unat (HorizontalResolution info)" and ?P = "unat (PixelsPerScanLine info)"
    and ?H = "unat (VerticalResolution info)"
  have "HorizontalResolution info < 0x8000" using assms(3,4) by (rule order_le_less_trans)
  then have W: "sint (HorizontalResolution info) = int ?W" using small by blast
  have P: "sint (PixelsPerScanLine info) = int ?P" "?P < 0x8000" using small assms(4) by blast+
  have H: "sint (VerticalResolution info) = int ?H" "?H < 0x8000" using small assms(5) by blast+
  have WP: "?W \<le> ?P" using assms(3) by (simp add: word_le_nat_alt)
  have gs: "gs = \<lparr>width = int ?W, height = int ?H, pixels_per_scanline = int ?P,
      frame_buffer = P2V (FrameBufferBase info),
      putPixel_ptr = (if PixelFormat info = 1 then BGR else RGB)\<rparr>"
    and h': "h' = clear_screen gs h"
    using assms(1) W P H by (auto simp: init_gop_def Let_def)
  have "?P * ?H \<le> 0x8000 * 0x8000" using P H by (intro mult_le_mono) simp_all
  then have "int (?P * ?H) \<le> int (0x8000 * 0x8000)" by (rule of_nat_mono)
  then have "4 * (int ?P * int ?H) \<le> 2 ^ 64" by simp
  with of_nat_mono [OF WP, where 'a = int] have g: "geometry gs" by (simp add: geometry_def gs)
  have "0 \<le> x" "x < int ?W" "0 \<le> y" "y < int ?H" using assms(6-9) W H by simp_all
  with of_nat_mono [OF WP, where 'a = int] have q: "on_grid gs x y"
    unfolding on_grid_def gs by (simp only: gop_state.simps) (intro conjI; (rule TrueI | linarith))
  have "pixel gs h' x y = (0, 0, 0)"
    unfolding h' clear_screen_def pixel_clear_rows [OF g q] using assms(6-9) W H by (simp add: gs)
  moreover have "pixel_addr gs x y 0 =
      P2V (FrameBufferBase info + 4 * (word_of_int y * ucast (PixelsPerScanLine info) + word_of_int x))"
    by (simp add: pixel_addr_def gs P2V_def algebra_simps of_nat_unat flip: of_nat_mult)
  ultimately show ?thesis using g gs by simp
qed

definition demo_mode :: gop_mode where
  "demo_mode = \<lparr>HorizontalResolution = 800, VerticalResolution = 600, PixelFormat = 1,
     PixelsPerScanLine = 832, FrameBufferBase = 0x80000000\<rparr>"

theorem init_gop_clears_witness:
  "pixel (fst (init_gop demo_mode (\<lambda>_. 7))) (snd (init_gop demo_mode (\<lambda>_. 7))) 799 599 = (0, 0, 0)"
  using init_gop_clears [of demo_mode "\<lambda>_. 7" "fst (init_gop demo_mode (\<lambda>_. 7))"
      "snd (init_gop demo_mode (\<lambda>_. 7))" 799 599]
  by (simp add: demo_mode_def)

subsection \<open>Scrolling\<close>

text \<open>
  The loops of \<open>scroll_screen\<close> on byte offsets into the frame buffer, for a scan line of
  \<open>P\<close> pixels.
\<close>

definition at_off :: "gop_state \<Rightarrow> nat \<Rightarrow> addr" where
  "at_off gs k = frame_buffer gs + word_of_nat k"

lemma at_off_inj: "at_off gs a = at_off gs b \<Longrightarrow> a < 2 ^ 64 \<Longrightarrow> b < 2 ^ 64 \<Longrightarrow> a = b"
proof -
  assume "at_off gs a = at_off gs b" and b: "a < 2 ^ 64" "b < 2 ^ 64"
  then have "(word_of_nat a :: 64 word) = word_of_nat b" by (simp add: at_off_def)
  then have "unat (word_of_nat a :: 64 word) = unat (word_of_nat b :: 64 word)" by simp
  with b show ?thesis by (simp add: unat_of_nat)
qed

lemma at_off_bytes:
  assumes "k < 2 ^ 64" "s + n \<le> 2 ^ 64"
  shows "at_off gs k \<in> bytes_at (at_off gs s) n \<longleftrightarrow> s \<le> k \<and> k < s + n"
proof
  assume "at_off gs k \<in> bytes_at (at_off gs s) n"
  then obtain i where i: "i < n" and "at_off gs k = at_off gs (s + i)"
    by (auto simp: bytes_at_def at_off_def algebra_simps)
  with assms have "k = s + i" by (intro at_off_inj) auto
  with i show "s \<le> k \<and> k < s + n" by simp
next
  assume k: "s \<le> k \<and> k < s + n"
  then have "at_off gs k = at_off gs s + word_of_nat (k - s)" by (simp add: at_off_def algebra_simps)
  moreover have "\<dots> \<in> bytes_at (at_off gs s) n" using k by (intro bytes_at_I) linarith
  ultimately show "at_off gs k \<in> bytes_at (at_off gs s) n" by simp
qed

lemma row_addr_off: "pixels_per_scanline gs = int P \<Longrightarrow> row_addr gs (int i) = at_off gs (4 * P * i)"
  by (simp add: row_addr_def at_off_def algebra_simps)

text \<open>One \<open>memcpy\<close> between separate parts of the frame buffer, at an offset.\<close>

lemma memcpy_off:
  assumes "d + unat n \<le> s" and "s + unat n \<le> 2 ^ 64" and "k < 2 ^ 64"
  shows "memcpy (at_off gs d) (at_off gs s) n h (at_off gs k) =
    (if d \<le> k \<and> k < d + unat n then h (at_off gs (s + (k - d))) else h (at_off gs k))"
proof (cases "d \<le> k \<and> k < d + unat n")
  case True
  have dis: "bytes_at (at_off gs d) (unat n) \<inter> bytes_at (at_off gs s) (unat n) = {}"
  proof -
    have False if x: "x \<in> bytes_at (at_off gs d) (unat n)" "x \<in> bytes_at (at_off gs s) (unat n)" for x
    proof -
      from x(1) obtain i where i: "i < unat n" "x = at_off gs (d + i)"
        by (auto simp: bytes_at_def at_off_def algebra_simps)
      with x(2) have "s \<le> d + i" using assms by (subst (asm) i(2), subst (asm) at_off_bytes) auto
      with i assms show False by simp
    qed
    then show ?thesis by blast
  qed
  have "at_off gs k = at_off gs d + word_of_nat (k - d)"
    and "at_off gs (s + (k - d)) = at_off gs s + word_of_nat (k - d)"
    using True by (simp_all add: at_off_def)
  moreover have "k - d < unat n" using True by linarith
  ultimately show ?thesis using True memcpy_at [OF dis, of "k - d" h] by simp
next
  case False
  moreover have "at_off gs k \<notin> bytes_at (at_off gs d) (unat n)"
    using False assms by (subst at_off_bytes) auto
  ultimately show ?thesis by (auto simp: memcpy_other)
qed

text \<open>The copying loop moves the first 400 pixels of each row up by 16 rows.\<close>

lemma scroll_copies:
  assumes P: "pixels_per_scanline gs = int P" "400 \<le> P" and b: "4 * P * (n + 16) \<le> 2 ^ 64" and k: "k < 2 ^ 64"
  shows "fold (\<lambda>i. memcpy (row_addr gs (int i)) (row_addr gs (int i + 16)) (400 * 4)) [0..<n] h (at_off gs k) =
    (if k div (4 * P) < n \<and> k mod (4 * P) < 1600 then h (at_off gs (k + 64 * P)) else h (at_off gs k))"
  using b k
proof (induction n arbitrary: k)
  case (Suc n)
  let ?f = "fold (\<lambda>i. memcpy (row_addr gs (int i)) (row_addr gs (int i + 16)) (400 * 4)) [0..<n] h"
  have P0: "0 < 4 * P" using P by simp
  have src: "row_addr gs (int n + 16) = at_off gs (4 * P * (n + 16))"
    using row_addr_off [OF P(1), of "n + 16"] by simp
  have len: "4 * P * (n + 16) + 4 * P \<le> 2 ^ 64" using Suc.prems(1) by (simp add: algebra_simps)
  have u: "unat (400 * 4 :: u32) = 1600" by simp
  have d: "4 * P * n + unat (400 * 4 :: u32) \<le> 4 * P * (n + 16)"
    unfolding u using P by (simp add: distrib_left)
  have s: "4 * P * (n + 16) + unat (400 * 4 :: u32) \<le> 2 ^ 64" unfolding u using len P by linarith
  have row: "(4 * P * n \<le> k \<and> k < 4 * P * n + 1600) = (k div (4 * P) = n \<and> k mod (4 * P) < 1600)"
  proof
    assume k: "4 * P * n \<le> k \<and> k < 4 * P * n + 1600"
    then obtain j where j: "k = 4 * P * n + j" using le_Suc_ex by blast
    with k P have "j < 4 * P" "j < 1600" by linarith+
    then show "k div (4 * P) = n \<and> k mod (4 * P) < 1600"
      unfolding j by (simp add: P0 div_mult_self4)
  next
    assume "k div (4 * P) = n \<and> k mod (4 * P) < 1600"
    moreover have "4 * P * (k div (4 * P)) + k mod (4 * P) = k" by (rule mult_div_mod_eq)
    ultimately show "4 * P * n \<le> k \<and> k < 4 * P * n + 1600" by auto
  qed
  have ih: "?f (at_off gs j) = (if j div (4 * P) < n \<and> j mod (4 * P) < 1600 then h (at_off gs (j + 64 * P)) else h (at_off gs j))"
    if "j < 2 ^ 64" for j
    using that Suc.prems(1) by (intro Suc.IH) (simp_all add: algebra_simps)
  have step: "fold (\<lambda>i. memcpy (row_addr gs (int i)) (row_addr gs (int i + 16)) (400 * 4)) [0..<Suc n] h (at_off gs k) =
    (if 4 * P * n \<le> k \<and> k < 4 * P * n + 1600 then ?f (at_off gs (4 * P * (n + 16) + (k - 4 * P * n))) else ?f (at_off gs k))"
    using memcpy_off [OF d s Suc.prems(2), where h = ?f] by (simp add: src row_addr_off [OF P(1)])
  show ?case
  proof (cases "4 * P * n \<le> k \<and> k < 4 * P * n + 1600")
    case True
    have j: "4 * P * (n + 16) + (k - 4 * P * n) = k + 64 * P" using True by (simp add: algebra_simps)
    have "k + 64 * P < 2 ^ 64" using True len P by (simp add: algebra_simps)
    moreover have "\<not> (k + 64 * P) div (4 * P) < n"
    proof -
      have "(k + 64 * P) div (4 * P) = k div (4 * P) + 16"
        using P0 div_mult_self3 [of "4 * P" 16 k] by (simp add: algebra_simps)
      then show ?thesis using True row by simp
    qed
    ultimately have "?f (at_off gs (4 * P * (n + 16) + (k - 4 * P * n))) = h (at_off gs (k + 64 * P))"
      unfolding j by (simp only: ih if_False simp_thms)
    then show ?thesis using True row unfolding step by auto
  next
    case False
    then have "\<not> (k div (4 * P) = n \<and> k mod (4 * P) < 1600)" using row by blast
    then show ?thesis using False Suc.prems(2) unfolding step ih [OF Suc.prems(2)] by (auto simp: less_Suc_eq)
  qed
qed simp

text \<open>The clearing loop, from row \<open>H\<close> upwards.\<close>

lemma scroll_clears:
  assumes P: "pixels_per_scanline gs = int P" "height gs = int H" and "m \<le> Suc H"
    and "4 * P * H + 25600 \<le> 2 ^ 64" and "k < 2 ^ 64"
  shows "fold (\<lambda>i. memset (frame_buffer gs + word_of_int (pixels_per_scanline gs * (height gs - int i) * 4))
      0 (400 * 16 * 4)) [0..<m] h (at_off gs k) =
    (if \<exists>i<m. 4 * P * (H - i) \<le> k \<and> k < 4 * P * (H - i) + 25600 then 0 else h (at_off gs k))"
  (is "fold ?F _ _ _ = _")
  using assms(3)
proof (induction m)
  case (Suc m)
  have e: "pixels_per_scanline gs * (height gs - int m) * 4 = int (4 * P * (H - m))"
    using Suc.prems P by (simp add: of_nat_diff algebra_simps)
  have a: "frame_buffer gs + word_of_int (pixels_per_scanline gs * (height gs - int m) * 4) = at_off gs (4 * P * (H - m))"
    unfolding e at_off_def by simp
  have "4 * P * (H - m) \<le> 4 * P * H" by simp
  then have "at_off gs k \<in> bytes_at (at_off gs (4 * P * (H - m))) 25600 \<longleftrightarrow>
      4 * P * (H - m) \<le> k \<and> k < 4 * P * (H - m) + 25600"
    using assms(4,5) by (intro at_off_bytes) linarith+
  moreover have "fold ?F [0..<Suc m] h (at_off gs k) =
    (if at_off gs k \<in> bytes_at (at_off gs (4 * P * (H - m))) 25600 then 0 else fold ?F [0..<m] h (at_off gs k))"
    using memset_apply [of "at_off gs (4 * P * (H - m))" 0 "400 * 16 * 4" "fold ?F [0..<m] h" "at_off gs k"]
    by (simp flip: a)
  ultimately show ?case using Suc.IH Suc.prems by (auto simp: less_Suc_eq)
qed simp

text \<open>
  C33: What \<open>scroll_screen\<close> does to every byte, for scan lines of 400 to 6400 pixels: rows 0 to
  height - 17 receive the first 1600 bytes (400 pixels) of the row 16 below and keep the rest,
  row height - 16 keeps its old contents, rows height - 15 to height - 1 are cleared, and so are the
  25600 bytes that follow the frame buffer.
\<close>
theorem scroll_screen_effect:
  assumes P: "pixels_per_scanline gs = int P" "400 \<le> P" "P \<le> 6400"
    and H: "height gs = int H" "16 \<le> H" and b: "4 * P * H + 25600 \<le> 2 ^ 64" and k: "k < 2 ^ 64"
  shows "scroll_screen gs h (at_off gs k) =
    (if 4 * P * (H - 15) \<le> k \<and> k < 4 * P * H + 25600 then 0
     else if k div (4 * P) < H - 16 \<and> k mod (4 * P) < 1600 then h (at_off gs (k + 64 * P))
     else h (at_off gs k))"
proof -
  have n: "nat (height gs - 16) = H - 16" using H by simp
  have "H - 16 + 16 = H" using H by simp
  then have b1: "4 * P * (H - 16 + 16) \<le> 2 ^ 64" using b by (simp only:)
  have "(\<exists>i<16. 4 * P * (H - i) \<le> k \<and> k < 4 * P * (H - i) + 25600) \<longleftrightarrow>
      4 * P * (H - 15) \<le> k \<and> k < 4 * P * H + 25600"
  proof
    assume "\<exists>i<16. 4 * P * (H - i) \<le> k \<and> k < 4 * P * (H - i) + 25600"
    then obtain i where i: "i < 16" "4 * P * (H - i) \<le> k" "k < 4 * P * (H - i) + 25600" by blast
    have "4 * P * (H - 15) \<le> 4 * P * (H - i)" "4 * P * (H - i) \<le> 4 * P * H"
      using i(1) by (auto intro!: mult_le_mono2)
    with i show "4 * P * (H - 15) \<le> k \<and> k < 4 * P * H + 25600" by linarith
  next
    assume r: "4 * P * (H - 15) \<le> k \<and> k < 4 * P * H + 25600"
    let ?q = "min (k div (4 * P)) H"
    have P0: "0 < 4 * P" using P by simp
    have "k < 4 * P * Suc (k div (4 * P))" using P0 by (metis dividend_less_times_div mult_Suc_right add.commute)
    then have up: "k < 4 * P * (k div (4 * P)) + 25600" using P by simp
    have lo: "4 * P * (k div (4 * P)) \<le> k" by (rule times_div_less_eq_dividend)
    have "H - 15 \<le> k div (4 * P)"
      using r P0 by (simp add: less_eq_div_iff_mult_less_eq mult.commute)
    then have q: "H - ?q < 16" "H - (H - ?q) = ?q" using H by simp_all
    have "4 * P * ?q \<le> k" using lo r by (metis min.cobounded1 mult_le_mono2 order_trans)
    moreover have "k < 4 * P * ?q + 25600" using up r by (auto simp: min_def)
    ultimately show "\<exists>i<16. 4 * P * (H - i) \<le> k \<and> k < 4 * P * (H - i) + 25600"
      using q by (intro exI [of _ "H - ?q"]) simp
  qed
  then show ?thesis
    using scroll_clears [OF P(1) H(1) _ b k, of 16] scroll_copies [OF P(1,2) b1 k, of h] H(2)
    unfolding scroll_screen_def Let_def n by simp
qed

text \<open>On 800 x 600: a byte behind the frame buffer is zeroed, the pixel (400, 0) does not move.\<close>

theorem scroll_screen_effect_witness:
  "scroll_screen demo_gop (\<lambda>_. 7) (at_off demo_gop (4 * 800 * 600)) = 0 \<and>
   scroll_screen demo_gop (\<lambda>a. ucast a) (at_off demo_gop 1600) = ucast (at_off demo_gop 1600) \<and>
   scroll_screen demo_gop (\<lambda>a. ucast a) (at_off demo_gop 0) = ucast (at_off demo_gop 51200)"
  using scroll_screen_effect [of demo_gop 800 600 "4 * 800 * 600" "\<lambda>_. 7"]
    scroll_screen_effect [of demo_gop 800 600 1600 "\<lambda>a. ucast a"]
    scroll_screen_effect [of demo_gop 800 600 0 "\<lambda>a. ucast a"]
  by (simp add: demo_gop_def)

end
