(* ===== verification/Format.thy ===== *)
theory Format
  imports Prelude
begin

unbundle bit_operations_syntax

text \<open>
  Formatted output: \<open>vsprintf\<close> of stdlib/vsprintf.c with its helpers \<open>skip_atoi\<close> and \<open>number\<close>,
  \<open>sprintf\<close>, and the character classes of stdlib. A C string is the list of its characters
  before the terminating 0; what is written through \<open>*str++\<close> is the list of characters written.
  Field widths and precisions are C \<open>int\<close>s and modelled as integers.
\<close>

subsection \<open>Character classes\<close>

definition isdigit :: "int \<Rightarrow> bool" where "isdigit c \<longleftrightarrow> 48 \<le> c \<and> c \<le> 57"
definition islower :: "int \<Rightarrow> bool" where "islower c \<longleftrightarrow> 97 \<le> c \<and> c \<le> 122"
definition isupper :: "int \<Rightarrow> bool" where "isupper c \<longleftrightarrow> 65 \<le> c \<and> c \<le> 90"

definition isspace :: "int \<Rightarrow> bool" where
  "isspace c \<longleftrightarrow> c = 32 \<or> c = 12 \<or> c = 10 \<or> c = 13 \<or> c = 9 \<or> c = 11"

definition tolower :: "int \<Rightarrow> int" where "tolower c = (if isupper c then c + 0x20 else c)"
definition toupper :: "int \<Rightarrow> int" where "toupper c = (if islower c then c - 0x20 else c)"

subsection \<open>\<open>skip_atoi\<close> and \<open>number\<close>\<close>

definition is_digit :: "char \<Rightarrow> bool" where
  "is_digit c \<longleftrightarrow> (48 :: nat) \<le> of_char c \<and> of_char c \<le> (57 :: nat)"

fun skip_atoi_from :: "int \<Rightarrow> string \<Rightarrow> int \<times> string" where
  "skip_atoi_from i [] = (i, [])"
| "skip_atoi_from i (c # s) =
     (if is_digit c then skip_atoi_from (i * 10 + of_char c - 48) s else (i, c # s))"

definition skip_atoi :: "string \<Rightarrow> int \<times> string" where "skip_atoi s = skip_atoi_from 0 s"

definition ZEROPAD :: u32 where "ZEROPAD = 1"
definition SIGN :: u32 where "SIGN = 2"
definition PLUS :: u32 where "PLUS = 4"
definition SPACE :: u32 where "SPACE = 8"
definition LEFT :: u32 where "LEFT = 16"
definition SPECIAL :: u32 where "SPECIAL = 32"
definition SMALL :: u32 where "SMALL = 64"

lemmas flag_defs = ZEROPAD_def SIGN_def PLUS_def SPACE_def LEFT_def SPECIAL_def SMALL_def

definition digits_large :: string where "digits_large = ''0123456789ABCDEFGHIJKLMNOPQRSTUVWXYZ''"
definition digits_small :: string where "digits_small = ''0123456789abcdefghijklmnopqrstuvwxyz''"

text \<open>The digits the loop stores in \<open>tmp\<close>, the least significant first.\<close>

function number_tmp :: "string \<Rightarrow> nat \<Rightarrow> nat \<Rightarrow> string" where
  "number_tmp digits base num =
     (if num = 0 \<or> base < 2 then [] else digits ! (num mod base) # number_tmp digits base (num div base))"
  by pat_completeness auto
termination by (relation "measure (\<lambda>(digits, base, num). num)") auto

declare number_tmp.simps [simp del]

text \<open>A loop \<open>while(size-- > 0) *str++ = c\<close>: what it writes and the value it leaves in \<open>size\<close>.\<close>

definition pad :: "char \<Rightarrow> int \<Rightarrow> string \<times> int" where
  "pad c n = (replicate (nat n) c, min n 0 - 1)"

text \<open>
  The comparison \<open>num < 0\<close> is one of an \<open>unsigned long\<close>, so the branch for negative numbers is
  never taken. \<open>None\<close> stands for the result 0 on a base out of range.
\<close>

definition number :: "u64 \<Rightarrow> nat \<Rightarrow> int \<Rightarrow> int \<Rightarrow> u32 \<Rightarrow> string option" where
  "number num base size0 precision type0 =
     (let digits = (if type0 AND SMALL \<noteq> 0 then digits_small else digits_large);
          type = (if type0 AND LEFT \<noteq> 0 then type0 AND NOT ZEROPAD else type0)
      in if base < 2 \<or> 36 < base then None
      else
        let c = (if type AND ZEROPAD \<noteq> 0 then CHR ''0'' else CHR '' '');
            sign = (if type AND PLUS \<noteq> 0 then ''+'' else if type AND SPACE \<noteq> 0 then '' '' else []);
            size1 = (if sign \<noteq> [] then size0 - 1 else size0);
            tmp = (if num = 0 then ''0'' else number_tmp digits base (unat num));
            i = int (length tmp);
            precision1 = (if precision < i then i else precision);
            size2 = size1 - precision1;
            (left, size3) = (if type AND (ZEROPAD + LEFT) = 0 then pad (CHR '' '') size2 else ([], size2));
            special = (if type AND SPECIAL \<noteq> 0
                       then if base = 8 then ''0''
                            else if base = 16 then [CHR ''0'', digits ! 33] else []
                       else []);
            (mid, size4) = (if type AND LEFT = 0 then pad c size3 else ([], size3));
            zeros = replicate (nat (precision1 - i)) (CHR ''0'');
            (right, size5) = pad (CHR '' '') size4
        in Some (left @ sign @ special @ mid @ zeros @ rev tmp @ right))"

subsection \<open>\<open>vsprintf\<close>\<close>

text \<open>
  The arguments behind the \<open>va_list\<close>: machine words, and pointers to strings. Reading an
  argument that was not passed, or one of the other kind, is undefined in C: \<open>None\<close>.
\<close>

datatype arg = Num u64 | Str string

text \<open>The flags after a percent sign (the loop \<open>repeat\<close>).\<close>

fun parse_flags :: "u32 \<Rightarrow> string \<Rightarrow> u32 \<times> string" where
  "parse_flags flags [] = (flags, [])"
| "parse_flags flags (c # fmt) =
     (if c = CHR ''-'' then parse_flags (flags OR LEFT) fmt
      else if c = CHR ''+'' then parse_flags (flags OR PLUS) fmt
      else if c = CHR '' '' then parse_flags (flags OR SPACE) fmt
      else if c = CHR ''#'' then parse_flags (flags OR SPECIAL) fmt
      else if c = CHR ''0'' then parse_flags (flags OR ZEROPAD) fmt
      else (flags, c # fmt))"

text \<open>\<open>*fmt\<close>, which is 0 at the end of the format.\<close>

definition peek :: "string \<Rightarrow> char" where
  "peek fmt = (case fmt of [] \<Rightarrow> CHR 0x00 | c # _ \<Rightarrow> c)"

definition int_arg :: "u64 \<Rightarrow> int" where "int_arg v = sint (ucast v :: u32)"

text \<open>
  The field width; an asterisk takes it from the arguments but is not skipped, as in the code.
\<close>

definition parse_width :: "u32 \<Rightarrow> string \<Rightarrow> arg list \<Rightarrow> (int \<times> u32 \<times> string \<times> arg list) option" where
  "parse_width flags fmt args =
     (if is_digit (peek fmt) then (case skip_atoi fmt of (w, fmt') \<Rightarrow> Some (w, flags, fmt', args))
      else if peek fmt = CHR ''*'' then
        (case args of
           Num v # args' \<Rightarrow>
             if int_arg v < 0 then Some (- int_arg v, flags OR LEFT, fmt, args')
             else Some (int_arg v, flags, fmt, args')
         | _ \<Rightarrow> None)
      else Some (-1, flags, fmt, args))"

definition parse_precision :: "string \<Rightarrow> arg list \<Rightarrow> (int \<times> string \<times> arg list) option" where
  "parse_precision fmt args =
     (if peek fmt = CHR ''.'' then
        (let fmt1 = tl fmt in
         if is_digit (peek fmt1)
         then (case skip_atoi fmt1 of (p, fmt') \<Rightarrow> Some (if p < 0 then 0 else p, fmt', args))
         else if peek fmt1 = CHR ''*'' then
           (case args of
              Num v # args' \<Rightarrow> Some (if int_arg v < 0 then 0 else int_arg v, fmt1, args')
            | _ \<Rightarrow> None)
         else Some (0, fmt1, args))
      else Some (-1, fmt, args))"

text \<open>The two loops \<open>while(len < field_width--)\<close> around the text of a string argument.\<close>

definition put_str :: "u32 \<Rightarrow> int \<Rightarrow> int \<Rightarrow> string \<Rightarrow> string" where
  "put_str flags field_width precision s =
     (let len0 = int (length s);
          len = (if precision < 0 then len0 else min len0 precision);
          (left, fw) = (if flags AND LEFT = 0 then pad (CHR '' '') (field_width - len)
                        else ([], field_width - len));
          (right, _) = pad (CHR '' '') fw
      in left @ take (nat len) s @ right)"

definition conversion ::
  "u32 \<Rightarrow> int \<Rightarrow> int \<Rightarrow> string \<Rightarrow> arg list \<Rightarrow> (string \<times> string \<times> arg list) option" where
  "conversion flags field_width precision fmt args =
     (let c = peek fmt in
      if c = CHR ''s'' then
        (case args of Str s # args' \<Rightarrow> Some (put_str flags field_width precision s, tl fmt, args')
         | _ \<Rightarrow> None)
      else if c = CHR ''x'' \<or> c = CHR ''X'' then
        (case args of
           Num v # args' \<Rightarrow>
             map_option (\<lambda>out. (out, tl fmt, args'))
               (number v 16 field_width precision (if c = CHR ''x'' then flags OR SMALL else flags))
         | _ \<Rightarrow> None)
      else if c = CHR ''d'' \<or> c = CHR ''i'' \<or> c = CHR ''u'' then
        (case args of
           Num v # args' \<Rightarrow>
             map_option (\<lambda>out. (out, tl fmt, args'))
               (number v 10 field_width precision (if c = CHR ''u'' then flags else flags OR SIGN))
         | _ \<Rightarrow> None)
      else Some ((if c = CHR ''%'' then [] else ''%'') @ (if fmt = [] then [] else [c]), tl fmt, args))"

lemma parse_flags_length: "parse_flags flags fmt = (f, fmt') \<Longrightarrow> length fmt' \<le> length fmt"
  by (induction flags fmt rule: parse_flags.induct) (auto split: if_splits)

lemma skip_atoi_length: "skip_atoi_from i s = (v, s') \<Longrightarrow> length s' \<le> length s"
  by (induction i s rule: skip_atoi_from.induct) (auto split: if_splits)

lemma parse_width_length: "parse_width flags fmt args = Some (w, f, fmt', args') \<Longrightarrow> length fmt' \<le> length fmt"
  by (auto simp: parse_width_def skip_atoi_def dest: skip_atoi_length
      split: if_splits prod.splits list.splits arg.splits)

lemma parse_precision_length: "parse_precision fmt args = Some (p, fmt', args') \<Longrightarrow> length fmt' \<le> length fmt"
  by (fastforce simp: parse_precision_def skip_atoi_def Let_def dest: skip_atoi_length
      split: if_splits prod.splits list.splits arg.splits)

lemma conversion_length: "conversion flags w p fmt args = Some (out, fmt', args') \<Longrightarrow> length fmt' \<le> length fmt"
  by (auto simp: conversion_def Let_def split: if_splits list.splits arg.splits)

text \<open>\<open>h\<close>, \<open>l\<close> and \<open>L\<close> are skipped.\<close>

definition skip_qualifier :: "string \<Rightarrow> string" where
  "skip_qualifier fmt = (if peek fmt = CHR ''h'' \<or> peek fmt = CHR ''l'' \<or> peek fmt = CHR ''L''
     then tl fmt else fmt)"

lemma skip_qualifier_length: "length (skip_qualifier fmt) \<le> length fmt"
  by (simp add: skip_qualifier_def)

text \<open>One directive, behind its percent sign.\<close>

definition directive :: "string \<Rightarrow> arg list \<Rightarrow> (string \<times> string \<times> arg list) option" where
  "directive fmt args =
     (let (flags, fmt1) = parse_flags 0 fmt in
      case parse_width flags fmt1 args of
        None \<Rightarrow> None
      | Some (field_width, flags1, fmt2, args1) \<Rightarrow>
          (case parse_precision fmt2 args1 of
             None \<Rightarrow> None
           | Some (precision, fmt3, args2) \<Rightarrow>
               conversion flags1 field_width precision (skip_qualifier fmt3) args2))"

lemma directive_length:
  assumes "directive fmt args = Some (out, fmt', args')"
  shows "length fmt' \<le> length fmt"
proof -
  obtain flags fmt1 where f: "parse_flags 0 fmt = (flags, fmt1)" by force
  with assms obtain w f1 fmt2 a1 where w: "parse_width flags fmt1 args = Some (w, f1, fmt2, a1)"
    by (auto simp: directive_def split: option.splits)
  with assms f obtain p fmt3 a2 where p: "parse_precision fmt2 a1 = Some (p, fmt3, a2)"
    by (auto simp: directive_def split: option.splits)
  from assms f w p have c: "conversion f1 w p (skip_qualifier fmt3) a2 = Some (out, fmt', args')"
    by (simp add: directive_def)
  note parse_flags_length [OF f] parse_width_length [OF w] parse_precision_length [OF p]
    skip_qualifier_length [of fmt3] conversion_length [OF c]
  then show ?thesis by linarith
qed

function vsprintf_from :: "string \<Rightarrow> arg list \<Rightarrow> string option" where
  "vsprintf_from [] args = Some []"
| "vsprintf_from (c # fmt) args =
     (if c \<noteq> CHR ''%'' then map_option ((#) c) (vsprintf_from fmt args)
      else case directive fmt args of
             None \<Rightarrow> None
           | Some (out, fmt', args') \<Rightarrow> map_option ((@) out) (vsprintf_from fmt' args'))"
  by pat_completeness auto
termination
  by (relation "measure (\<lambda>(fmt, args). length fmt)")
    (auto dest!: directive_length simp: less_Suc_eq_le)

text \<open>The characters written before the final 0, and the returned length.\<close>

definition vsprintf :: "string \<Rightarrow> arg list \<Rightarrow> (string \<times> int) option" where
  "vsprintf fmt args = map_option (\<lambda>out. (out, int (length out))) (vsprintf_from fmt args)"

definition sprintf :: "string \<Rightarrow> arg list \<Rightarrow> (string \<times> int) option" where
  "sprintf fmt args = vsprintf fmt args"


subsection \<open>Digits\<close>

text \<open>Reading a number back: the value of a digit character, and of a numeral.\<close>

definition digit_value :: "char \<Rightarrow> nat" where
  "digit_value c =
     (let k = of_char c in
      if 48 \<le> k \<and> k \<le> 57 then k - 48 else if 65 \<le> k \<and> k \<le> 90 then k - 55
      else if 97 \<le> k \<and> k \<le> 122 then k - 87 else 0)"

definition numeral_value :: "nat \<Rightarrow> string \<Rightarrow> nat" where
  "numeral_value base s = foldl (\<lambda>n c. n * base + digit_value c) 0 s"

lemma numeral_value_simps [simp]:
  "numeral_value base [] = 0" "numeral_value base (s @ [c]) = numeral_value base s * base + digit_value c"
  by (simp_all add: numeral_value_def)

lemma numeral_value_zeros: "numeral_value base (replicate k CHR ''0'' @ s) = numeral_value base s"
proof -
  have "foldl (\<lambda>n c. n * base + digit_value c) 0 (replicate k CHR ''0'') = 0"
    by (induction k) (simp_all add: digit_value_def)
  then show ?thesis by (simp add: numeral_value_def)
qed

lemma digits_values:
  "map digit_value digits_large = [0..<36]" "map digit_value digits_small = [0..<36]"
  by (simp_all add: digits_large_def digits_small_def digit_value_def upt_rec)

lemma digit_value_digits:
  "\<forall>k < 36. digit_value (digits_large ! k) = k" "\<forall>k < 36. digit_value (digits_small ! k) = k"
proof -
  have l: "length digits_large = 36" "length digits_small = 36"
    by (simp_all add: digits_large_def digits_small_def)
  show "\<forall>k < 36. digit_value (digits_large ! k) = k" "\<forall>k < 36. digit_value (digits_small ! k) = k"
    using l digits_values by (metis add_0 nth_map nth_upt)+
qed

text \<open>The digits in \<open>tmp\<close>, reversed, are a numeral of the number, of the expected length.\<close>

lemma number_tmp_value:
  assumes "\<forall>k < 36. digit_value (digits ! k) = k" and "2 \<le> base" "base \<le> 36"
  shows "numeral_value base (rev (number_tmp digits base n)) = n"
proof (induction n rule: less_induct)
  case (less n)
  show ?case
  proof (cases "n = 0")
    case True
    then show ?thesis by (simp add: number_tmp.simps)
  next
    case False
    have "n mod base < base" using assms(2) by simp
    with assms(3) have "n mod base < 36" by linarith
    with assms(1) have dv: "digit_value (digits ! (n mod base)) = n mod base" by simp
    have "numeral_value base (rev (number_tmp digits base (n div base))) = n div base"
      using False assms(2) by (intro less) simp
    moreover have "number_tmp digits base n = digits ! (n mod base) # number_tmp digits base (n div base)"
      using False assms(2) by (subst number_tmp.simps) simp
    ultimately show ?thesis by (simp add: dv)
  qed
qed

lemma number_tmp_length:
  "n < base ^ k \<Longrightarrow> 2 \<le> base \<Longrightarrow> length (number_tmp digits base n) \<le> k"
proof (induction k arbitrary: n)
  case 0
  then show ?case by (simp add: number_tmp.simps)
next
  case (Suc k)
  then have "n div base < base ^ k" by (simp add: less_mult_imp_div_less mult.commute)
  with Suc show ?case by (simp add: number_tmp.simps [of digits base n])
qed

lemma number_tmp_nonempty: "n \<noteq> 0 \<Longrightarrow> 2 \<le> base \<Longrightarrow> number_tmp digits base n \<noteq> []"
  by (simp add: number_tmp.simps [of digits base n])

text \<open>The digits of a number as \<open>number\<close> stores them, with its treatment of 0.\<close>

definition digits_of :: "string \<Rightarrow> nat \<Rightarrow> u64 \<Rightarrow> string" where
  "digits_of digits base num = (if num = 0 then ''0'' else rev (number_tmp digits base (unat num)))"

lemma digits_of_value:
  "\<forall>k < 36. digit_value (digits ! k) = k \<Longrightarrow> 2 \<le> base \<Longrightarrow> base \<le> 36 \<Longrightarrow>
   numeral_value base (digits_of digits base num) = unat num"
  by (simp add: digits_of_def number_tmp_value)
    (simp add: numeral_value_def digit_value_def)

lemma digits_of_length:
  assumes "2 \<le> base" and "2 ^ 64 \<le> base ^ k" and "1 \<le> k"
  shows "1 \<le> length (digits_of digits base num) \<and> length (digits_of digits base num) \<le> k"
proof (cases "num = 0")
  case False
  then have "unat num \<noteq> 0" by (simp add: unat_eq_0)
  then have "number_tmp digits base (unat num) \<noteq> []" using assms by (intro number_tmp_nonempty)
  moreover have "unat num < base ^ k" using unat_lt_pow [of num] assms(2) by simp
  then have "length (number_tmp digits base (unat num)) \<le> k" using assms by (intro number_tmp_length)
  ultimately show ?thesis using False by (auto simp: digits_of_def Suc_le_eq)
qed (use assms in \<open>simp add: digits_of_def\<close>)

text \<open>\<open>number\<close> without flags, and with zero padding.\<close>

lemma number_plain:
  assumes "2 \<le> base" "base \<le> 36"
  shows "number v base w (-1) 0 =
     Some (replicate (nat (w - int (length (digits_of digits_large base v)))) CHR '' '' @
           digits_of digits_large base v)"
  using assms
  by (auto simp: number_def flag_defs Let_def pad_def digits_of_def)

lemma number_zeropad:
  assumes "2 \<le> base" "base \<le> 36"
  shows "number v base w (-1) ZEROPAD =
     Some (replicate (nat (w - int (length (digits_of digits_large base v)))) CHR ''0'' @
           digits_of digits_large base v)"
  using assms
  by (auto simp: number_def flag_defs Let_def pad_def digits_of_def)

lemma number_signed: "number v base w p (SIGN OR f) = number v base w p f"
proof -
  have k: "(SIGN OR f) AND b = f AND b" if "SIGN AND b = 0" for b
    using that by (simp add: word_ao_dist)
  have "SIGN AND SMALL = 0" "SIGN AND LEFT = 0" "SIGN AND ZEROPAD = 0" "SIGN AND PLUS = 0"
    "SIGN AND SPACE = 0" "SIGN AND SPECIAL = 0" "SIGN AND (ZEROPAD + LEFT) = 0"
    by (simp_all add: flag_defs)
  moreover have "SIGN AND (NOT ZEROPAD AND b) = 0" if "SIGN AND b = 0" for b
    using that by (metis and.left_commute and_zero_eq)
  ultimately show ?thesis unfolding number_def Let_def
    by (cases "f AND LEFT = 0") (simp_all only: and.assoc k simp_thms if_True if_False)
qed

subsection \<open>Properties\<close>

text \<open>
  C30: \<open>%016X\<close>, the format of every address the kernel prints, writes exactly 16 characters, and
  they are the number in upper case hexadecimal: read back they give the argument.
\<close>

theorem printf_016X:
  "\<exists>s. vsprintf ''%016X'' [Num v] = Some (s, 16) \<and> length s = 16 \<and>
     numeral_value 16 s = unat v \<and> set s \<subseteq> set ''0123456789ABCDEF''"
proof -
  let ?d = "digits_of digits_large 16 v"
  have l: "length ?d \<le> 16" using digits_of_length [of 16 16 digits_large v] by simp
  have val: "numeral_value 16 ?d = unat v"
    using digit_value_digits by (intro digits_of_value) simp_all
  have tmp: "set (number_tmp digits_large 16 n) \<subseteq> set ''0123456789ABCDEF''" for n
  proof (induction n rule: less_induct)
    case (less n)
    have "n mod 16 \<in> {0, 1, 2, 3, 4, 5, 6, 7, 8, 9, 10, 11, 12, 13, 14, 15}" by auto presburger
    then have "digits_large ! (n mod 16) \<in> set ''0123456789ABCDEF''"
      by (auto simp: digits_large_def)
    with less [of "n div 16"] show ?case
      by (subst number_tmp.simps) (simp add: subset_iff)
  qed
  define out where "out = replicate (nat (16 - int (length ?d))) CHR ''0'' @ ?d"
  have "vsprintf ''%016X'' [Num v] = Some (out, int (length out))"
    using number_zeropad [of 16 v 16]
    by (simp add: vsprintf_def directive_def parse_width_def parse_precision_def conversion_def
        skip_qualifier_def skip_atoi_def is_digit_def peek_def out_def flag_defs)
  moreover have "length out = 16" using l by (simp add: out_def)
  moreover have "numeral_value 16 out = unat v" by (simp add: out_def numeral_value_zeros val)
  moreover have "set out \<subseteq> set ''0123456789ABCDEF''"
    using tmp [of "unat v"] by (auto simp: out_def digits_of_def)
  ultimately show ?thesis by auto
qed

lemma vsprintf_text:
  "CHR ''%'' \<notin> set t \<Longrightarrow>
   vsprintf_from (t @ fmt) args = map_option ((@) t) (vsprintf_from fmt args)"
proof (induction t)
  case Nil
  show ?case by (cases "vsprintf_from fmt args") simp_all
next
  case (Cons c t)
  then show ?case by (cases "vsprintf_from fmt args") auto
qed

text \<open>
  \<open>%d\<close> prints every argument as an unsigned number without a sign: the sign test in
  \<open>number\<close> compares an \<open>unsigned long\<close> with 0, so a negative argument comes out as its value modulo
  \<open>2 ^ 64\<close>.
\<close>

theorem printf_d_unsigned:
  "\<exists>s. vsprintf ''%d'' [Num v] = Some (s, int (length s)) \<and> numeral_value 10 s = unat v \<and>
     CHR ''-'' \<notin> set s"
proof -
  let ?d = "digits_of digits_large 10 v"
  have val: "numeral_value 10 ?d = unat v"
    using digit_value_digits by (intro digits_of_value) simp_all
  have l: "1 \<le> length ?d" using digits_of_length [of 10 20 digits_large v] by simp
  have tmp: "CHR ''-'' \<notin> set (number_tmp digits_large 10 n)" for n
  proof (induction n rule: less_induct)
    case (less n)
    have "n mod 10 \<in> {0, 1, 2, 3, 4, 5, 6, 7, 8, 9}" by auto presburger
    then have "digits_large ! (n mod 10) \<noteq> CHR ''-''" by (auto simp: digits_large_def)
    with less [of "n div 10"] show ?case by (subst number_tmp.simps) simp
  qed
  have "number v 10 (-1) (-1) (0 OR SIGN) = Some ?d"
    using number_plain [of 10 v "-1"] number_signed [of v 10 "-1" "-1" 0] l
    by (simp add: or.commute)
  then have "vsprintf ''%d'' [Num v] = Some (?d, int (length ?d))"
    by (simp add: vsprintf_def directive_def parse_width_def parse_precision_def conversion_def
        skip_qualifier_def is_digit_def peek_def)
  moreover have "CHR ''-'' \<notin> set ?d" using tmp [of "unat v"] by (auto simp: digits_of_def)
  ultimately show ?thesis using val by blast
qed

text \<open>
  An asterisk as field width takes its argument but stays in the format, so the conversion
  that follows is lost: \<open>%*d\<close> prints itself.
\<close>

theorem printf_star_width:
  "vsprintf (''%*d'' @ fmt) (Num w # args) =
     map_option (\<lambda>(out, n). (''%*d'' @ out, n + 3)) (vsprintf fmt args)"
proof -
  have "directive (''*d'' @ fmt) (Num w # args) = Some (''%*'', ''d'' @ fmt, args)"
    by (simp add: directive_def parse_width_def parse_precision_def conversion_def Let_def
        skip_qualifier_def is_digit_def peek_def)
  then have "vsprintf_from (''%*d'' @ fmt) (Num w # args) =
      map_option ((@) ''%*d'') (vsprintf_from fmt args)"
    using vsprintf_text [of "''d''" fmt args] by (cases "vsprintf_from fmt args") simp_all
  then show ?thesis
    unfolding vsprintf_def by (cases "vsprintf_from fmt args") simp_all
qed

text \<open>
  C31: \<open>%s\<close> prints its argument cut to the precision and padded with spaces to the width, on the
  left, or on the right with the flag \<open>LEFT\<close>; text without percent signs is copied.
\<close>

theorem printf_text:
  assumes "CHR ''%'' \<notin> set t"
  shows "vsprintf (t @ ''%s'' @ fmt) (Str s # args) =
      map_option (\<lambda>(out, n). (t @ s @ out, int (length t + length s) + n)) (vsprintf fmt args) \<and>
    put_str flags w p s =
      (let text = (if p < 0 then s else take (nat p) s);
           spaces = replicate (nat (w - int (length text))) CHR '' ''
       in if flags AND LEFT = 0 then spaces @ text else text @ spaces)"
proof -
  have a: "put_str flags w p s =
      (let text = (if p < 0 then s else take (nat p) s);
           spaces = replicate (nat (w - int (length text))) CHR '' ''
       in if flags AND LEFT = 0 then spaces @ text else text @ spaces)" for flags w p
    by (auto simp: put_str_def pad_def Let_def min_def nat_le_iff)
  have "directive (''s'' @ fmt) (Str s # args) = Some (put_str 0 (-1) (-1) s, fmt, args)"
    by (simp add: directive_def parse_width_def parse_precision_def conversion_def
        skip_qualifier_def is_digit_def peek_def)
  moreover have "put_str 0 (-1) (-1) s = s" by (simp add: a)
  ultimately have "vsprintf_from (''%s'' @ fmt) (Str s # args) = map_option ((@) s) (vsprintf_from fmt args)"
    by simp
  then show ?thesis
    using a vsprintf_text [OF assms, of "''%s'' @ fmt" "Str s # args"]
    by (cases "vsprintf_from fmt args") (simp_all add: vsprintf_def)
qed

theorem printf_text_witness:
  "vsprintf ''PANIC!: %s!'' [Str ''oom''] = Some (''PANIC!: oom!'', 12)"
  using printf_text [of "''PANIC!: ''" "''!''" "''oom''" "[]" 0 0 0]
  by (simp add: vsprintf_def)

end
