(* ===== verification/Console.thy ===== *)
theory Console
  imports Graphics Format
begin

text \<open>
  The text console (kernel/console.c) and \<open>printk\<close> (kernel/printk.c). The console draws through
  two operations of the graphics layer, which are fields of a record here: the kernel's own
  screen is one value of it, a log of the drawing operations another. A string is the list of
  bytes from the pointer \<open>s\<close> to the end of the memory object it lies in; the result \<open>None\<close> is a
  read behind that end.
\<close>

subsection \<open>The console and its screen\<close>

record 's screen =
  screen_width :: int
  screen_height :: int
  draw :: "u8 \<Rightarrow> int \<Rightarrow> int \<Rightarrow> u8 \<Rightarrow> u8 \<Rightarrow> u8 \<Rightarrow> 's \<Rightarrow> 's"
  scroll :: "'s \<Rightarrow> 's"

definition gop_screen :: "gop_state \<Rightarrow> mem screen" where
  "gop_screen gs = \<lparr>screen_width = width gs, screen_height = height gs,
     draw = put_char gs, scroll = scroll_screen gs\<rparr>"

record console =
  cx :: int
  cy :: int
  tmpx :: int
  tmpy :: int
  red :: u8
  green :: u8
  blue :: u8

definition console_start :: console where
  "console_start = \<lparr>cx = 0, cy = 0, tmpx = - 1, tmpy = - 1, red = 0xff, green = 0xff, blue = 0xff\<rparr>"

definition set_colour :: "u8 \<Rightarrow> u8 \<Rightarrow> u8 \<Rightarrow> console \<Rightarrow> console" where
  "set_colour r g b c = c\<lparr>red := r, green := g, blue := b\<rparr>"

definition draw_at :: "'s screen \<Rightarrow> u8 \<Rightarrow> console \<Rightarrow> 's \<Rightarrow> 's" where
  "draw_at sc ch c = draw sc ch (cx c) (cy c) (red c) (green c) (blue c)"

text \<open>\<open>last_row\<close>: the comparison after each line step, on the row below the last one.\<close>

definition last_row :: "'s screen \<Rightarrow> console \<times> 's \<Rightarrow> console \<times> 's" where
  "last_row sc = (\<lambda>(c, st).
     if cy c = screen_height sc div 16 * 16 then (c\<lparr>cx := 0, cy := cy c - 16\<rparr>, scroll sc st) else (c, st))"

definition printable :: "u8 \<Rightarrow> bool" where
  "printable ch \<longleftrightarrow> ch \<noteq> 0x09 \<and> ch \<noteq> 0x0d \<and> ch \<noteq> 0x0a \<and> ch \<noteq> 0x1b \<and> ch \<noteq> 0x08"

definition put_printable :: "'s screen \<Rightarrow> u8 \<Rightarrow> console \<times> 's \<Rightarrow> console \<times> 's" where
  "put_printable sc ch = (\<lambda>(c, st).
     if cx c \<noteq> screen_width sc \<and> printable ch then
       let st = draw_at sc ch c st; c = c\<lparr>cx := cx c + 8\<rparr>
       in if cx c = screen_width sc div 8 * 8 then last_row sc (c\<lparr>cx := 0, cy := cy c + 16\<rparr>, st) else (c, st)
     else (c, st))"

definition put_tab :: "u8 \<Rightarrow> console \<Rightarrow> console" where
  "put_tab ch c = (if ch = 0x09 then c\<lparr>cx := cx c + (if cx c div 8 mod 2 \<noteq> 0 then 8 else 16)\<rparr> else c)"

definition put_backspace :: "'s screen \<Rightarrow> u8 \<Rightarrow> console \<times> 's \<Rightarrow> console \<times> 's" where
  "put_backspace sc ch = (\<lambda>(c, st).
     if ch = 0x08 \<and> 8 \<le> cx c
     then (c\<lparr>cx := cx c - 8\<rparr>, draw sc 0xdb (cx c - 8) (cy c) 0 0 0 st) else (c, st))"

definition put_newline :: "'s screen \<Rightarrow> u8 \<Rightarrow> console \<times> 's \<Rightarrow> console \<times> 's" where
  "put_newline sc ch = (\<lambda>(c, st).
     if ch = 0x0a then
       let y = (if tmpy c \<noteq> - 1 then tmpy c - 16 else cy c)
       in last_row sc
         (set_colour 0xff 0xff 0xff (c\<lparr>tmpx := - 1, tmpy := - 1, cx := 0, cy := y + 16\<rparr>), st)
     else (c, st))"

text \<open>The part of the loop body before the escape sequences.\<close>

definition put_ground :: "'s screen \<Rightarrow> u8 \<Rightarrow> console \<times> 's \<Rightarrow> console \<times> 's" where
  "put_ground sc ch cst =
     put_newline sc ch (put_backspace sc ch (map_prod (put_tab ch) id (put_printable sc ch cst)))"

subsection \<open>Escape sequences\<close>

definition char_at :: "u8 list \<Rightarrow> nat \<Rightarrow> u8 option" where
  "char_at s i = (if i < length s then Some (s ! i) else None)"

definition cursor_up :: "int \<Rightarrow> console \<Rightarrow> console" where
  "cursor_up num c = c\<lparr>tmpy := (if tmpy c = - 1 then cy c else tmpy c), cy := max 0 (cy c - 16 * num)\<rparr>"

definition cursor_down :: "'s screen \<Rightarrow> int \<Rightarrow> console \<Rightarrow> console" where
  "cursor_down sc num c =
     (let y = cy c + 16 * num; limit = screen_height sc div 16 * 16
      in c\<lparr>tmpy := (if tmpy c = - 1 then cy c else tmpy c), cy := (if limit < y then limit - 16 else y)\<rparr>)"

definition cursor_right :: "'s screen \<Rightarrow> int \<Rightarrow> console \<Rightarrow> console" where
  "cursor_right sc num c =
     (let x = cx c + 8 * num; limit = screen_width sc div 8 * 8
      in c\<lparr>tmpx := (if tmpx c = - 1 then cx c else tmpx c), cx := (if limit < x then limit - 8 else x)\<rparr>)"

definition cursor_left :: "int \<Rightarrow> console \<Rightarrow> console" where
  "cursor_left num c = c\<lparr>tmpx := (if tmpx c = - 1 then cx c else tmpx c), cx := max 0 (cx c - 8 * num)\<rparr>"

definition colour :: "u8 \<Rightarrow> console \<Rightarrow> console" where
  "colour d c =
     (if d = 0x30 then set_colour 0x00 0x00 0x00 c
      else if d = 0x31 then set_colour 0xff 0x00 0x00 c
      else if d = 0x32 then set_colour 0x00 0xff 0x00 c
      else if d = 0x33 then set_colour 0xff 0xff 0x00 c
      else if d = 0x34 then set_colour 0x00 0x00 0xff c
      else if d = 0x35 then set_colour 0xff 0xff 0xff c
      else if d = 0x36 then set_colour 0x00 0xff 0xff c
      else if d = 0x37 then set_colour 0xff 0xff 0xff c
      else c)"

text \<open>
  The branch for \<open>ESC [\<close>: the number of characters the pointer advances and the new console.
  \<open>s[4]\<close> is read only after a 3 that no cursor letter follows.
\<close>

definition escape :: "'s screen \<Rightarrow> u8 list \<Rightarrow> console \<Rightarrow> (nat \<times> console) option" where
  "escape sc s c =
     (case char_at s 2 of None \<Rightarrow> None
      | Some d \<Rightarrow>
        if \<not> isdigit (sint d) then Some (2, c)
        else let num = sint d - 48
             in case char_at s 3 of None \<Rightarrow> None
                | Some l \<Rightarrow>
                  if l = 0x41 then Some (4, cursor_up num c)
                  else if l = 0x42 then Some (4, cursor_down sc num c)
                  else if l = 0x43 then Some (4, cursor_right sc num c)
                  else if l = 0x44 then Some (4, cursor_left num c)
                  else if num = 3
                  then (case char_at s 4 of None \<Rightarrow> None
                        | Some m \<Rightarrow> if m = 0x6d then Some (5, colour l c) else Some (3, c))
                  else Some (3, c))"

lemma escape_advances: "escape sc s c = Some (k, c') \<Longrightarrow> 2 \<le> k"
  by (auto simp: escape_def Let_def split: option.splits if_splits)

subsection \<open>\<open>put_console\<close>\<close>

function put_console_from :: "'s screen \<Rightarrow> u8 list \<Rightarrow> console \<times> 's \<Rightarrow> (console \<times> 's) option" where
  "put_console_from sc s cst =
     (case s of [] \<Rightarrow> None
      | ch # s' \<Rightarrow>
        if ch = 0 then Some cst
        else let cst = put_ground sc ch cst
             in if ch = 0x1b
                then (case char_at s 1 of None \<Rightarrow> None
                      | Some b \<Rightarrow>
                        if b = 0x5b
                        then (case escape sc s (fst cst) of None \<Rightarrow> None
                              | Some (k, c) \<Rightarrow> put_console_from sc (drop k s) (c, snd cst))
                        else put_console_from sc s' cst)
                else put_console_from sc s' cst)"
  by pat_completeness auto
termination
  by (relation "measure (\<lambda>(sc, s, cst). length s)") (auto dest!: escape_advances)

declare put_console_from.simps [simp del]

definition put_console :: "'s screen \<Rightarrow> u8 list \<Rightarrow> console \<times> 's \<Rightarrow> (console \<times> 's) option" where
  "put_console sc s cst = put_console_from sc s cst"

subsection \<open>kernel/printk.c\<close>

text \<open>
  \<open>printk\<close> formats into the static buffer, which keeps what earlier calls left behind the new
  string, and passes it to \<open>print_func\<close> (\<open>init_console\<close> sets it to \<open>put_console\<close>). A result that
  does not fit the 4096 bytes would be written behind the buffer: \<open>None\<close>. The interrupt flag,
  cleared during the call, is not part of the state.
\<close>

definition PRINTK_BUF_SIZE :: nat where "PRINTK_BUF_SIZE = 4096"

record 's printk_state =
  buf :: "u8 list"
  print_func :: "(u8 list \<Rightarrow> 's \<Rightarrow> 's option) option"

definition bytes_of :: "string \<Rightarrow> u8 list" where
  "bytes_of = map of_char"

definition init_console :: "'s screen \<Rightarrow> (console \<times> 's) printk_state \<Rightarrow> (console \<times> 's) printk_state" where
  "init_console sc p = p\<lparr>print_func := Some (put_console sc)\<rparr>"

definition printk :: "string \<Rightarrow> arg list \<Rightarrow> 's printk_state \<times> 's \<Rightarrow> (int \<times> 's printk_state \<times> 's) option" where
  "printk fmt args = (\<lambda>(p, st).
     case vsprintf fmt args of None \<Rightarrow> None
     | Some (out, i) \<Rightarrow>
         if PRINTK_BUF_SIZE \<le> length out then None
         else let p = p\<lparr>buf := bytes_of out @ 0 # drop (Suc (length out)) (buf p)\<rparr>
              in case print_func p of None \<Rightarrow> Some (i, p, st)
                 | Some f \<Rightarrow> map_option (\<lambda>st. (i, p, st)) (f (buf p) st))"

subsection \<open>The console as a sequence of drawing operations\<close>

text \<open>
  The log of what the console does: run on a screen that only records the operations, it makes
  the same decisions as on any other screen of that size, so the effect on any screen is that of
  performing the log.
\<close>

datatype event = Draw u8 int int u8 u8 u8 | Scroll

definition log_screen :: "int \<Rightarrow> int \<Rightarrow> event list screen" where
  "log_screen w h = \<lparr>screen_width = w, screen_height = h,
     draw = (\<lambda>ch x y r g b es. es @ [Draw ch x y r g b]), scroll = (\<lambda>es. es @ [Scroll])\<rparr>"

fun perform :: "'s screen \<Rightarrow> event \<Rightarrow> 's \<Rightarrow> 's" where
  "perform sc (Draw ch x y r g b) st = draw sc ch x y r g b st"
| "perform sc Scroll st = scroll sc st"

definition replay :: "'s screen \<Rightarrow> 's \<Rightarrow> console \<times> event list \<Rightarrow> console \<times> 's" where
  "replay sc st = map_prod id (\<lambda>es. fold (perform sc) es st)"

definition log_of :: "'s screen \<Rightarrow> event list screen" where
  "log_of sc = log_screen (screen_width sc) (screen_height sc)"

lemma log_of_simps [simp]:
  "screen_width (log_of sc) = screen_width sc" "screen_height (log_of sc) = screen_height sc"
  "draw (log_of sc) ch x y r g b es = es @ [Draw ch x y r g b]" "scroll (log_of sc) es = es @ [Scroll]"
  by (simp_all add: log_of_def log_screen_def)

lemma replay_last_row: "last_row sc (replay sc st (c, es)) = replay sc st (last_row (log_of sc) (c, es))"
  by (simp add: last_row_def replay_def)

lemma replay_printable:
  "put_printable sc ch (replay sc st (c, es)) = replay sc st (put_printable (log_of sc) ch (c, es))"
  using replay_last_row [of sc st "c\<lparr>cx := 0, cy := cy c + 16\<rparr>"
      "es @ [Draw ch (cx c) (cy c) (red c) (green c) (blue c)]"]
  by (simp add: put_printable_def draw_at_def Let_def replay_def)

lemma replay_backspace:
  "put_backspace sc ch (replay sc st (c, es)) = replay sc st (put_backspace (log_of sc) ch (c, es))"
  by (simp add: put_backspace_def replay_def)

lemma replay_newline:
  "put_newline sc ch (replay sc st (c, es)) = replay sc st (put_newline (log_of sc) ch (c, es))"
  using replay_last_row [of sc st _ es] by (simp add: put_newline_def Let_def replay_def)

lemma replay_ground:
  "put_ground sc ch (replay sc st ces) = replay sc st (put_ground (log_of sc) ch ces)"
proof -
  have t: "map_prod (put_tab ch) id (replay sc st ces) = replay sc st (map_prod (put_tab ch) id ces)" for ces
    by (cases ces) (simp add: replay_def)
  have p: "put_printable sc ch (replay sc st ces) = replay sc st (put_printable (log_of sc) ch ces)"
    "put_backspace sc ch (replay sc st ces) = replay sc st (put_backspace (log_of sc) ch ces)"
    "put_newline sc ch (replay sc st ces) = replay sc st (put_newline (log_of sc) ch ces)" for ces
    by (cases ces; simp only: replay_printable replay_backspace replay_newline)+
  show ?thesis by (simp only: put_ground_def t p)
qed

lemma escape_log: "escape (log_of sc) s c = escape sc s c"
proof -
  have "cursor_down (log_of sc) = cursor_down sc" "cursor_right (log_of sc) = cursor_right sc"
    by (simp_all add: fun_eq_iff cursor_down_def cursor_right_def)
  then show ?thesis by (simp only: escape_def)
qed

text \<open>One turn of the loop on a non-empty rest, for proofs by induction on its length.\<close>

lemma put_console_from_Nil [simp]: "put_console_from sc [] cst = None"
  by (subst put_console_from.simps) simp

lemma put_console_from_0 [simp]: "put_console_from sc (0 # s) cst = Some cst"
  by (subst put_console_from.simps) simp

lemma put_console_from_char:
  "ch \<noteq> 0 \<Longrightarrow> ch \<noteq> 0x1b \<Longrightarrow> put_console_from sc (ch # s) cst = put_console_from sc s (put_ground sc ch cst)"
  by (subst put_console_from.simps) (simp add: Let_def)

lemma put_console_from_esc:
  "put_console_from sc (0x1b # s) cst =
   (case char_at (0x1b # s) 1 of None \<Rightarrow> None
    | Some b \<Rightarrow>
      if b = 0x5b
      then (case escape sc (0x1b # s) (fst (put_ground sc 0x1b cst)) of None \<Rightarrow> None
            | Some (k, c) \<Rightarrow> put_console_from sc (drop k (0x1b # s)) (c, snd (put_ground sc 0x1b cst)))
      else put_console_from sc s (put_ground sc 0x1b cst))"
  by (subst put_console_from.simps) (simp add: Let_def)

lemma replay_from:
  "put_console_from sc s (replay sc st ces) =
   map_option (replay sc st) (put_console_from (log_of sc) s ces)"
proof (induction "length s" arbitrary: s ces rule: less_induct)
  case less
  have fst: "fst (replay sc st x) = fst x" "(c, snd (replay sc st x)) = replay sc st (c, snd x)" for x c
    by (simp_all add: replay_def)
  show ?case
  proof (cases s)
    case (Cons ch s')
    have IH: "put_console_from sc r (replay sc st x) = map_option (replay sc st) (put_console_from (log_of sc) r x)"
      if "length r < length s" for r x using less that by blast
    consider "ch = 0" | "ch = 0x1b" | "ch \<noteq> 0" "ch \<noteq> 0x1b" by blast
    then show ?thesis
    proof cases
      case 2
      let ?g = "put_ground (log_of sc) 0x1b ces"
      have e: "put_console_from sc (drop k s) (replay sc st (c, snd ?g)) =
          map_option (replay sc st) (put_console_from (log_of sc) (drop k s) (c, snd ?g))"
        if "escape sc s (fst ?g) = Some (k, c)" for k c
        using escape_advances [OF that] Cons by (intro IH) simp
      from 2 Cons show ?thesis
        by (auto simp: put_console_from_esc replay_ground escape_log fst e [unfolded Cons 2] IH
            split: option.split)
    qed (use Cons in \<open>simp_all add: put_console_from_char replay_ground IH\<close>)
  qed simp
qed


subsection \<open>Plain text\<close>

text \<open>
  The abstract console: a screen of \<open>W\<close> columns and \<open>H\<close> rows whose cells are numbered in reading
  order. Text goes to consecutive cells; behind the last cell the screen scrolls and the text goes
  on at the start of the last row.
\<close>

definition next_cell :: "nat \<Rightarrow> nat \<Rightarrow> nat \<Rightarrow> nat" where
  "next_cell W H q = (if Suc q = W * H then Suc q - W else Suc q)"

fun type_text :: "nat \<Rightarrow> nat \<Rightarrow> u8 \<times> u8 \<times> u8 \<Rightarrow> nat \<Rightarrow> u8 list \<Rightarrow> event list" where
  "type_text W H (r, g, b) q [] = []"
| "type_text W H (r, g, b) q (ch # cs) =
     Draw ch (8 * int (q mod W)) (16 * int (q div W)) r g b #
     (if Suc q = W * H then [Scroll] else []) @ type_text W H (r, g, b) (next_cell W H q) cs"

definition cell_after :: "nat \<Rightarrow> nat \<Rightarrow> nat \<Rightarrow> nat \<Rightarrow> nat" where
  "cell_after W H q n = (if q + n < W * H then q + n else W * (H - 1) + (q + n - W * H) mod W)"

definition at_cell :: "nat \<Rightarrow> nat \<Rightarrow> console \<Rightarrow> console" where
  "at_cell W q c = c\<lparr>cx := 8 * int (q mod W), cy := 16 * int (q div W)\<rparr>"

lemma at_cell_simps [simp]:
  "cx (at_cell W q c) = 8 * int (q mod W)" "cy (at_cell W q c) = 16 * int (q div W)"
  "red (at_cell W q c) = red c" "green (at_cell W q c) = green c" "blue (at_cell W q c) = blue c"
  "tmpx (at_cell W q c) = tmpx c" "tmpy (at_cell W q c) = tmpy c"
  by (simp_all add: at_cell_def)

definition grid :: "'s screen \<Rightarrow> nat \<Rightarrow> nat \<Rightarrow> bool" where
  "grid sc W H \<longleftrightarrow> 0 < W \<and> 0 < H \<and> screen_width sc div 8 = int W \<and> screen_height sc div 16 = int H"

lemma cell_after_0: "q < W * H \<Longrightarrow> cell_after W H q 0 = q"
  by (simp add: cell_after_def)

lemma next_cell_less: "0 < W \<Longrightarrow> q < W * H \<Longrightarrow> next_cell W H q < W * H"
  by (auto simp: next_cell_def)

lemma cell_after_Suc:
  assumes "0 < W" "0 < H" "q < W * H"
  shows "cell_after W H q (Suc n) = cell_after W H (next_cell W H q) n"
proof (cases "Suc q = W * H")
  case True
  have WH: "W * H = W * (H - 1) + W" using assms(2) by (cases H) simp_all
  have nx: "next_cell W H q = W * (H - 1)" using True WH by (simp add: next_cell_def)
  have e: "q + Suc n = W * H + n" using True by simp
  have "cell_after W H q (Suc n) = W * (H - 1) + n mod W" unfolding cell_after_def e by simp
  moreover have "W * (H - 1) + n - W * H = n - W" "(W * (H - 1) + n < W * H) = (n < W)"
    using WH by linarith+
  then have "cell_after W H (W * (H - 1)) n = W * (H - 1) + n mod W"
    by (simp add: cell_after_def le_mod_geq)
  ultimately show ?thesis by (simp only: nx)
next
  case False
  then show ?thesis by (simp add: cell_after_def next_cell_def)
qed

text \<open>One printable character on a cell.\<close>

lemma put_ground_printable:
  assumes g: "grid sc W H" and q: "q < W * H" and ch: "printable ch"
  shows "put_ground sc ch (at_cell W q c, st) =
    (at_cell W (next_cell W H q) c,
     fold (perform sc) (Draw ch (8 * int (q mod W)) (16 * int (q div W)) (red c) (green c) (blue c) #
       (if Suc q = W * H then [Scroll] else [])) st)"
proof -
  have W: "0 < W" "screen_width sc div 8 * 8 = 8 * int W" "screen_height sc div 16 * 16 = 16 * int H"
    using g by (auto simp: grid_def)
  have "q mod W < W" using W by simp
  moreover have "8 * int W \<le> screen_width sc" using W(2) by linarith
  ultimately have x: "8 * int (q mod W) \<noteq> screen_width sc" by linarith
  have col: "(8 * int (q mod W) + 8 = 8 * int W) = (Suc q mod W = 0)"
    using W(1) \<open>q mod W < W\<close> by (auto simp: mod_Suc)
  have row: "(16 * int (q div W) + 16 = 16 * int H) = (Suc q = W * H)" if "Suc q mod W = 0"
  proof -
    have "Suc q = W * (Suc q div W)" using that by (metis add.right_neutral mult_div_mod_eq)
    moreover have "Suc q div W = Suc (q div W)" using that by (simp add: div_Suc)
    ultimately have "Suc q = W * Suc (q div W)" by simp
    then have "(Suc q = W * H) = (Suc (q div W) = H)" using W(1) by (metis mult_cancel1 neq0_conv)
    then show ?thesis by linarith
  qed
  have old: "map_prod (put_tab ch) id cst = cst" "put_backspace sc ch cst = cst" "put_newline sc ch cst = cst"
    for cst :: "console \<times> 'a"
    using ch by (cases cst; simp add: put_tab_def put_backspace_def put_newline_def printable_def)+
  have "put_printable sc ch (at_cell W q c, st) =
    (at_cell W (next_cell W H q) c,
     fold (perform sc) (Draw ch (8 * int (q mod W)) (16 * int (q div W)) (red c) (green c) (blue c) #
       (if Suc q = W * H then [Scroll] else [])) st)"
  proof (cases "Suc q mod W = 0")
    case z: True
    then have q': "Suc q div W = Suc (q div W)" by (simp add: div_Suc)
    have e: "at_cell W (next_cell W H q) c =
      (if Suc q = W * H then c\<lparr>cx := 0, cy := 16 * int (q div W)\<rparr> else c\<lparr>cx := 0, cy := 16 * int (q div W) + 16\<rparr>)"
    proof (cases "Suc q = W * H")
      case True
      then have "next_cell W H q = W * (q div W)" using z q' W(1)
        by (metis add_diff_cancel_left' mult_Suc_right mult_div_mod_eq next_cell_def add_0_right)
      then show ?thesis using True W(1) by (simp add: at_cell_def)
    next
      case False
      then show ?thesis by (simp add: at_cell_def next_cell_def z q')
    qed
    show ?thesis
      unfolding put_printable_def e using x ch col row [OF z] z W(2,3)
      by (cases "Suc q = W * H") (simp_all add: last_row_def draw_at_def Let_def at_cell_def mult.commute [of "int H" 16])
  next
    case False
    then have "Suc q \<noteq> W * H" by auto
    moreover have "Suc q mod W = Suc (q mod W)" "Suc q div W = q div W"
      using False by (auto simp: mod_Suc div_Suc split: if_splits)
    ultimately show ?thesis
      unfolding put_printable_def using x ch col False W(2)
      by (simp add: draw_at_def Let_def at_cell_def next_cell_def)
  qed
  then show ?thesis unfolding put_ground_def by (simp only: old)
qed

text \<open>Text in front of anything else.\<close>

lemma put_console_from_text:
  assumes "grid sc W H" and "q < W * H" and "\<forall>ch\<in>set cs. printable ch \<and> ch \<noteq> 0"
  shows "put_console_from sc (cs @ tail) (at_cell W q c, st) =
    put_console_from sc tail (at_cell W (cell_after W H q (length cs)) c,
      fold (perform sc) (type_text W H (red c, green c, blue c) q cs) st)"
  using assms(2,3)
proof (induction cs arbitrary: q st)
  case Nil
  then show ?case by (simp add: cell_after_0)
next
  case (Cons ch cs)
  have W: "0 < W" "0 < H" using assms(1) by (simp_all add: grid_def)
  have ch: "printable ch" "ch \<noteq> 0" "ch \<noteq> 0x1b" using Cons.prems by (auto simp: printable_def)
  have "put_console_from sc ((ch # cs) @ tail) (at_cell W q c, st) =
      put_console_from sc (cs @ tail) (put_ground sc ch (at_cell W q c, st))"
    using ch by (simp add: put_console_from_char)
  also have "\<dots> = put_console_from sc tail (at_cell W (cell_after W H (next_cell W H q) (length cs)) c,
      fold (perform sc) (type_text W H (red c, green c, blue c) q (ch # cs)) st)"
    unfolding put_ground_printable [OF assms(1) Cons.prems(1) ch(1)]
    using Cons.prems by (subst Cons.IH) (auto simp: next_cell_less W)
  finally show ?case using W Cons.prems(1) by (simp add: cell_after_Suc)
qed

lemma cell_after_less: "0 < W \<Longrightarrow> 0 < H \<Longrightarrow> cell_after W H q n < W * H"
proof -
  assume W: "0 < W" "0 < H"
  then have "(q + n - W * H) mod W < W" by simp
  moreover have "W * H = W * (H - 1) + W" using W by (cases H) simp_all
  ultimately show ?thesis by (simp add: cell_after_def)
qed

text \<open>
  C24: Text without control characters is written to consecutive cells in the current colour,
  the screen scrolling one line each time the last cell is filled, and leaves the cursor on the
  cell behind it: \<open>put_console\<close> refines the numbering of the cells.
\<close>
theorem put_console_text:
  assumes "grid sc W H" and "q < W * H" and "\<forall>ch\<in>set cs. printable ch \<and> ch \<noteq> 0"
  shows "put_console sc (cs @ 0 # rest) (at_cell W q c, st) =
    Some (at_cell W (cell_after W H q (length cs)) c,
      fold (perform sc) (type_text W H (red c, green c, blue c) q cs) st) \<and>
    cell_after W H q (length cs) < W * H"
  using put_console_from_text [OF assms, of "0 # rest" c st] cell_after_less [of W H q "length cs"] assms(1)
  by (simp add: put_console_def grid_def)

text \<open>Three letters on a screen of 2 x 1 cells (20 x 17 pixels): the second one scrolls.\<close>

theorem put_console_text_witness:
  "put_console (log_screen 20 17) [0x61, 0x62, 0x63, 0] (at_cell 2 0 console_start, []) =
   Some (at_cell 2 1 console_start,
     [Draw 0x61 0 0 0xff 0xff 0xff, Draw 0x62 8 0 0xff 0xff 0xff, Scroll, Draw 0x63 0 0 0xff 0xff 0xff])"
  using put_console_text [of "log_screen 20 17" 2 1 0 "[0x61, 0x62, 0x63]" "[]" console_start "[]"]
  by (simp add: grid_def log_screen_def printable_def cell_after_def console_start_def next_cell_def)

text \<open>
  \<open>ESC [ 3 d m\<close> selects the colour whose red, green and blue parts are bits 0, 1 and 2 of
  \<open>d\<close>, for every digit from 0 to 7 but 5: magenta comes out white.
\<close>
theorem escape_colours:
  "map (\<lambda>d. put_console sc [0x1b, 0x5b, 0x33, 0x30 + word_of_nat d, 0x6d, 0] (c, st)) [0, 1, 2, 3, 4, 5, 6, 7] =
   map (\<lambda>d. Some (if d = (5 :: nat) then set_colour 0xff 0xff 0xff c
       else set_colour (if bit d 0 then 0xff else 0) (if bit d 1 then 0xff else 0) (if bit d 2 then 0xff else 0) c, st))
     [0, 1, 2, 3, 4, 5, 6, 7]"
proof -
  have g: "put_ground sc 0x1b (c, st) = (c, st)"
    by (simp add: put_ground_def put_printable_def put_tab_def put_backspace_def put_newline_def printable_def)
  have s: "sint (0x33 :: u8) = 51" by simp
  show ?thesis
    by (simp add: put_console_def put_console_from_esc g char_at_def escape_def isdigit_def s colour_def
        bit_iff_odd)
qed

text \<open>
  A tab in the last column of a screen whose column count is even moves the cursor behind
  the wrap position: whatever text follows, up to the next line feed, is not drawn at all.
\<close>
theorem tab_loses_text:
  assumes "screen_width sc = 16 * int W" and "cx c = screen_width sc - 8"
    and "\<forall>ch\<in>set cs. printable ch \<and> ch \<noteq> 0"
  shows "put_console sc (0x09 # cs @ [0]) (c, st) = Some (c\<lparr>cx := screen_width sc\<rparr>, st)"
proof -
  have odd: "(16 * int W - 8) div 8 mod 2 = 1"
  proof -
    have "(16 * int W - 8) div 8 = 2 * int W - 1" by linarith
    then show ?thesis by presburger
  qed
  have tab: "put_ground sc 0x09 (c, st) = (c\<lparr>cx := screen_width sc\<rparr>, st)"
    using assms(1,2) odd
    by (simp add: put_ground_def put_printable_def put_tab_def put_backspace_def put_newline_def printable_def)
  have skip: "put_ground sc ch (c\<lparr>cx := screen_width sc\<rparr>, st) = (c\<lparr>cx := screen_width sc\<rparr>, st)"
    if "printable ch" for ch
    using that by (simp add: put_ground_def put_printable_def put_tab_def put_backspace_def put_newline_def printable_def)
  have "put_console_from sc (cs @ [0]) (c\<lparr>cx := screen_width sc\<rparr>, st) = Some (c\<lparr>cx := screen_width sc\<rparr>, st)"
    using assms(3) by (induction cs) (auto simp: put_console_from_char skip, auto simp: printable_def put_console_from_char skip)
  then show ?thesis by (simp add: put_console_def put_console_from_char tab)
qed

theorem tab_loses_text_witness:
  "put_console (log_screen 800 600) [0x09, 0x68, 0x69, 0] (console_start\<lparr>cx := 792\<rparr>, []) =
   Some (console_start\<lparr>cx := 800\<rparr>, [])"
  using tab_loses_text [of "log_screen 800 600" 50 "console_start\<lparr>cx := 792\<rparr>" "[0x68, 0x69]" "[]"]
  by (simp add: log_screen_def printable_def)

subsection \<open>Line feeds and \<open>printk\<close>\<close>

text \<open>The start of the line behind a cell.\<close>

definition next_line :: "nat \<Rightarrow> nat \<Rightarrow> nat \<Rightarrow> nat" where
  "next_line W H q = (if Suc (q div W) = H then W * (q div W) else W * Suc (q div W))"

lemma put_ground_newline:
  assumes g: "grid sc W H" and q: "q < W * H" and t: "tmpy c = - 1"
  shows "put_ground sc 0x0a (at_cell W q c, st) =
    (at_cell W (next_line W H q) (set_colour 0xff 0xff 0xff (c\<lparr>tmpx := - 1\<rparr>)),
     if Suc (q div W) = H then scroll sc st else st)"
proof -
  have W: "0 < W" "screen_height sc div 16 * 16 = 16 * int H" using g by (auto simp: grid_def)
  have row: "(16 * int (q div W) + 16 = 16 * int H) = (Suc (q div W) = H)" by linarith
  show ?thesis
    using W row t
    by (cases c; cases "Suc (q div W) = H")
      (simp_all add: put_ground_def put_printable_def printable_def put_tab_def put_backspace_def
        put_newline_def last_row_def set_colour_def at_cell_def next_line_def)
qed

text \<open>What \<open>panic\<close> prints.\<close>

definition panic_print :: "string \<Rightarrow> 's printk_state \<times> 's \<Rightarrow> (int \<times> 's printk_state \<times> 's) option" where
  "panic_print fmt = printk (CHR 0x1B # ''[31mPANIC!: %s'' @ [CHR 0x0A]) [Str fmt]"

lemma panic_format:
  "vsprintf (CHR 0x1B # ''[31mPANIC!: %s'' @ [CHR 0x0A]) [Str t] =
   Some (CHR 0x1B # ''[31mPANIC!: '' @ t @ [CHR 0x0A], int (length t) + 14)"
proof -
  have "directive (''s'' @ [CHR 0x0A]) [Str t] = Some (put_str 0 (-1) (-1) t, [CHR 0x0A], [])"
    by (simp add: directive_def parse_width_def parse_precision_def conversion_def
        skip_qualifier_def is_digit_def peek_def)
  moreover have "put_str 0 (-1) (-1) t = t" by (simp add: put_str_def pad_def Let_def)
  ultimately have "vsprintf_from (''%s'' @ [CHR 0x0A]) [Str t] = Some (t @ [CHR 0x0A])" by simp
  then have "vsprintf_from ((CHR 0x1B # ''[31mPANIC!: '') @ (''%s'' @ [CHR 0x0A])) [Str t] =
      Some ((CHR 0x1B # ''[31mPANIC!: '') @ t @ [CHR 0x0A])"
    by (subst vsprintf_text) simp_all
  then show ?thesis by (simp add: vsprintf_def)
qed

text \<open>The sequence that selects red.\<close>

lemma put_console_red:
  "put_console_from sc (0x1b # 0x5b # 0x33 # 0x31 # 0x6d # s) (c, st) =
   put_console_from sc s (set_colour 0xff 0 0 c, st)"
proof -
  have g: "put_ground sc 0x1b (c, st) = (c, st)"
    by (simp add: put_ground_def put_printable_def put_tab_def put_backspace_def put_newline_def printable_def)
  have s: "sint (0x33 :: u8) = 51" by simp
  show ?thesis
    by (simp add: put_console_from_esc g char_at_def escape_def isdigit_def s colour_def)
qed

lemma bytes_of_append: "bytes_of (s @ t) = bytes_of s @ bytes_of t"
  by (simp add: bytes_of_def)

text \<open>
  With the console set up, \<open>panic\<close> formats its message into the \<open>printk\<close> buffer and the
  console shows it in red on consecutive cells, returns to white and goes to the next line,
  scrolling when the message ends on the last one.
\<close>
theorem panic_on_console:
  assumes "grid sc W H" and "q < W * H" and "tmpy c = - 1"
    and "length t < 4082" and "\<forall>ch\<in>set (bytes_of t). printable ch \<and> ch \<noteq> 0"
  shows "panic_print t (init_console sc p, at_cell W q c, st) =
    (let msg = bytes_of (''PANIC!: '' @ t);
         q' = cell_after W H q (length msg);
         st' = fold (perform sc) (type_text W H (0xff, 0, 0) q msg) st
     in Some (int (length t) + 14,
          (init_console sc p)\<lparr>buf := bytes_of (CHR 0x1B # ''[31m'') @ msg @ [0x0a, 0] @ drop (length t + 15) (buf p)\<rparr>,
          at_cell W (next_line W H q') (set_colour 0xff 0xff 0xff (c\<lparr>tmpx := - 1\<rparr>)),
          if Suc (q' div W) = H then scroll sc st' else st'))"
proof -
  let ?c = "set_colour 0xff 0 0 c"
  define msg where "msg = bytes_of (''PANIC!: '' @ t)"
  have col: "set_colour 0xff 0 0 (at_cell W q c) = at_cell W q ?c"
    by (simp add: set_colour_def at_cell_def)
  have white: "set_colour 0xff 0xff 0xff (?c\<lparr>tmpx := - 1\<rparr>) = set_colour 0xff 0xff 0xff (c\<lparr>tmpx := - 1\<rparr>)"
    and t: "tmpy ?c = - 1" and red: "(red ?c, green ?c, blue ?c) = (0xff, 0, 0)"
    using assms(3) by (simp_all add: set_colour_def)
  have pr: "\<forall>ch\<in>set msg. printable ch \<and> ch \<noteq> 0"
    using assms(5) by (auto simp: msg_def bytes_of_def printable_def)
  have q': "cell_after W H q (length msg) < W * H"
    using assms(1) by (intro cell_after_less) (simp_all add: grid_def)
  have bytes: "bytes_of (CHR 0x1B # ''[31mPANIC!: '' @ t @ [CHR 0x0A]) = bytes_of (CHR 0x1B # ''[31m'') @ msg @ [0x0a]"
    by (simp add: bytes_of_def msg_def)
  have esc: "bytes_of (CHR 0x1B # ''[31m'') @ r = 0x1b # 0x5b # 0x33 # 0x31 # 0x6d # r" for r
    by (simp add: bytes_of_def)
  have con: "put_console sc (bytes_of (CHR 0x1B # ''[31m'') @ msg @ 0x0a # 0 # rest) (at_cell W q c, st) =
    Some (put_ground sc 0x0a (at_cell W (cell_after W H q (length msg)) ?c,
      fold (perform sc) (type_text W H (0xff, 0, 0) q msg) st))" for rest
    unfolding put_console_def esc put_console_red col
      put_console_from_text [OF assms(1,2) pr] red by (simp add: put_console_from_char)
  have "printk (CHR 0x1B # ''[31mPANIC!: %s'' @ [CHR 0x0A]) [Str t] (init_console sc p, at_cell W q c, st) =
      map_option (\<lambda>cst. (int (length t) + 14,
          (init_console sc p)\<lparr>buf := bytes_of (CHR 0x1B # ''[31m'') @ msg @ [0x0a, 0] @ drop (length t + 15) (buf p)\<rparr>, cst))
        (put_console sc (bytes_of (CHR 0x1B # ''[31m'') @ msg @ 0x0a # 0 # drop (length t + 15) (buf p)) (at_cell W q c, st))"
  proof -
    define out where "out = CHR 0x1B # ''[31mPANIC!: '' @ t @ [CHR 0x0A]"
    have f: "vsprintf (CHR 0x1B # ''[31mPANIC!: %s'' @ [CHR 0x0A]) [Str t] = Some (out, int (length t) + 14)"
      unfolding out_def by (rule panic_format)
    have l: "length out = length t + 14" by (simp add: out_def)
    have b: "bytes_of out = bytes_of (CHR 0x1B # ''[31m'') @ msg @ [0x0a]"
      unfolding out_def by (rule bytes)
    show ?thesis
      unfolding printk_def f prod.case option.case b l using assms(4)
      by (simp add: PRINTK_BUF_SIZE_def init_console_def Let_def add.commute)
  qed
  then show ?thesis
    unfolding panic_print_def Let_def msg_def [symmetric] con put_ground_newline [OF assms(1) q' t] white
    by simp
qed

text \<open>The panic of \<open>init_segments\<close> on a screen of 100 x 37 cells.\<close>

theorem panic_on_console_witness:
  "map_option (\<lambda>(i, p, c, es). (i, c, length es)) (panic_print ''rsp0_stack is NULL!''
     (init_console (log_screen 800 600) \<lparr>buf = [], print_func = None\<rparr>, at_cell 100 3690 console_start, [])) =
   Some (33, at_cell 100 3600 console_start, 29)"
proof -
  let ?text = "bytes_of (''PANIC!: '' @ ''rsp0_stack is NULL!'')" and ?sc = "log_screen 800 600"
  have g: "grid ?sc 100 37" by (simp add: grid_def log_screen_def)
  have l: "length ?text = 27" by (simp add: bytes_of_def)
  have c: "cell_after 100 37 3690 27 = 3617" by (simp add: cell_after_def)
  have n: "next_line 100 37 3617 = 3600" "Suc (3617 div 100) = 37" by (simp_all add: next_line_def)
  have pr: "\<forall>ch\<in>set (bytes_of ''rsp0_stack is NULL!''). printable ch \<and> ch \<noteq> 0"
    by (simp add: bytes_of_def printable_def)
  have cs: "set_colour 0xff 0xff 0xff (console_start\<lparr>tmpx := - 1\<rparr>) = console_start" "tmpy console_start = - 1"
    by (simp_all add: set_colour_def console_start_def)
  have ev: "length (fold (perform ?sc) es st) = length st + length es" for es st
  proof (induction es arbitrary: st)
    case (Cons e es)
    then show ?case by (cases e) (simp_all add: log_screen_def)
  qed simp
  have len: "length (type_text 100 37 (0xff, 0, 0) 3690 (bytes_of ''PANIC!: rsp0_stack is NULL!'')) = 28"
    by (simp add: bytes_of_def next_cell_def)
  have sc: "length (scroll ?sc es) = Suc (length es)" for es by (simp add: log_screen_def)
  show ?thesis
    using panic_on_console [OF g _ cs(2) _ pr, of 3690 "\<lparr>buf = [], print_func = None\<rparr>" "[]"]
    unfolding Let_def l c n cs by (simp add: ev len sc)
qed

subsection \<open>The cursor stays on the positive side\<close>

definition cursor_ok :: "console \<Rightarrow> bool" where
  "cursor_ok c \<longleftrightarrow> 0 \<le> cx c \<and> 0 \<le> cy c \<and> - 1 \<le> tmpx c \<and> - 1 \<le> tmpy c"

lemma last_row_ok: "16 \<le> screen_height sc \<Longrightarrow> cursor_ok (fst cst) \<Longrightarrow> cursor_ok (fst (last_row sc cst))"
proof -
  assume h: "16 \<le> screen_height sc" and c: "cursor_ok (fst cst)"
  have "16 \<le> screen_height sc div 16 * 16" using h by presburger
  with c show ?thesis by (cases cst) (auto simp: last_row_def cursor_ok_def)
qed

lemma put_ground_ok:
  assumes h: "16 \<le> screen_height sc" and c: "cursor_ok (fst cst)"
  shows "cursor_ok (fst (put_ground sc ch cst))"
proof -
  have lr: "cursor_ok (fst (last_row sc (c, st)))" if "cursor_ok c" for c st
    using that h last_row_ok [of sc "(c, st)"] by simp
  have pr: "cursor_ok (fst (put_printable sc ch cst))" if "cursor_ok (fst cst)" for cst
    using that by (cases cst) (auto simp: put_printable_def Let_def cursor_ok_def intro!: lr [unfolded cursor_ok_def])
  have tb: "cursor_ok (fst (map_prod (put_tab ch) id cst))" if "cursor_ok (fst cst)" for cst
    using that by (cases cst) (auto simp: put_tab_def cursor_ok_def)
  have bs: "cursor_ok (fst (put_backspace sc ch cst))" if "cursor_ok (fst cst)" for cst
    using that by (cases cst) (auto simp: put_backspace_def cursor_ok_def)
  have nl: "cursor_ok (fst (put_newline sc ch cst))" if "cursor_ok (fst cst)" for cst
    using that by (cases cst)
      (auto simp: put_newline_def Let_def cursor_ok_def set_colour_def intro!: lr [unfolded cursor_ok_def])
  show ?thesis unfolding put_ground_def by (intro nl bs tb pr c)
qed

lemma escape_ok:
  assumes "8 \<le> screen_width sc" "16 \<le> screen_height sc" "cursor_ok c" "escape sc s c = Some (k, c')"
  shows "cursor_ok c'"
proof -
  have w: "8 \<le> screen_width sc div 8 * 8" "16 \<le> screen_height sc div 16 * 16"
    using assms(1,2) by presburger+
  have dn: "cursor_ok (cursor_up n c)" "cursor_ok (cursor_left n c)" for n
    using assms(3) by (auto simp: cursor_ok_def cursor_up_def cursor_left_def)
  have up: "cursor_ok (cursor_down sc n c)" "cursor_ok (cursor_right sc n c)" if "0 \<le> n" for n
    using assms(3) that w by (auto simp: cursor_ok_def cursor_down_def cursor_right_def Let_def)
  have co: "cursor_ok (colour l c)" for l
    using assms(3) by (simp add: cursor_ok_def colour_def set_colour_def)
  show ?thesis using assms(3,4) dn up co
    by (auto simp: escape_def Let_def isdigit_def split: option.splits if_splits)
qed

text \<open>
  On a screen of at least one cell, no string drives the cursor to a negative coordinate, so
  \<open>put_char\<close> is never called left of or above the screen.
\<close>
theorem put_console_cursor:
  assumes "8 \<le> screen_width sc" "16 \<le> screen_height sc" "cursor_ok c"
    and "put_console sc s (c, st) = Some (c', st')"
  shows "cursor_ok c'"
proof -
  have "cursor_ok (fst r)" if "cursor_ok (fst cst)" "put_console_from sc s cst = Some r" for cst s r
    using that
  proof (induction "length s" arbitrary: s cst rule: less_induct)
    case less
    note g = put_ground_ok [OF assms(2) less.prems(1)]
    show ?case
    proof (cases s)
      case Nil
      then show ?thesis using less.prems by simp
    next
      case (Cons ch s')
      consider "ch = 0" | "ch = 0x1b" | "ch \<noteq> 0" "ch \<noteq> 0x1b" by blast
      then show ?thesis
      proof cases
        case 1
        then show ?thesis using less.prems Cons by simp
      next
        case 2
        let ?g = "put_ground sc 0x1b cst"
        from less.prems(2) consider
          (csi) k c where "escape sc s (fst ?g) = Some (k, c)" "put_console_from sc (drop k s) (c, snd ?g) = Some r"
          | (skip) "put_console_from sc s' ?g = Some r"
          unfolding Cons 2 put_console_from_esc by (auto split: option.splits if_splits)
        then show ?thesis
        proof cases
          case csi
          then show ?thesis
            using less.hyps [of "drop k s" "(c, snd ?g)"] escape_advances [OF csi(1)]
              escape_ok [OF assms(1,2) g csi(1)] Cons by simp
        next
          case skip
          then show ?thesis using less.hyps [of s' ?g] g Cons by simp
        qed
      next
        case 3
        then show ?thesis
          using less.prems(2) less.hyps [of s' "put_ground sc ch cst"] g Cons
          by (simp add: put_console_from_char)
      qed
    qed
  qed
  from this [of "(c, st)" s "(c', st')"] assms(3,4) show ?thesis by (simp add: put_console_def)
qed

theorem put_console_cursor_witness:
  "cursor_ok (fst (the (put_console (log_screen 800 600) [0x1b, 0x5b, 0x39, 0x44, 0x61, 0] (console_start, []))))"
proof -
  have "put_console (log_screen 800 600) [0x1b, 0x5b, 0x39, 0x44, 0x61, 0] (console_start, []) =
      Some (console_start\<lparr>tmpx := 0, cx := 8\<rparr>, [Draw 0x61 0 0 0xff 0xff 0xff])"
    by code_simp
  then show ?thesis
    using put_console_cursor [of "log_screen 800 600" console_start "[0x1b, 0x5b, 0x39, 0x44, 0x61, 0]" "[]"]
    by (simp add: log_screen_def cursor_ok_def console_start_def)
qed

end
