(* ===== verification/Trb.thy ===== *)
theory Trb
  imports Bitfields Memory
begin

unbundle bit_operations_syntax

text \<open>
  The structures the driver shares with the host controller (include/xhci.h) and the USB
  descriptors it reads (include/usb.h). A packed structure is the word of its size; its
  declaration is the list of its fields with their widths in bits, from the lowest address on,
  and a field is read and assigned at the place the widths before it give.
\<close>

subsection \<open>Declarations and fields\<close>

type_synonym layout = "(string \<times> nat) list"

fun field_from :: "nat \<Rightarrow> layout \<Rightarrow> string \<Rightarrow> nat \<times> nat" where
  "field_from lo [] f = (lo, 0)"
| "field_from lo ((g, w) # L) f = (if f = g then (lo, w) else field_from (lo + w) L f)"

definition get_f :: "layout \<Rightarrow> string \<Rightarrow> 'a::len word \<Rightarrow> u64" where
  "get_f L f x = (case field_from 0 L f of (lo, w) \<Rightarrow> ucast (bf_get lo w x))"

definition set_f :: "layout \<Rightarrow> string \<Rightarrow> u64 \<Rightarrow> 'a::len word \<Rightarrow> 'a word" where
  "set_f L f v x = (case field_from 0 L f of (lo, w) \<Rightarrow> bf_set lo w (ucast v) x)"

definition struct_bits :: "layout \<Rightarrow> nat" where
  "struct_bits L = sum_list (map snd L)"

text \<open>A structure in memory.\<close>

definition load_struct :: "mem \<Rightarrow> addr \<Rightarrow> 'a::len word" where
  "load_struct h a = word_of_nat (load (LENGTH('a) div 8) h a)"

definition store_struct :: "addr \<Rightarrow> 'a::len word \<Rightarrow> mem \<Rightarrow> mem" where
  "store_struct a x h = store (LENGTH('a) div 8) a (unat x) h"

type_synonym trb = "128 word"
type_synonym ctx = "256 word"

subsection \<open>include/xhci.h\<close>

definition event_ring_segment_table :: layout where
  "event_ring_segment_table =
     [(''ring_segm_addr'', 64), (''ring_segm_size'', 16), (''resv0'', 16), (''resv1'', 32)]"

definition normal_trb :: layout where
  "normal_trb =
     [(''buffer'', 64), (''length'', 17), (''tdsize'', 5), (''target'', 10),
      (''c'', 1), (''ent'', 1), (''isp'', 1), (''flags'', 2), (''ioc'', 1), (''flags2'', 4), (''type'', 6),
      (''resv'', 16)]"

definition setup_stage_trb :: layout where
  "setup_stage_trb =
     [(''request_type'', 8), (''request'', 8), (''wvalue'', 16), (''windex'', 16), (''wlength'', 16),
      (''trb_length'', 17), (''rsvd0'', 5), (''target'', 10),
      (''c'', 1), (''flags'', 5), (''idt'', 1), (''rsvd2'', 3), (''type'', 6), (''trt'', 2), (''rsvd1'', 14)]"

definition data_stage_trb :: layout where
  "data_stage_trb =
     [(''data_buf'', 64), (''length'', 17), (''tdsize'', 5), (''target'', 10),
      (''c'', 1), (''flags'', 4), (''ioc'', 1), (''flags2'', 4), (''type'', 6), (''dir'', 1), (''rsvd0'', 15)]"

definition status_stage_trb :: layout where
  "status_stage_trb =
     [(''rsvd0'', 64), (''rsvd1'', 22), (''target'', 10),
      (''c'', 1), (''flags'', 4), (''ioc'', 1), (''rsvd3'', 4), (''type'', 6), (''dir'', 1), (''rsvd2'', 15)]"

definition noop_command :: layout where
  "noop_command =
     [(''resv0'', 64), (''resv1'', 32), (''c'', 1), (''resv2'', 9), (''type'', 6), (''slot_type'', 5), (''resv'', 11)]"

definition enable_slot_command :: layout where
  "enable_slot_command =
     [(''resv0'', 64), (''resv1'', 32), (''c'', 1), (''resv2'', 9), (''type'', 6), (''slot_type'', 5), (''resv'', 11)]"

definition address_device_command :: layout where
  "address_device_command =
     [(''input_ctx_ptr'', 64), (''rsvd0'', 32), (''c'', 1), (''rsvd1'', 8), (''bsr'', 1), (''type'', 6),
      (''rsvd2'', 8), (''slot_id'', 8)]"

definition configure_endpoint_command :: layout where
  "configure_endpoint_command =
     [(''input_ctx_ptr'', 64), (''rsvd0'', 32), (''c'', 1), (''flags'', 9), (''type'', 6), (''rsvd2'', 8), (''slot_id'', 8)]"

definition evaluate_context_command :: layout where
  "evaluate_context_command =
     [(''input_ctx_ptr'', 64), (''rsvd0'', 32), (''c'', 1), (''rsvd1'', 8), (''bsr'', 1), (''type'', 6),
      (''rsvd2'', 8), (''slot_id'', 8)]"

definition transfer_event :: layout where
  "transfer_event =
     [(''ptr'', 64), (''length'', 24), (''code'', 8),
      (''c'', 1), (''rsvd0'', 1), (''ed'', 1), (''rsvd1'', 7), (''type'', 6), (''endpoint'', 5), (''rsvd2'', 3), (''slot_id'', 8)]"

definition command_completion_event :: layout where
  "command_completion_event =
     [(''ptr'', 64), (''param'', 24), (''code'', 8), (''c'', 1), (''rsvd0'', 9), (''type'', 6), (''vf_id'', 8), (''slot_id'', 8)]"

definition port_status_change_event :: layout where
  "port_status_change_event =
     [(''rsvd0'', 24), (''port'', 8), (''rsvd1'', 32), (''rsvd2'', 24), (''code'', 8),
      (''c'', 1), (''rsvd3'', 9), (''type'', 6), (''rsvd4'', 16)]"

definition link_trb :: layout where
  "link_trb =
     [(''ring_ptr'', 64), (''rsvd0'', 22), (''target'', 10),
      (''c'', 1), (''tc'', 1), (''flags'', 4), (''rsvd1'', 4), (''type'', 6), (''rsvd2'', 16)]"

text \<open>The contexts; arrays of reserved words are one field.\<close>

definition input_control_context :: layout where
  "input_control_context =
     [(''d_flags'', 32), (''a_flags'', 32), (''resvd'', 160), (''conf_value'', 8), (''interface_num'', 8),
      (''alternate_setting'', 8), (''resv1'', 8)]"

definition slot_context :: layout where
  "slot_context =
     [(''route_string'', 20), (''speed'', 4), (''rsvd0'', 1), (''mtt'', 1), (''hub'', 1), (''context_entries'', 5),
      (''max_exit_latency'', 16), (''root_hub_port_num'', 8), (''num_of_ports'', 8),
      (''tt_hub_slot_id'', 8), (''tt_port_num'', 8), (''ttt'', 2), (''rsvd1'', 4), (''interrupt_target'', 10),
      (''usb_dev_addr'', 8), (''rsvd2'', 19), (''slot_state'', 5), (''rsvd3'', 128)]"

definition endpoint_context :: layout where
  "endpoint_context =
     [(''ep_state'', 3), (''rsvd0'', 5), (''mult'', 2), (''max_pstreams'', 5), (''lsa'', 1), (''interval'', 8),
      (''max_payload_hi'', 8), (''rsvd1'', 1), (''cerr'', 2), (''ep_type'', 3), (''rsvd2'', 1), (''hid'', 1),
      (''max_burst_size'', 8), (''max_packet_size'', 16), (''tr_pointer'', 64), (''average_length'', 16),
      (''max_payload_lo'', 16), (''rsvd4'', 96)]"

text \<open>Offsets in \<open>struct input_context\<close>, whose parts have 32 bytes each.\<close>

definition slotctx_of :: "addr \<Rightarrow> addr" where "slotctx_of input_ctx = input_ctx + 32"

definition epctx_of :: "addr \<Rightarrow> int \<Rightarrow> addr" where
  "epctx_of input_ctx i = input_ctx + 64 + 32 * word_of_int i"

definition sizeof_input_context :: u32 where "sizeof_input_context = 33 * 32"

subsection \<open>include/usb.h\<close>

definition device_descriptor :: layout where
  "device_descriptor =
     [(''bLength'', 8), (''bDescriptorType'', 8), (''bcdUSB'', 16), (''bDeviceClass'', 8), (''bDeviceSubClass'', 8),
      (''bDeviceProtocol'', 8), (''bMaxPacketSize0'', 8), (''idVendor'', 16), (''idProduct'', 16), (''bcdDevice'', 16),
      (''iManufacturer'', 8), (''iProduct'', 8), (''iSerialNumber'', 8), (''bNumConfigurations'', 8)]"

definition configuration_descriptor :: layout where
  "configuration_descriptor =
     [(''bLength'', 8), (''bDescriptorType'', 8), (''wTotalLength'', 16), (''bNumInterfaces'', 8),
      (''bConfigurationValue'', 8), (''iConfiguration'', 8), (''bmAttributes'', 8), (''bMaxPower'', 8)]"

definition interface_descriptor :: layout where
  "interface_descriptor =
     [(''bLength'', 8), (''bDescriptorType'', 8), (''bInterfaceNumber'', 8), (''bAlternateSetting'', 8),
      (''bNumEndpoints'', 8), (''bInterfaceClass'', 8), (''bInterfaceSubClass'', 8), (''bInterfaceProtocol'', 8),
      (''iInterface'', 8)]"

definition endpoint_descriptor :: layout where
  "endpoint_descriptor =
     [(''bLength'', 8), (''bDescriptorType'', 8), (''bEndpointAddress'', 8), (''bmAttributes'', 8),
      (''wMaxPacketSize'', 16), (''bInterval'', 8)]"

subsection \<open>kernel/xhci_trb.c\<close>

text \<open>Each function clears the structure first, so its old contents do not matter.\<close>

definition init_normal_trb :: "u64 \<Rightarrow> trb" where
  "init_normal_trb buf =
     set_f normal_trb ''ioc'' 1 (set_f normal_trb ''buffer'' buf (set_f normal_trb ''type'' 1 0))"

definition init_setup_stage_trb :: trb where
  "init_setup_stage_trb =
     set_f setup_stage_trb ''trb_length'' 8 (set_f setup_stage_trb ''idt'' 1 (set_f setup_stage_trb ''type'' 2 0))"

definition init_data_stage_trb :: "u64 \<Rightarrow> u32 \<Rightarrow> trb" where
  "init_data_stage_trb buf len =
     set_f data_stage_trb ''ioc'' 1 (set_f data_stage_trb ''length'' (ucast len)
       (set_f data_stage_trb ''data_buf'' buf (set_f data_stage_trb ''type'' 3 0)))"

definition init_status_stage_trb :: trb where
  "init_status_stage_trb = set_f status_stage_trb ''type'' 4 0"

definition init_address_device_command :: "u64 \<Rightarrow> u8 \<Rightarrow> trb" where
  "init_address_device_command ctx slot =
     set_f address_device_command ''slot_id'' (ucast slot)
       (set_f address_device_command ''input_ctx_ptr'' ctx (set_f address_device_command ''type'' 11 0))"

subsection \<open>Fields\<close>

lemma get_set_field:
  fixes x :: "'a::len word"
  assumes "field_from 0 L f = (lo, w)" "lo + w \<le> LENGTH('a)" "w \<le> 64"
  shows "get_f L f (set_f L f v x) = take_bit w v"
proof -
  have "get_f L f (set_f L f v x) = ucast (take_bit w (ucast v :: 'a word))"
    using assms by (simp add: get_f_def set_f_def bf_get_set)
  also have "\<dots> = take_bit w v"
    using assms by (intro bit_word_eqI) (auto simp: bit_simps dest: bit_imp_le_length)
  finally show ?thesis .
qed

lemma get_set_cast:
  fixes x :: "'a::len word"
  assumes "field_from 0 L f = p" "field_from 0 L' g = p" "fst p + snd p \<le> LENGTH('a)" "snd p \<le> 64"
  shows "get_f L' g (set_f L f v x) = take_bit (snd p) v"
proof -
  have "get_f L' g y = get_f L f y" for y :: "'a word" using assms(1,2) by (simp add: get_f_def)
  then show ?thesis using assms get_set_field [of L f "fst p" "snd p" v x] by simp
qed

lemma get_set_field_other:
  fixes x :: "'a::len word"
  assumes "field_from 0 L f = (lo, w)" "field_from 0 L' g = (lo', w')" "lo' + w' \<le> lo \<or> lo + w \<le> lo'"
    "lo' + w' \<le> LENGTH('a)"
  shows "get_f L' g (set_f L f v x) = get_f L' g x"
  using assms by (simp add: get_f_def set_f_def bf_get_set_other)

lemma get_f_0 [simp]: "get_f L f 0 = 0"
  by (simp add: get_f_def split: prod.split)

lemmas trb_layouts_defs = normal_trb_def setup_stage_trb_def data_stage_trb_def status_stage_trb_def noop_command_def
  enable_slot_command_def address_device_command_def configure_endpoint_command_def evaluate_context_command_def
  transfer_event_def command_completion_event_def port_status_change_event_def link_trb_def

definition trb_layouts :: "layout list" where
  "trb_layouts =
     [normal_trb, setup_stage_trb, data_stage_trb, status_stage_trb, noop_command, enable_slot_command,
      address_device_command, configure_endpoint_command, evaluate_context_command, transfer_event,
      command_completion_event, port_status_change_event, link_trb]"

lemma trb_layouts_places:
  "list_all (\<lambda>L. struct_bits L = 128 \<and> distinct (map fst L) \<and>
     field_from 0 L ''c'' = (96, 1) \<and> field_from 0 L ''type'' = (106, 6)) trb_layouts"
  by (simp add: trb_layouts_def trb_layouts_defs struct_bits_def)

lemma type_any_layout:
  fixes x :: trb
  assumes "L \<in> set trb_layouts" "L' \<in> set trb_layouts"
  shows "get_f L' ''type'' (set_f L ''type'' v x) = take_bit 6 v" "get_f L' ''c'' (set_f L ''type'' v x) = get_f L' ''c'' x"
    "get_f L' ''c'' (set_f L ''c'' v x) = take_bit 1 v" "get_f L' ''type'' (set_f L ''c'' v x) = get_f L' ''type'' x"
proof -
  have "field_from 0 K ''c'' = (96, 1)" "field_from 0 K ''type'' = (106, 6)" if "K \<in> set trb_layouts" for K
    using trb_layouts_places that by (auto simp: list_all_iff)
  note p = this [OF assms(1)] this [OF assms(2)]
  show "get_f L' ''type'' (set_f L ''type'' v x) = take_bit 6 v" "get_f L' ''c'' (set_f L ''c'' v x) = take_bit 1 v"
    using get_set_cast [OF p(2,4), of v x] get_set_cast [OF p(1,3), of v x] by simp_all
  show "get_f L' ''c'' (set_f L ''type'' v x) = get_f L' ''c'' x" "get_f L' ''type'' (set_f L ''c'' v x) = get_f L' ''type'' x"
    using get_set_field_other [OF p(2,3), of v x] get_set_field_other [OF p(1,4), of v x] by simp_all
qed

text \<open>
  C35: The packed structures have the sizes of the specifications (16 bytes for each TRB, 32 for each
  context; 18, 9, 9 and 7 for the descriptors) with distinct fields, and all thirteen TRB
  structures agree on the cycle bit and the type: assigned through one structure, they are read
  back through any other, which is how events are told apart before their kind is known.
\<close>
theorem trb_layouts_common:
  "list_all (\<lambda>L. struct_bits L = 128 \<and> distinct (map fst L)) trb_layouts \<and>
   list_all (\<lambda>L. struct_bits L = 256 \<and> distinct (map fst L)) [input_control_context, slot_context, endpoint_context] \<and>
   map struct_bits [device_descriptor, configuration_descriptor, interface_descriptor, endpoint_descriptor] = [144, 72, 72, 56] \<and>
   list_all (\<lambda>L. list_all (\<lambda>L'.
     get_f L' ''type'' (set_f L ''type'' v (x :: trb)) = take_bit 6 v \<and>
     get_f L' ''c'' (set_f L ''type'' v x) = get_f L' ''c'' x \<and>
     get_f L' ''c'' (set_f L ''c'' v x) = take_bit 1 v \<and>
     get_f L' ''type'' (set_f L ''c'' v x) = get_f L' ''type'' x) trb_layouts) trb_layouts"
proof (intro conjI)
  show "list_all (\<lambda>L. struct_bits L = 128 \<and> distinct (map fst L)) trb_layouts"
    using trb_layouts_places by (simp add: list_all_iff)
  show "list_all (\<lambda>L. struct_bits L = 256 \<and> distinct (map fst L)) [input_control_context, slot_context, endpoint_context]"
    by (simp add: struct_bits_def input_control_context_def slot_context_def endpoint_context_def)
  show "map struct_bits [device_descriptor, configuration_descriptor, interface_descriptor, endpoint_descriptor] = [144, 72, 72, 56]"
    by (simp add: struct_bits_def device_descriptor_def configuration_descriptor_def interface_descriptor_def endpoint_descriptor_def)
qed (simp add: list_all_iff type_any_layout)

end
