(* ===== verification/Segments.thy ===== *)
theory Segments
  imports Mem_Props Bitfields
begin

unbundle bit_operations_syntax

text \<open>
  The segment descriptors and the task state segment of kernel/gdt.c. The bit fields of the C
  structures are words of their width; \<open>seg_encode\<close> is the 64-bit descriptor the processor
  reads, with the fields in their order in the structure.
\<close>

subsection \<open>Descriptors\<close>

record segment_descriptor =
  limit_low :: u16
  base_low :: u16
  base_mid :: u8
  sd_type :: "4 word"
  sd_s :: "1 word"
  sd_dpl :: "2 word"
  sd_p :: "1 word"
  limit_high :: "4 word"
  sd_avl :: "1 word"
  sd_l :: "1 word"
  sd_db :: "1 word"
  sd_g :: "1 word"
  base_high :: u8

definition zero_segment :: segment_descriptor where
  "zero_segment = \<lparr>limit_low = 0, base_low = 0, base_mid = 0, sd_type = 0, sd_s = 0, sd_dpl = 0,
     sd_p = 0, limit_high = 0, sd_avl = 0, sd_l = 0, sd_db = 0, sd_g = 0, base_high = 0\<rparr>"

type_synonym gdt = "nat \<Rightarrow> segment_descriptor"

definition code_segment :: "u8 \<Rightarrow> u8 \<Rightarrow> u32 \<Rightarrow> u32 \<Rightarrow> segment_descriptor \<Rightarrow> segment_descriptor" where
  "code_segment type privilege_level base limit sd =
     sd\<lparr>base_low := ucast (base AND 0xffff), base_mid := ucast (drop_bit 16 base AND 0xff),
        base_high := ucast (drop_bit 24 base AND 0xff), limit_low := ucast (limit AND 0xffff),
        limit_high := ucast (drop_bit 16 limit AND 0x0f),
        sd_l := 1, sd_p := 1, sd_s := 1, sd_g := 1,
        sd_dpl := ucast privilege_level, sd_type := ucast type\<rparr>"

definition setCodeSegment :: "nat \<Rightarrow> u8 \<Rightarrow> u8 \<Rightarrow> u32 \<Rightarrow> u32 \<Rightarrow> gdt \<Rightarrow> gdt" where
  "setCodeSegment num type privilege_level base limit gdt =
     gdt(num := code_segment type privilege_level base limit (gdt num))"

definition setDataSegment :: "nat \<Rightarrow> u8 \<Rightarrow> u8 \<Rightarrow> u32 \<Rightarrow> u32 \<Rightarrow> gdt \<Rightarrow> gdt" where
  "setDataSegment num type privilege_level base limit gdt =
     (let gdt1 = setCodeSegment num type privilege_level base limit gdt
      in gdt1(num := (gdt1 num)\<lparr>sd_l := 0, sd_db := 1\<rparr>))"

definition setSystemSegment :: "nat \<Rightarrow> u8 \<Rightarrow> u8 \<Rightarrow> u32 \<Rightarrow> u32 \<Rightarrow> gdt \<Rightarrow> gdt" where
  "setSystemSegment num type privilege_level base limit gdt =
     (let gdt1 = setCodeSegment num type privilege_level base limit gdt
      in gdt1(num := (gdt1 num)\<lparr>sd_s := 0, sd_l := 0\<rparr>))"

text \<open>The fields of \<open>struct tss\<close> the kernel sets; all others stay 0, and the size is 104 bytes.\<close>

record tss =
  rsp0_low :: u32
  rsp0_high :: u32
  ist1_low :: u32
  ist1_high :: u32

definition sizeof_tss :: u32 where "sizeof_tss = 25 * 4 + 2 * 2"

record segments =
  seg_gdt :: gdt
  seg_tss :: tss
  gdtr_limit :: u16
  reg_ds :: u16
  reg_cs :: u16
  reg_ss :: u16
  reg_tr :: u16

text \<open>\<open>panic\<close> prints its message and halts for ever.\<close>

datatype panic = Panic string

definition low32 :: "u64 \<Rightarrow> u32" where "low32 a = ucast (a AND 0xffffffff)"
definition high32 :: "u64 \<Rightarrow> u32" where "high32 a = ucast (drop_bit 32 a AND 0xffffffff)"

text \<open>The flat segments, set up before the allocations.\<close>

definition flat_segments :: gdt where
  "flat_segments =
     setCodeSegment 4 0b1010 3 0 0xfffff
       (setDataSegment 3 0b0010 3 0 0xfffff
         (setDataSegment 2 0b0010 0 0 0xfffff
           (setCodeSegment 1 0b1010 0 0 0xfffff (\<lambda>_. zero_segment))))"

definition tss_segment :: "addr \<Rightarrow> gdt \<Rightarrow> gdt" where
  "tss_segment tss_addr gdt =
     (let gdt1 = setSystemSegment 5 0b1001 0 (low32 tss_addr) (sizeof_tss - 1) gdt
      in gdt1(6 := (gdt1 6)\<lparr>limit_low := ucast (drop_bit 32 tss_addr AND 0xffff),
                             base_low := ucast (drop_bit 48 tss_addr AND 0xffff)\<rparr>))"

definition init_segments ::
  "addr \<Rightarrow> mem_state \<Rightarrow> ((panic + segments) \<times> mem_state) option" where
  "init_segments tss_addr s =
     (case alloc_mem 2 s of
        None \<Rightarrow> None
      | Some (rsp0_stack, s1) \<Rightarrow>
          if rsp0_stack = 0 then Some (Inl (Panic ''rsp0_stack is NULL!''), s1)
          else case alloc_mem 2 s1 of
            None \<Rightarrow> None
          | Some (ist1_stack, s2) \<Rightarrow>
              if ist1_stack = 0 then Some (Inl (Panic ''ist1_stack is NULL!''), s2)
              else
                let rsp0_stack_addr = rsp0_stack + 8192 - 8;
                    ist1_stack_addr = ist1_stack + 8192 - 8
                in Some (Inr \<lparr>seg_gdt = tss_segment tss_addr flat_segments,
                      seg_tss = \<lparr>rsp0_low = low32 rsp0_stack_addr, rsp0_high = high32 rsp0_stack_addr,
                                 ist1_low = low32 ist1_stack_addr, ist1_high = high32 ist1_stack_addr\<rparr>,
                      gdtr_limit = 7 * 8 - 1, reg_ds = 0, reg_cs = 0x08, reg_ss = 0x10,
                      reg_tr = push_bit 3 5\<rparr>, s2))"

subsection \<open>What the processor reads\<close>

definition seg_encode :: "segment_descriptor \<Rightarrow> u64" where
  "seg_encode d =
     ucast (limit_low d) OR push_bit 16 (ucast (base_low d)) OR push_bit 32 (ucast (base_mid d)) OR
     push_bit 40 (ucast (sd_type d)) OR push_bit 44 (ucast (sd_s d)) OR push_bit 45 (ucast (sd_dpl d)) OR
     push_bit 47 (ucast (sd_p d)) OR push_bit 48 (ucast (limit_high d)) OR push_bit 52 (ucast (sd_avl d)) OR
     push_bit 53 (ucast (sd_l d)) OR push_bit 54 (ucast (sd_db d)) OR push_bit 55 (ucast (sd_g d)) OR
     push_bit 56 (ucast (base_high d))"

text \<open>
  The base of a 16-byte system descriptor: bits 16 to 39 and 56 to 63 of the first half, and the
  low 32 bits of the second half.
\<close>

definition system_base :: "u64 \<Rightarrow> u64 \<Rightarrow> u64" where
  "system_base lo hi =
     bf_get 16 24 lo OR push_bit 24 (bf_get 56 8 lo) OR push_bit 32 (bf_get 0 32 hi)"

text \<open>The base bits of an encoded descriptor are those of its three base fields.\<close>

lemma seg_encode_base:
  "bf_get 16 24 (seg_encode d) = ucast (base_low d) OR push_bit 16 (ucast (base_mid d))"
  "bf_get 56 8 (seg_encode d) = ucast (base_high d)"
  by (simp_all add: seg_encode_def layout_simps bf_get_low)

lemma tss_segment_base:
  assumes "g 6 = zero_segment"
  shows "system_base (seg_encode (tss_segment a g 5)) (seg_encode (tss_segment a g 6)) = a"
proof -
  define lo where "lo = tss_segment a g 5"
  have f: "base_low lo = ucast (take_bit 16 a)" "base_mid lo = ucast (take_bit 8 (drop_bit 16 a))"
    "base_high lo = ucast (take_bit 8 (drop_bit 24 a))"
    unfolding lo_def
    by (rule bit_word_eqI, auto simp: tss_segment_def Let_def setSystemSegment_def setCodeSegment_def
        code_segment_def low32_def mask_simps bit_simps)+
  have hi: "bf_get 0 32 (seg_encode (tss_segment a g 6)) = take_bit 32 (drop_bit 32 a)"
    by (rule bit_word_eqI) (auto simp: tss_segment_def Let_def assms zero_segment_def seg_encode_def
        setSystemSegment_def setCodeSegment_def bit_bf_get mask_simps bit_simps)
  have "bit (system_base (seg_encode lo) (seg_encode (tss_segment a g 6))) n = bit a n" for n
    unfolding system_base_def seg_encode_base hi f
    by (cases "32 \<le> n"; cases "24 \<le> n") (auto simp: bit_simps bit_beyond)
  then show ?thesis unfolding lo_def by (intro bit_word_eqI)
qed

text \<open>A stack pointer of the task state segment, as the processor loads it.\<close>

definition stack_pointer :: "u32 \<Rightarrow> u32 \<Rightarrow> u64" where
  "stack_pointer lo hi = ucast lo OR push_bit 32 (ucast hi)"

lemma stack_pointer_split: "stack_pointer (low32 a) (high32 a) = a"
proof (rule bit_word_eqI)
  fix n
  show "bit (stack_pointer (low32 a) (high32 a)) n = bit a n"
    by (cases "32 \<le> n")
      (auto simp: stack_pointer_def low32_def high32_def mask_simps bit_simps dest: bit_imp_le_length)
qed

text \<open>
  Null, kernel code (64 bit), kernel data, user data, user code: the flat descriptors, before
  and after the system segment is added behind them.
\<close>

lemma flat_encodings:
  "seg_encode (flat_segments 0) = 0" "seg_encode (flat_segments 1) = 0x00af9a000000ffff"
  "seg_encode (flat_segments 2) = 0x00cf92000000ffff" "seg_encode (flat_segments 3) = 0x00cff2000000ffff"
  "seg_encode (flat_segments 4) = 0x00affa000000ffff" "flat_segments 6 = zero_segment"
  by (simp_all add: flat_segments_def setDataSegment_def setCodeSegment_def code_segment_def
      zero_segment_def seg_encode_def Let_def)

lemma tss_segment_other: "n < 5 \<Longrightarrow> tss_segment a g n = g n"
  by (auto simp: tss_segment_def setSystemSegment_def setCodeSegment_def Let_def)

text \<open>Two pages are found wherever a block has them; and four pages serve two requests.\<close>

lemma alloc_two_fails:
  assumes "alloc_mem 2 s = Some (0, s')" and "alloc_inv s bs" and "(a, n) \<in> set bs"
  shows "unat n < 2"
proof (rule ccontr)
  assume "\<not> unat n < 2"
  with assms(3) have "abs_alloc 2 bs \<noteq> None"
    by (auto simp: abs_alloc_None word_less_nat_alt)
  then obtain r bs' where al: "abs_alloc 2 bs = Some (r, bs')" by auto
  have "wf_blocks bs" using assms(2) by (simp add: alloc_inv_def)
  with alloc_mem_Some [OF assms(2) _ _ al] abs_alloc_Some [OF al] assms(1) show False by auto
qed

lemma abs_alloc_leaves:
  "abs_alloc p bs = Some (r, bs') \<Longrightarrow> (a, n) \<in> set bs \<Longrightarrow> 2 * unat p \<le> unat n \<Longrightarrow> p \<noteq> 0 \<Longrightarrow>
   \<exists>b k. (b, k) \<in> set bs' \<and> unat p \<le> unat k"
proof (induction bs arbitrary: bs')
  case (Cons c bs)
  obtain d m where c: "c = (d, m)" by force
  have np: "n \<noteq> p" using Cons.prems by (auto simp: unat_eq_0)
  consider "m = p" | "m \<noteq> p" "p \<le> m" | "m \<noteq> p" "\<not> p \<le> m" by blast
  then show ?case
  proof cases
    case 1
    with Cons.prems c np show ?thesis by (intro exI [of _ a] exI [of _ n]) auto
  next
    case 2
    then have "unat (m - p) = unat m - unat p" by (intro unat_sub_exact)
    moreover have "(d, m) = (a, n) \<or> (a, n) \<in> set bs" using Cons.prems c by auto
    moreover have "bs' = (d + bytes32 p, m - p) # bs" using Cons.prems 2 c by auto
    ultimately show ?thesis
      using Cons.prems(3) by (elim disjE) force+
  next
    case 3
    then have "n \<noteq> m" using Cons.prems by (auto simp: word_le_nat_alt)
    with 3 Cons c show ?thesis by auto blast
  qed
qed simp

lemma alloc_two_leaves:
  assumes "alloc_mem 2 s = Some (r, s1)" and "r \<noteq> 0"
    and "alloc_inv s bs" and "(a, n) \<in> set bs" and "4 \<le> unat n"
  shows "\<exists>bs' b k. alloc_inv s1 bs' \<and> (b, k) \<in> set bs' \<and> 2 \<le> unat k"
proof -
  have "\<not> n < 2" using assms(5) by (simp add: word_less_nat_alt)
  then have "abs_alloc 2 bs \<noteq> None" using assms(4) unfolding abs_alloc_None by blast
  then obtain r' bs' where al: "abs_alloc 2 bs = Some (r', bs')" by auto
  with alloc_mem_Some [OF assms(3) _ _ al] assms(1) have "alloc_inv s1 bs'" by auto
  moreover have "\<exists>b k. (b, k) \<in> set bs' \<and> unat (2 :: u32) \<le> unat k"
    using abs_alloc_leaves [OF al assms(4)] assms(5) by simp
  ultimately show ?thesis by auto
qed

text \<open>How \<open>init_segments\<close> ends: in a panic, or with two stacks.\<close>

lemma init_segments_ends:
  assumes "owns s F"
  obtains (no_stack) msg s' where "init_segments tss_addr s = Some (Inl msg, s')"
      "\<not> (\<exists>bs a n. alloc_inv s bs \<and> (a, n) \<in> set bs \<and> 4 \<le> unat n)"
  | (stacks) g r1 r2 s' where "init_segments tss_addr s = Some (Inr g, s')" "seg_gdt g = tss_segment tss_addr flat_segments"
      "seg_tss g = \<lparr>rsp0_low = low32 (r1 + 8184), rsp0_high = high32 (r1 + 8184),
         ist1_low = low32 (r2 + 8184), ist1_high = high32 (r2 + 8184)\<rparr>"
      "bytes_at r1 8192 \<subseteq> F" "bytes_at r2 8192 \<subseteq> F" "bytes_at r1 8192 \<inter> bytes_at r2 8192 = {}"
      "owns s' (F - bytes_at r1 8192 - bytes_at r2 8192)" "\<And>x. x \<notin> F \<Longrightarrow> heap s' x = heap s x"
proof -
  have two: "(2 :: u32) \<noteq> 0" "unat (2 :: u32) < 2 ^ 20" by simp_all
  obtain r1 s1 where a1: "alloc_mem 2 s = Some (r1, s1)" using pages.alloc_returns [OF assms two] by blast
  show thesis
  proof (cases "r1 = 0")
    case True
    have "\<not> (\<exists>bs a n. alloc_inv s bs \<and> (a, n) \<in> set bs \<and> 4 \<le> unat n)"
      using alloc_two_fails [of s s1] a1 True by fastforce
    with a1 True show ?thesis by (intro no_stack) (simp_all add: init_segments_def)
  next
    case r1: False
    have b1: "bytes_at r1 8192 \<subseteq> F" "owns s1 (F - bytes_at r1 8192)" "\<forall>x. x \<notin> F \<longrightarrow> heap s1 x = heap s x"
      using pages.alloc_block [OF assms two a1 r1] by simp_all
    obtain r2 s2 where a2: "alloc_mem 2 s1 = Some (r2, s2)"
      using pages.alloc_returns [OF b1(2) two] by blast
    show ?thesis
    proof (cases "r2 = 0")
      case True
      have "\<not> (\<exists>bs a n. alloc_inv s bs \<and> (a, n) \<in> set bs \<and> 4 \<le> unat n)"
        using alloc_two_leaves [OF a1 r1] alloc_two_fails [of s1 s2] a2 True by fastforce
      with a1 a2 r1 True show ?thesis by (intro no_stack) (simp_all add: init_segments_def)
    next
      case r2: False
      have b2: "bytes_at r2 8192 \<subseteq> F - bytes_at r1 8192" "owns s2 (F - bytes_at r1 8192 - bytes_at r2 8192)"
        "\<forall>x. x \<notin> F - bytes_at r1 8192 \<longrightarrow> heap s2 x = heap s1 x"
        using pages.alloc_block [OF b1(2) two a2 r2] by simp_all
      have d: "bytes_at r1 8192 \<inter> bytes_at r2 8192 = {}"
        using pages.alloc_twice_disjoint [OF assms two two a1 r1 a2 r2] by simp
      have off: "r + 8192 - 8 = r + 8184" for r :: addr by simp
      show ?thesis
        by (rule stacks [of _ s2 r1 r2]) (use a1 a2 r1 r2 off b1 b2 d in \<open>auto simp: init_segments_def Let_def add.commute [of 8184] simp del: add_diff_eq\<close>)
    qed
  qed
qed

text \<open>
  C20: \<open>init_segments\<close> does not panic when some free block has four pages. Otherwise the descriptor table holds the
  flat code and data segments of both privilege levels and a system segment whose base is the
  task state segment, and the two stacks are separate two-page blocks taken from the allocator,
  with both stack pointers 8 bytes below the end of their blocks.
\<close>

theorem init_segments_spec:
  assumes "owns s F"
  shows "\<exists>res s'. init_segments tss_addr s = Some (res, s') \<and>
    ((\<exists>bs a n. alloc_inv s bs \<and> (a, n) \<in> set bs \<and> 4 \<le> unat n) \<longrightarrow> (\<exists>g. res = Inr g)) \<and>
    (\<forall>g. res = Inr g \<longrightarrow>
      map (\<lambda>i. seg_encode (seg_gdt g i)) [0..<5] =
        [0, 0x00af9a000000ffff, 0x00cf92000000ffff, 0x00cff2000000ffff, 0x00affa000000ffff] \<and>
      system_base (seg_encode (seg_gdt g 5)) (seg_encode (seg_gdt g 6)) = tss_addr \<and>
      (\<exists>r1 r2. stack_pointer (rsp0_low (seg_tss g)) (rsp0_high (seg_tss g)) = r1 + 8184 \<and>
        stack_pointer (ist1_low (seg_tss g)) (ist1_high (seg_tss g)) = r2 + 8184 \<and>
        bytes_at r1 8192 \<subseteq> F \<and> bytes_at r2 8192 \<subseteq> F \<and> bytes_at r1 8192 \<inter> bytes_at r2 8192 = {} \<and>
        owns s' (F - bytes_at r1 8192 - bytes_at r2 8192)))"
  using assms
proof (cases rule: init_segments_ends [where tss_addr = tss_addr])
  case (stacks g r1 r2 s')
  have up: "[0..<5] = [0, 1, 2, 3, 4]" by (simp add: upt_rec)
  have "map (\<lambda>i. seg_encode (seg_gdt g i)) [0..<5] =
      [0, 0x00af9a000000ffff, 0x00cf92000000ffff, 0x00cff2000000ffff, 0x00affa000000ffff]"
    unfolding up stacks(2) by (simp add: tss_segment_other flat_encodings del: One_nat_def)
  moreover have "system_base (seg_encode (seg_gdt g 5)) (seg_encode (seg_gdt g 6)) = tss_addr"
    unfolding stacks(2) by (rule tss_segment_base) (rule flat_encodings(6))
  moreover have "stack_pointer (rsp0_low (seg_tss g)) (rsp0_high (seg_tss g)) = r1 + 8184"
    "stack_pointer (ist1_low (seg_tss g)) (ist1_high (seg_tss g)) = r2 + 8184"
    by (simp_all add: stacks(3) stack_pointer_split)
  ultimately show ?thesis
    using stacks(4-7)
    by (intro exI [of _ "Inr g"] exI [of _ s'] conjI stacks(1) impI allI exI [of _ g] refl) auto
qed simp

theorem init_segments_spec_witness:
  "\<exists>g s' F'. init_segments 0xffff800000010000 (lay demo_blocks) = Some (Inr g, s') \<and> owns s' F' \<and>
     system_base (seg_encode (seg_gdt g 5)) (seg_encode (seg_gdt g 6)) = 0xffff800000010000"
proof -
  have inv: "alloc_inv (lay demo_blocks) demo_blocks" by (rule lay_inv [OF demo_blocks_wf])
  then have o: "owns (lay demo_blocks) (free_bytes demo_blocks)" by (auto simp: owns_def)
  have "(0xffff806000100000, 8) \<in> set demo_blocks" "4 \<le> unat (8 :: u32)" by (simp_all add: demo_blocks_def)
  with inv init_segments_spec [OF o, of "0xffff800000010000"] show ?thesis by blast
qed

end
