(* ===== verification/Fifo_Contract.thy ===== *)
theory Fifo_Contract
  imports Main
begin

text \<open>
  The contract of a bounded first-in first-out queue between a producer, whose \<open>put\<close> changes the
  shared state, and a consumer, whose \<open>get\<close> only moves its own position. \<open>holds p s q\<close> says that
  for a consumer at \<open>p\<close> the state \<open>s\<close> holds the items \<open>q\<close>.
\<close>

datatype 'a queue_op = Put 'a | Get

text \<open>Producer and consumer in any order, with what each \<open>Get\<close> returns; and the same on a list.\<close>

fun run_ops :: "('a \<Rightarrow> 's \<Rightarrow> 's) \<Rightarrow> ('p \<Rightarrow> 's \<Rightarrow> ('a \<times> 'p) option) \<Rightarrow> 'a queue_op list \<Rightarrow> 'p \<Rightarrow> 's \<Rightarrow> 'a option list" where
  "run_ops put get [] p s = []"
| "run_ops put get (Put x # ops) p s = run_ops put get ops p (put x s)"
| "run_ops put get (Get # ops) p s =
     (case get p s of None \<Rightarrow> None # run_ops put get ops p s | Some (x, p') \<Rightarrow> Some x # run_ops put get ops p' s)"

fun run_queue :: "'a queue_op list \<Rightarrow> 'a list \<Rightarrow> 'a option list" where
  "run_queue [] q = []"
| "run_queue (Put x # ops) q = run_queue ops (q @ [x])"
| "run_queue (Get # ops) [] = None # run_queue ops []"
| "run_queue (Get # ops) (x # q) = Some x # run_queue ops q"

text \<open>At most \<open>n\<close> items wait at any time.\<close>

fun within :: "nat \<Rightarrow> 'a queue_op list \<Rightarrow> nat \<Rightarrow> bool" where
  "within n [] k = True"
| "within n (Put x # ops) k = (k < n \<and> within n ops (Suc k))"
| "within n (Get # ops) k = within n ops (k - 1)"

fun op_item :: "('a \<Rightarrow> bool) \<Rightarrow> 'a queue_op \<Rightarrow> bool" where
  "op_item P (Put x) = P x"
| "op_item P Get = True"

locale fifo =
  fixes put :: "'a \<Rightarrow> 's \<Rightarrow> 's"
    and get :: "'p \<Rightarrow> 's \<Rightarrow> ('a \<times> 'p) option"
    and holds :: "'p \<Rightarrow> 's \<Rightarrow> 'a list \<Rightarrow> bool"
    and item :: "'a \<Rightarrow> bool"
    and capacity :: nat
  assumes put_holds: "holds p s q \<Longrightarrow> item x \<Longrightarrow> length q < capacity \<Longrightarrow> holds p (put x s) (q @ [x])"
    and get_none: "holds p s [] \<Longrightarrow> get p s = None"
    and get_some: "holds p s (x # q) \<Longrightarrow> \<exists>p'. get p s = Some (x, p') \<and> holds p' s q"
begin

lemma puts_hold:
  assumes "holds p s q" "list_all item xs" "length q + length xs \<le> capacity"
  shows "holds p (fold put xs s) (q @ xs)"
  using assms
proof (induction xs arbitrary: s q)
  case (Cons x xs)
  then have "holds p (put x s) (q @ [x])" by (intro put_holds) simp_all
  from Cons.IH [OF this] Cons.prems show ?case by simp
qed simp

lemma run_refines:
  assumes "holds p s q" "within capacity ops (length q)" "list_all (op_item item) ops"
  shows "run_ops put get ops p s = run_queue ops q"
  using assms
proof (induction ops arbitrary: p s q)
  case (Cons a ops)
  show ?case
  proof (cases a)
    case (Put x)
    then have "holds p (put x s) (q @ [x])" using Cons.prems by (intro put_holds) simp_all
    from Cons.IH [OF this] show ?thesis using Put Cons.prems by simp
  next
    case Get
    show ?thesis
    proof (cases q)
      case Nil
      then show ?thesis using Get Cons get_none by simp
    next
      case (Cons y q')
      then obtain p' where "get p s = Some (y, p')" "holds p' s q'" using Cons.prems(1) get_some by blast
      then show ?thesis using Get Cons Cons.prems Cons.IH [of p' s q'] by simp
    qed
  qed
qed simp

end

end
