(* ===== verification/Ring.thy ===== *)
theory Ring
  imports Trb Page_Alloc Segments Fifo_Contract
begin

unbundle bit_operations_syntax

text \<open>
  The transfer request rings of kernel/xhci.c (\<open>struct ring\<close> of include/usb.h): \<open>new_ring\<close>,
  \<open>write_ring_static\<close> and \<open>write_ring\<close>, which the command ring and the transfer rings share. The
  specification is the controller's side of a ring, from the xHCI specification, and a first-in
  first-out queue: the locale \<open>fifo\<close> states what a producer and a consumer promise each other.
\<close>

subsection \<open>The code\<close>

record ring =
  rbuf :: addr
  cycle_bit :: bool
  ring_size :: int
  ring_index :: int

text \<open>A \<open>struct ring\<close> that lives in memory.\<close>

definition read_ring :: "mem \<Rightarrow> addr \<Rightarrow> ring" where
  "read_ring h p = \<lparr>rbuf = read64 h p, cycle_bit = (h (p + 8) \<noteq> 0),
     ring_size = sint (read32 h (p + 12)), ring_index = sint (read32 h (p + 16))\<rparr>"

definition store_ring :: "addr \<Rightarrow> ring \<Rightarrow> mem \<Rightarrow> mem" where
  "store_ring p r h =
     write32 (p + 16) (word_of_int (ring_index r)) (write32 (p + 12) (word_of_int (ring_size r))
       ((write64 p (rbuf r) h)(p + 8 := of_bool (cycle_bit r))))"

definition dword :: "nat \<Rightarrow> trb \<Rightarrow> u32" where
  "dword i data = ucast (drop_bit (32 * i) data)"

definition write_ring_static :: "addr \<Rightarrow> int \<Rightarrow> trb \<Rightarrow> bool \<Rightarrow> mem \<Rightarrow> mem" where
  "write_ring_static ring index data cycle h =
     (let trb = ring + 4 * (word_of_int index * 4);
          h = fold (\<lambda>i. write32 (trb + 4 * word_of_nat i) (dword i data)) [0..<3] h
      in write32 (trb + 4 * 3) (dword 3 data OR of_bool cycle) h)"

definition ring_link :: "addr \<Rightarrow> trb" where
  "ring_link buf = set_f link_trb ''tc'' 1 (set_f link_trb ''type'' 6 (set_f link_trb ''ring_ptr'' (v2p buf) 0))"

definition write_ring :: "trb \<Rightarrow> ring \<times> mem \<Rightarrow> ring \<times> mem" where
  "write_ring data = (\<lambda>(ring, h).
     let h = write_ring_static (rbuf ring) (ring_index ring) data (cycle_bit ring) h;
         ring = ring\<lparr>ring_index := ring_index ring + 1\<rparr>
     in if ring_index ring = ring_size ring - 1
        then (ring\<lparr>ring_index := 0, cycle_bit := \<not> cycle_bit ring\<rparr>,
              write_ring_static (rbuf ring) (ring_index ring) (ring_link (rbuf ring)) (cycle_bit ring) h)
        else (ring, h))"

text \<open>A write through a pointer to the structure.\<close>

definition write_ring_at :: "addr \<Rightarrow> trb \<Rightarrow> mem \<Rightarrow> mem" where
  "write_ring_at p data h = (case write_ring data (read_ring h p, h) of (r, h) \<Rightarrow> store_ring p r h)"

definition new_ring :: "mem_state \<Rightarrow> ((panic + ring) \<times> mem_state) option" where
  "new_ring s =
     (case alloc_mem 1 s of
        None \<Rightarrow> None
      | Some (ring_buf, s) \<Rightarrow>
          if ring_buf = 0 then Some (Inl (Panic ''alloc_mem failed!''), s)
          else Some (Inr \<lparr>rbuf = ring_buf, cycle_bit = True, ring_size = 4096 div 16, ring_index = 0\<rparr>,
                     s\<lparr>heap := memset ring_buf 0 4096 (heap s)\<rparr>))"

subsection \<open>A slot\<close>

definition trb_at :: "mem \<Rightarrow> addr \<Rightarrow> trb" where "trb_at h a = load_struct h a"

definition trb_addr :: "addr \<Rightarrow> nat \<Rightarrow> addr" where "trb_addr b i = b + 16 * word_of_nat i"

lemma load_add: "load (m + n) h a = load m h a + 256 ^ m * load n h (a + word_of_nat m)"
  by (induction m arbitrary: a) (simp_all add: algebra_simps)

lemma load4_write32:
  "load 4 (write32 a v h) a = unat v"
  "bytes_at a 4 \<inter> bytes_at b 4 = {} \<Longrightarrow> load 4 (write32 b v h) a = load 4 h a"
  using unat_u32_lt [of v] by (simp_all add: write32_def load_store_same load_store_other)

lemma unat_dword: "unat (dword i d) = unat d div 2 ^ (32 * i) mod 2 ^ 32"
proof -
  have "unat (drop_bit (32 * i) d) = unat d div 2 ^ (32 * i)"
    by (subst unsigned_drop_bit_eq) (subst take_bit_nat_eq_self [OF unat_lt_pow], rule drop_bit_eq_div)
  then show ?thesis by (simp add: dword_def unsigned_ucast_eq take_bit_eq_mod)
qed

lemma four_digits:
  assumes "n < B * (B * (B * B))"
  shows "n mod B + B * (n div B mod B + B * (n div (B * B) mod B + B * (n div (B * (B * B)) mod B))) = (n :: nat)"
proof -
  have s: "m mod B + B * (m div B) = m" for m by simp
  have "n div (B * (B * B)) mod B = n div (B * (B * B))"
    using assms by (intro mod_less) (simp add: less_mult_imp_div_less mult_ac)
  then show ?thesis using s [of n] s [of "n div B"] s [of "n div (B * B)"] by (simp add: div_mult2_eq mult_ac)
qed

lemma dwords_sum:
  "unat (dword 0 d) + 2 ^ 32 * (unat (dword 1 d) + 2 ^ 32 * (unat (dword 2 d) + 2 ^ 32 * unat (dword 3 d))) = unat d"
  using four_digits [of "unat d" "2 ^ 32"] unat_lt_pow [of d] by (simp add: unat_dword)

lemma dword_cycle:
  "dword 0 (d OR push_bit 96 (of_bool c)) = dword 0 d" "dword 1 (d OR push_bit 96 (of_bool c)) = dword 1 d"
  "dword 2 (d OR push_bit 96 (of_bool c)) = dword 2 d"
  "dword 3 (d OR push_bit 96 (of_bool c)) = dword 3 d OR of_bool c"
  by (rule bit_word_eqI; auto simp: dword_def bit_simps)+

lemma four_words:
  assumes "unat a + 16 \<le> 2 ^ 64"
  shows "load 16 (write32 (a + 12) w (write32 (a + 8) z (write32 (a + 4) y (write32 a x h)))) a =
    unat x + 2 ^ 32 * (unat y + 2 ^ 32 * (unat z + 2 ^ 32 * unat w))"
proof -
  have u: "unat (a + 4) = unat a + 4" "unat (a + 8) = unat a + 8" "unat (a + 12) = unat a + 12"
    using assms unat_add_of_nat [of a 4] unat_add_of_nat [of a 8] unat_add_of_nat [of a 12] by simp_all
  have "bytes_at a 4 \<inter> bytes_at (a + 4) 4 = {}" "bytes_at a 4 \<inter> bytes_at (a + 8) 4 = {}"
    "bytes_at a 4 \<inter> bytes_at (a + 12) 4 = {}" "bytes_at (a + 4) 4 \<inter> bytes_at (a + 8) 4 = {}"
    "bytes_at (a + 4) 4 \<inter> bytes_at (a + 12) 4 = {}" "bytes_at (a + 8) 4 \<inter> bytes_at (a + 12) 4 = {}"
    using assms u by (intro bytes_at_disjoint; simp)+
  then show ?thesis
    using load_add [of 4 12 _ a] load_add [of 4 8 _ "a + 4"] load_add [of 4 4 _ "a + 8"]
    by (simp add: load4_write32 add.assoc)
qed

lemma write_ring_static_eq:
  "write_ring_static b (int k) d c h =
     (let a = trb_addr b k in write32 (a + 12) (dword 3 d OR of_bool c)
       (write32 (a + 8) (dword 2 d) (write32 (a + 4) (dword 1 d) (write32 a (dword 0 d) h))))"
proof -
  have "[0..<3] = [0, 1, 2]" by (simp add: upt_rec)
  then show ?thesis by (simp add: write_ring_static_def trb_addr_def Let_def)
qed

text \<open>The entry that is written, and what stays.\<close>

lemma trb_at_write:
  assumes "unat (trb_addr b k) + 16 \<le> 2 ^ 64"
  shows "trb_at (write_ring_static b (int k) d c h) (trb_addr b k) = d OR push_bit 96 (of_bool c)"
proof -
  let ?d = "d OR push_bit 96 (of_bool c)"
  have "load 16 (write32 (trb_addr b k + 12) (dword 3 ?d) (write32 (trb_addr b k + 8) (dword 2 ?d)
      (write32 (trb_addr b k + 4) (dword 1 ?d) (write32 (trb_addr b k) (dword 0 ?d) h)))) (trb_addr b k) = unat ?d"
    unfolding four_words [OF assms] by (rule dwords_sum)
  then have "load 16 (write_ring_static b (int k) d c h) (trb_addr b k) = unat ?d"
    unfolding write_ring_static_eq Let_def dword_cycle .
  then show ?thesis unfolding trb_at_def load_struct_def by simp
qed

lemma write_ring_static_other:
  assumes "x \<notin> bytes_at (trb_addr b k) 16"
  shows "write_ring_static b (int k) d c h x = h x"
proof -
  let ?a = "trb_addr b k"
  have "bytes_at ?a 4 \<subseteq> bytes_at ?a 16" "bytes_at (?a + 4) 4 \<subseteq> bytes_at ?a 16"
    "bytes_at (?a + 8) 4 \<subseteq> bytes_at ?a 16" "bytes_at (?a + 12) 4 \<subseteq> bytes_at ?a 16"
    using bytes_at_shift [of 0 4 16 ?a] bytes_at_shift [of 4 4 16 ?a] bytes_at_shift [of 8 4 16 ?a]
      bytes_at_shift [of 12 4 16 ?a] by simp_all
  with assms have "x \<notin> bytes_at ?a 4" "x \<notin> bytes_at (?a + 4) 4" "x \<notin> bytes_at (?a + 8) 4" "x \<notin> bytes_at (?a + 12) 4"
    by blast+
  then show ?thesis unfolding write_ring_static_eq Let_def by (simp only: write32_other not_False_eq_True)
qed

lemma trb_at_cong: "(\<And>x. x \<in> bytes_at a 16 \<Longrightarrow> h' x = h x) \<Longrightarrow> trb_at h' a = trb_at h a"
  unfolding trb_at_def load_struct_def by (rule arg_cong [where f = word_of_nat], rule load_cong) simp

text \<open>A ring occupies a page of the direct window.\<close>

definition ring_page :: "addr \<Rightarrow> bool" where
  "ring_page b \<longleftrightarrow> PAGE_OFFSET \<le> b \<and> 4096 dvd unat b \<and> unat b + 4096 \<le> 2 ^ 64"

lemma unat_trb_addr: "ring_page b \<Longrightarrow> k < 256 \<Longrightarrow> unat (trb_addr b k) = unat b + 16 * k"
  using unat_add_of_nat [of b "16 * k"] by (simp add: trb_addr_def ring_page_def)

lemma slots_disjoint:
  assumes "ring_page b" "i < 256" "j < 256" "i \<noteq> j"
  shows "bytes_at (trb_addr b i) 16 \<inter> bytes_at (trb_addr b j) 16 = {}"
  using assms unat_trb_addr [of b] by (intro bytes_at_disjoint) (auto simp: ring_page_def)

lemma trb_at_write_slot:
  assumes "ring_page b" "i < 256" "k < 256"
  shows "trb_at (write_ring_static b (int k) d c h) (trb_addr b i) =
    (if i = k then d OR push_bit 96 (of_bool c) else trb_at h (trb_addr b i))"
proof (cases "i = k")
  case True
  then show ?thesis using assms by (simp add: trb_at_write unat_trb_addr ring_page_def)
next
  case False
  then show ?thesis
    using slots_disjoint [OF assms(1-3)] by (auto intro!: trb_at_cong write_ring_static_other)
qed

subsection \<open>The controller's side\<close>

text \<open>
  The layout the xHCI specification gives a TRB: the cycle bit is bit 96, the type bits 106 to 111;
  a link (type 6) has the next segment in its first eight bytes and the toggle bit at 97. The
  controller's position is a physical address and its cycle state; it fetches an entry when the
  cycle bit is its own, following a link to the entry behind.
\<close>

type_synonym trb_pos = "u64 \<times> bool"

definition trb_cycle :: "trb \<Rightarrow> bool" where "trb_cycle t \<longleftrightarrow> bit t 96"
definition trb_kind :: "trb \<Rightarrow> u8" where "trb_kind t = ucast (take_bit 6 (drop_bit 106 t))"
definition link_target :: "trb \<Rightarrow> u64" where "link_target t = ucast t AND NOT 0xf"
definition link_toggle :: "trb \<Rightarrow> bool" where "link_toggle t \<longleftrightarrow> bit t 97"
definition payload :: "trb \<Rightarrow> trb" where "payload t = unset_bit 96 t"

definition fetch_entry :: "trb_pos \<Rightarrow> mem \<Rightarrow> trb option" where
  "fetch_entry pos h =
     (let t = trb_at h (P2V (fst pos)) in if trb_cycle t = snd pos then Some t else None)"

definition fetch_trb :: "trb_pos \<Rightarrow> ring \<times> mem \<Rightarrow> (trb \<times> trb_pos) option" where
  "fetch_trb pos s =
     (case fetch_entry pos (snd s) of
        None \<Rightarrow> None
      | Some t \<Rightarrow>
          if trb_kind t = 6 then
            let pos' = (link_target t, snd pos \<noteq> link_toggle t)
            in map_option (\<lambda>t'. (payload t', fst pos' + 16, snd pos')) (fetch_entry pos' (snd s))
          else Some (payload t, fst pos + 16, snd pos))"

text \<open>What may be enqueued: anything but a link, its cycle bit still clear.\<close>

definition trb_item :: "trb \<Rightarrow> bool" where
  "trb_item t \<longleftrightarrow> \<not> trb_cycle t \<and> trb_kind t \<noteq> 6"

lemma cycle_of_write [simp]: "\<not> trb_cycle d \<Longrightarrow> trb_cycle (d OR push_bit 96 (of_bool c)) = c"
  by (simp add: trb_cycle_def bit_simps)

lemma payload_of_write [simp]: "\<not> trb_cycle d \<Longrightarrow> payload (d OR push_bit 96 (of_bool c)) = d"
  by (rule bit_word_eqI) (auto simp: payload_def trb_cycle_def bit_simps bit_unset_bit_iff)

lemma kind_payload: "trb_kind (payload t) = trb_kind t" "link_target (payload t) = link_target t"
  "link_toggle (payload t) = link_toggle t" "\<not> trb_cycle (payload t)"
proof -
  show "trb_kind (payload t) = trb_kind t" "link_target (payload t) = link_target t"
    unfolding trb_kind_def link_target_def payload_def
    by (rule bit_word_eqI; auto simp: bit_simps bit_unset_bit_iff)+
  show "link_toggle (payload t) = link_toggle t" "\<not> trb_cycle (payload t)"
    by (simp_all add: link_toggle_def trb_cycle_def payload_def bit_unset_bit_iff)
qed

lemma bit_6_int: "bit (6 :: int) j \<longleftrightarrow> j = 1 \<or> j = 2"
proof -
  have "(6 :: int) = push_bit 1 (mask 2)" by (simp add: mask_eq_exp_minus_1)
  then show ?thesis by (simp only: bit_push_bit_iff_int bit_mask_iff) auto
qed

lemma ring_link_fields:
  assumes "16 dvd unat (v2p b)"
  shows "\<not> trb_cycle (ring_link b)" "trb_kind (ring_link b) = 6" "link_target (ring_link b) = v2p b"
    "link_toggle (ring_link b)"
proof -
  have bits: "bit (ring_link b) i \<longleftrightarrow> i < 128 \<and> (i = 97 \<or> i = 107 \<or> i = 108 \<or> i < 64 \<and> bit (v2p b) i)" for i
  proof -
    show ?thesis
      by (auto simp: ring_link_def set_f_def link_trb_def bit_bf_set bit_ucast_iff bit_6_int bit_1_iff dest: bit_imp_le_length)
  qed
  show "\<not> trb_cycle (ring_link b)" "link_toggle (ring_link b)" by (simp_all add: trb_cycle_def link_toggle_def bits)
  show "trb_kind (ring_link b) = 6"
    unfolding trb_kind_def by (rule bit_word_eqI) (auto simp: bit_simps bits bit_6_int)
  have low: "4 \<le> i" if "bit (v2p b) i" for i
    using aligned_bits [of 4 "v2p b" i] assms that by (simp add: not_less [symmetric]) blast
  have f: "(0xf :: u64) = mask 4" by (simp add: mask_eq_exp_minus_1)
  show "link_target (ring_link b) = v2p b"
    unfolding link_target_def f by (rule bit_word_eqI) (use low in \<open>auto simp: bit_simps bits not_less\<close>)
qed

subsection \<open>Producer and controller\<close>

definition entry :: "ring \<Rightarrow> mem \<Rightarrow> nat \<Rightarrow> trb" where
  "entry r h i = trb_at h (trb_addr (rbuf r) i)"

definition ring_ok :: "ring \<Rightarrow> bool" where
  "ring_ok r \<longleftrightarrow> ring_page (rbuf r) \<and> ring_size r = 256 \<and> 0 \<le> ring_index r \<and> ring_index r < 255"

text \<open>
  A controller at entry \<open>ci\<close> with cycle state \<open>ccs\<close>: on the producer's lap it has the entries up to
  the producer's index before it, on the lap before the entries to the end of the ring, the link,
  and the entries from the beginning.
\<close>

definition same_lap :: "nat \<Rightarrow> ring \<Rightarrow> mem \<Rightarrow> trb list \<Rightarrow> bool" where
  "same_lap ci r h q \<longleftrightarrow>
     ci \<le> nat (ring_index r) \<and> q = map (\<lambda>i. payload (entry r h i)) [ci..<nat (ring_index r)]"

definition lap_behind :: "nat \<Rightarrow> ring \<Rightarrow> mem \<Rightarrow> trb list \<Rightarrow> bool" where
  "lap_behind ci r h q \<longleftrightarrow>
     nat (ring_index r) \<le> ci \<and> ci \<le> 255 \<and> payload (entry r h 255) = ring_link (rbuf r) \<and>
     q = map (\<lambda>i. payload (entry r h i)) ([ci..<255] @ [0..<nat (ring_index r)])"

definition ring_state :: "nat \<Rightarrow> bool \<Rightarrow> ring \<Rightarrow> mem \<Rightarrow> trb list \<Rightarrow> bool" where
  "ring_state ci ccs r h q \<longleftrightarrow>
     ring_ok r \<and> list_all trb_item q \<and>
     (\<forall>i < 255. trb_cycle (entry r h i) = (if i < nat (ring_index r) then cycle_bit r else \<not> cycle_bit r)) \<and>
     trb_cycle (entry r h 255) = (\<not> cycle_bit r) \<and>
     (if ccs = cycle_bit r then same_lap ci r h q else lap_behind ci r h q)"

lemma entry_write:
  assumes "ring_ok r" "k < 256" "i < 256"
  shows "entry r (write_ring_static (rbuf r) (int k) d c h) i =
    (if i = k then d OR push_bit 96 (of_bool c) else entry r h i)"
  using assms trb_at_write_slot [of "rbuf r" i k d c h] by (simp add: entry_def ring_ok_def)

lemma write_ring_cases:
  assumes ok: "ring_ok r" and k: "nat (ring_index r) = k" and w: "write_ring d (r, h) = (r', h')"
  obtains (next_entry) "k < 254" "r' = r\<lparr>ring_index := int k + 1\<rparr>" "rbuf r' = rbuf r"
      "\<And>i. i < 256 \<Longrightarrow> entry r' h' i = (if i = k then d OR push_bit 96 (of_bool (cycle_bit r)) else entry r h i)"
    | (wrap) "k = 254" "r' = r\<lparr>ring_index := 0, cycle_bit := \<not> cycle_bit r\<rparr>"
      "\<And>i. i < 256 \<Longrightarrow> entry r' h' i = (if i = 255 then ring_link (rbuf r) OR push_bit 96 (of_bool (cycle_bit r))
         else if i = 254 then d OR push_bit 96 (of_bool (cycle_bit r)) else entry r h i)"
proof -
  have i: "ring_index r = int k" "k < 255" "ring_size r = 256" using ok k by (auto simp: ring_ok_def)
  have e: "entry (r\<lparr>ring_index := x, cycle_bit := y\<rparr>) m j = entry r m j" for x y m j by (simp add: entry_def)
  have e': "entry (r\<lparr>ring_index := x\<rparr>) m j = entry r m j" for x m j by (simp add: entry_def)
  show thesis
  proof (cases "k = 254")
    case True
    show thesis
    proof (rule wrap)
      show "r' = r\<lparr>ring_index := 0, cycle_bit := \<not> cycle_bit r\<rparr>" using w i True by (auto simp: write_ring_def Let_def)
      have "h' = write_ring_static (rbuf r) (int 255) (ring_link (rbuf r)) (cycle_bit r)
          (write_ring_static (rbuf r) (int 254) d (cycle_bit r) h)"
        using w i True by (auto simp: write_ring_def Let_def)
      then show "entry r' h' j = (if j = 255 then ring_link (rbuf r) OR push_bit 96 (of_bool (cycle_bit r))
         else if j = 254 then d OR push_bit 96 (of_bool (cycle_bit r)) else entry r h j)" if "j < 256" for j
        using that \<open>r' = _\<close> by (simp only: e entry_write [OF ok])
    qed (use True in simp)
  next
    case False
    then have h': "r' = r\<lparr>ring_index := int k + 1\<rparr>" "h' = write_ring_static (rbuf r) (int k) d (cycle_bit r) h"
      using w i by (auto simp: write_ring_def Let_def)
    show thesis
    proof (rule next_entry)
      show "entry r' h' j = (if j = k then d OR push_bit 96 (of_bool (cycle_bit r)) else entry r h j)" if "j < 256" for j
        using that i by (simp add: h' e' entry_write [OF ok])
    qed (use h' i False in simp_all)
  qed
qed

text \<open>The invariant is kept by a write that does not overtake the controller.\<close>

lemma ring_ok_write:
  assumes "ring_ok r" "write_ring d (r, h) = (r', h')"
  shows "ring_ok r'" "rbuf r' = rbuf r"
  using assms(1) by (cases rule: write_ring_cases [OF assms(1) refl assms(2)]; auto simp: ring_ok_def)+

lemma ring_page_aligned:
  assumes "ring_page b"
  shows "16 dvd unat (v2p b)"
proof -
  have "unat (v2p b) = unat b - unat PAGE_OFFSET"
    using assms by (simp add: v2p_direct unat_sub_exact ring_page_def)
  moreover have "16 dvd unat b" using assms by (auto simp: ring_page_def intro: dvd_trans [of 16 4096])
  ultimately show ?thesis by (simp add: PAGE_OFFSET_def)
qed

lemma ring_put:
  assumes st: "ring_state ci ccs r h q" and d: "trb_item d" and w: "write_ring d (r, h) = (r', h')"
    and room: "ccs = cycle_bit r \<or> nat (ring_index r) < ci \<and> nat (ring_index r) < 254"
  shows "ring_state ci ccs r' h' (q @ [d])"
proof -
  have ok: "ring_ok r" and it: "list_all trb_item q"
    and cyc: "\<And>i. i < 255 \<Longrightarrow> trb_cycle (entry r h i) = (if i < nat (ring_index r) then cycle_bit r else \<not> cycle_bit r)"
    and cyc255: "trb_cycle (entry r h 255) = (\<not> cycle_bit r)"
    and lap: "if ccs = cycle_bit r then same_lap ci r h q else lap_behind ci r h q"
    using st by (auto simp: ring_state_def)
  have nd: "\<not> trb_cycle d" using d by (simp add: trb_item_def)
  have b: "16 dvd unat (v2p (rbuf r))" using ok by (intro ring_page_aligned) (simp add: ring_ok_def)
  note ok' = ring_ok_write [OF ok w]
  have pi: "nat (ring_index r) < 255" using ok by (auto simp: ring_ok_def)
  obtain k where k: "nat (ring_index r) = k" "ring_index r = int k" using ok by (metis ring_ok_def nat_0_le)
  show ?thesis
    using ok k(1) w
  proof (cases rule: write_ring_cases)
    case next_entry
    have k': "nat (ring_index r') = Suc k" "cycle_bit r' = cycle_bit r" using next_entry(2) by simp_all
    have old: "map (\<lambda>i. payload (entry r' h' i)) xs = map (\<lambda>i. payload (entry r h i)) xs"
      if "\<forall>i \<in> set xs. i < 255 \<and> i \<noteq> k" for xs
      using that by (auto simp: next_entry(4))
    have "if ccs = cycle_bit r' then same_lap ci r' h' (q @ [d]) else lap_behind ci r' h' (q @ [d])"
    proof (cases "ccs = cycle_bit r")
      case True
      then have "same_lap ci r h q" using lap by simp
      then show ?thesis
        using True pi k old [of "[ci..<k]"] nd by (simp add: same_lap_def k k' next_entry(4))
    next
      case False
      then have lb: "lap_behind ci r h q" and lt: "k < ci" using lap room k by simp_all
      then show ?thesis
        using False pi k nd old [of "[ci..<255]"] old [of "[0..<k]"] by (simp add: lap_behind_def k k' next_entry(3,4))
    qed
    then show ?thesis
      using ok' it d pi cyc cyc255 nd k next_entry(1) by (auto simp: ring_state_def k' next_entry(4))
  next
    case wrap
    have k': "nat (ring_index r') = 0" "cycle_bit r' = (\<not> cycle_bit r)" "rbuf r' = rbuf r" using wrap(2) by simp_all
    have "ccs = cycle_bit r" using room k wrap(1) by simp
    then have "same_lap ci r h q" using lap by simp
    then have "q = map (\<lambda>i. payload (entry r h i)) [ci..<254]" "ci \<le> 254" using k wrap(1) by (simp_all add: same_lap_def)
    moreover have "[ci..<255] = [ci..<254] @ [254]" using \<open>ci \<le> 254\<close> upt_Suc_append [of ci 254] by simp
    moreover have "payload (entry r' h' 255) = ring_link (rbuf r)" using ring_link_fields(1) [OF b] by (simp add: wrap(3))
    ultimately have "lap_behind ci r' h' (q @ [d])" using nd by (simp add: lap_behind_def k k' wrap(3))
    then show ?thesis
      using ok' it d cyc nd ring_link_fields(1) [OF b] \<open>ccs = _\<close> k wrap(1)
      by (auto simp: ring_state_def k' wrap(3))
  qed
qed

text \<open>The controller's fetch.\<close>

definition pos_of :: "addr \<Rightarrow> nat \<Rightarrow> u64" where "pos_of b ci = v2p (trb_addr b ci)"

lemma P2V_pos: "ring_page b \<Longrightarrow> ci < 256 \<Longrightarrow> P2V (pos_of b ci) = trb_addr b ci"
  unfolding pos_of_def by (intro P2V_v2p) (simp add: word_le_nat_alt unat_trb_addr, simp add: ring_page_def word_le_nat_alt)

lemma pos_of_Suc:
  assumes "ring_page b" "Suc ci < 256"
  shows "pos_of b ci + 16 = pos_of b (Suc ci)"
proof -
  have "PAGE_OFFSET \<le> trb_addr b i" if "i < 256" for i
    using assms(1) that by (simp add: word_le_nat_alt unat_trb_addr) (simp add: ring_page_def word_le_nat_alt)
  note d = this [THEN v2p_direct]
  show ?thesis unfolding pos_of_def d [OF assms(2)] d [OF Suc_lessD [OF assms(2)]] by (simp add: trb_addr_def algebra_simps)
qed

lemma pos_of_0: "pos_of b 0 = v2p b" by (simp add: pos_of_def trb_addr_def)

lemma fetch_entry_at:
  "ring_page (rbuf r) \<Longrightarrow> ci < 256 \<Longrightarrow>
   fetch_entry (pos_of (rbuf r) ci, ccs) h = (if trb_cycle (entry r h ci) = ccs then Some (entry r h ci) else None)"
  by (simp add: fetch_entry_def P2V_pos entry_def)

text \<open>What a controller at an entry finds.\<close>

lemma ring_fetch:
  assumes st: "ring_state ci ccs r h q"
  shows "q = [] \<Longrightarrow> fetch_trb (pos_of (rbuf r) ci, ccs) (r, h) = None"
    and "q = t # q' \<Longrightarrow> \<exists>ci' ccs'. fetch_trb (pos_of (rbuf r) ci, ccs) (r, h) = Some (t, pos_of (rbuf r) ci', ccs') \<and>
      ring_state ci' ccs' r h q'"
proof -
  let ?b = "rbuf r"
  have "nat (ring_index r) < 255" using st unfolding ring_state_def ring_ok_def by linarith
  then obtain k where k: "nat (ring_index r) = k" "k < 255" by blast
  have pg: "ring_page ?b" and it: "list_all trb_item q"
    and cyc: "\<And>i. i < 255 \<Longrightarrow> trb_cycle (entry r h i) = (if i < k then cycle_bit r else \<not> cycle_bit r)"
    and cyc255: "trb_cycle (entry r h 255) = (\<not> cycle_bit r)"
    and lap: "if ccs = cycle_bit r then same_lap ci r h q else lap_behind ci r h q"
    using st k by (auto simp: ring_state_def ring_ok_def)
  have b: "16 dvd unat (v2p ?b)" using pg by (rule ring_page_aligned)
  note fe = fetch_entry_at [OF pg]
  have state: "ring_state ci' ccs' r h q'"
    if "if ccs' = cycle_bit r then same_lap ci' r h q' else lap_behind ci' r h q'" "list_all trb_item q'" for ci' ccs' q'
    using st that by (simp add: ring_state_def)
  have nolink: "trb_kind (entry r h i) \<noteq> 6" if "payload (entry r h i) \<in> set q" for i
    using it that kind_payload(1) [of "entry r h i"] by (auto simp: list_all_iff trb_item_def)
  have plain: "fetch_trb (pos_of ?b ci, ccs) (r, h) = Some (payload (entry r h ci), pos_of ?b (Suc ci), ccs)"
    if "ci < 255" "trb_cycle (entry r h ci) = ccs" "payload (entry r h ci) \<in> set q"
    using that nolink pos_of_Suc [OF pg, of ci] by (simp add: fetch_trb_def fe)
  have link: "fetch_trb (pos_of ?b 255, \<not> cycle_bit r) (r, h) =
      (if k = 0 then None else Some (payload (entry r h 0), pos_of ?b 1, cycle_bit r))"
    if "payload (entry r h 255) = ring_link ?b"
  proof -
    have "trb_kind (entry r h 255) = 6" "link_target (entry r h 255) = pos_of ?b 0" "link_toggle (entry r h 255)"
      using that ring_link_fields [OF b] kind_payload [of "entry r h 255"] by (simp_all add: pos_of_0)
    then show ?thesis
      using cyc255 cyc [of 0] pos_of_Suc [OF pg, of 0] by (simp add: fetch_trb_def fe Let_def)
  qed
  have "(q = [] \<and> fetch_trb (pos_of ?b ci, ccs) (r, h) = None) \<or>
    (\<exists>u u' ci' ccs'. q = u # u' \<and> fetch_trb (pos_of ?b ci, ccs) (r, h) = Some (u, pos_of ?b ci', ccs') \<and> ring_state ci' ccs' r h u')"
  proof (cases "ccs = cycle_bit r")
    case True
    then have q: "ci \<le> k" "q = map (\<lambda>i. payload (entry r h i)) [ci..<k]" using lap k by (simp_all add: same_lap_def)
    show ?thesis
    proof (cases "ci = k")
      case True
      then show ?thesis using q k cyc [of k] \<open>ccs = _\<close> by (simp add: fetch_trb_def fe)
    next
      case False
      then have q': "q = payload (entry r h ci) # map (\<lambda>i. payload (entry r h i)) [Suc ci..<k]"
        using q by (simp add: upt_conv_Cons)
      have "ring_state (Suc ci) ccs r h (map (\<lambda>i. payload (entry r h i)) [Suc ci..<k])"
        using it \<open>ccs = _\<close> False q(1) k by (intro state) (simp_all add: q' same_lap_def)
      moreover have "fetch_trb (pos_of ?b ci, ccs) (r, h) = Some (payload (entry r h ci), pos_of ?b (Suc ci), ccs)"
        using False q(1) k cyc [of ci] \<open>ccs = _\<close> by (intro plain) (simp_all add: q')
      ultimately show ?thesis using q' by blast
    qed
  next
    case False
    then have q: "k \<le> ci" "ci \<le> 255" "payload (entry r h 255) = ring_link ?b"
      "q = map (\<lambda>i. payload (entry r h i)) ([ci..<255] @ [0..<k])" and ccs: "ccs = (\<not> cycle_bit r)"
      using lap k by (auto simp: lap_behind_def)
    show ?thesis
    proof (cases "ci = 255")
      case True
      show ?thesis
      proof (cases "k = 0")
        case True
        then show ?thesis using \<open>ci = 255\<close> q ccs link by simp
      next
        case False
        then have q': "q = payload (entry r h 0) # map (\<lambda>i. payload (entry r h i)) [1..<k]"
          using q(4) \<open>ci = 255\<close> by (simp add: upt_conv_Cons)
        have "ring_state 1 (cycle_bit r) r h (map (\<lambda>i. payload (entry r h i)) [1..<k])"
          using it False k by (intro state) (simp_all add: q' same_lap_def)
        then show ?thesis using q' link [OF q(3)] False \<open>ci = 255\<close> ccs by simp blast
      qed
    next
      case False
      then have q': "q = payload (entry r h ci) # map (\<lambda>i. payload (entry r h i)) ([Suc ci..<255] @ [0..<k])"
        using q by (simp add: upt_conv_Cons)
      have "ring_state (Suc ci) ccs r h (map (\<lambda>i. payload (entry r h i)) ([Suc ci..<255] @ [0..<k]))"
        using it ccs False q k by (intro state) (simp_all add: q' lap_behind_def)
      moreover have "fetch_trb (pos_of ?b ci, ccs) (r, h) = Some (payload (entry r h ci), pos_of ?b (Suc ci), ccs)"
        using False q k cyc [of ci] ccs by (intro plain) (simp_all add: q')
      ultimately show ?thesis using q' by blast
    qed
  qed
  then show "q = [] \<Longrightarrow> fetch_trb (pos_of ?b ci, ccs) (r, h) = None"
    and "q = t # q' \<Longrightarrow> \<exists>ci' ccs'. fetch_trb (pos_of ?b ci, ccs) (r, h) = Some (t, pos_of ?b ci', ccs') \<and>
      ring_state ci' ccs' r h q'" by auto
qed

subsection \<open>The ring provides the queue\<close>

definition ring_holds :: "trb_pos \<Rightarrow> ring \<times> mem \<Rightarrow> trb list \<Rightarrow> bool" where
  "ring_holds pos s q \<longleftrightarrow>
     (\<exists>ci. fst pos = pos_of (rbuf (fst s)) ci \<and> ring_state ci (snd pos) (fst s) (snd s) q)"

interpretation ring_fifo: fifo write_ring fetch_trb ring_holds trb_item 254
proof
  fix pos s q d assume "ring_holds pos s q" and d: "trb_item d" and len: "length q < 254"
  then obtain ci r h where s: "s = (r, h)" "fst pos = pos_of (rbuf r) ci" and st: "ring_state ci (snd pos) r h q"
    by (cases s) (auto simp: ring_holds_def)
  have "nat (ring_index r) < 255" using st unfolding ring_state_def ring_ok_def by linarith
  then have room: "snd pos = cycle_bit r \<or> nat (ring_index r) < ci \<and> nat (ring_index r) < 254"
    using st len by (cases "snd pos = cycle_bit r") (auto simp: ring_state_def lap_behind_def)
  obtain r' h' where w: "write_ring d (r, h) = (r', h')" by (metis surj_pair)
  have "ring_ok r" using st by (simp add: ring_state_def)
  from ring_ok_write [OF this w] ring_put [OF st d w room]
  show "ring_holds pos (write_ring d s) (q @ [d])" by (auto simp: ring_holds_def s w)
next
  fix pos s assume "ring_holds pos s []"
  then show "fetch_trb pos s = None"
    using ring_fetch(1) by (cases pos; cases s) (force simp: ring_holds_def)
next
  fix pos s t q assume "ring_holds pos s (t # q)"
  then show "\<exists>pos'. fetch_trb pos s = Some (t, pos') \<and> ring_holds pos' s q"
    using ring_fetch(2) by (cases pos; cases s) (fastforce simp: ring_holds_def)
qed

text \<open>A new ring is empty.\<close>

definition direct :: "addr set \<Rightarrow> bool" where "direct F \<longleftrightarrow> (\<forall>x \<in> F. PAGE_OFFSET \<le> x)"

lemma memset_zero_at: "bytes_at a 16 \<subseteq> bytes_at b (unat n) \<Longrightarrow> trb_at (memset b 0 n h) a = 0"
  unfolding trb_at_def load_struct_def by (subst load_zero) (auto simp: memset_apply)

lemma new_ring_empty:
  assumes o: "owns s F" and F: "direct F" and n: "new_ring s = Some (Inr r, s')"
  shows "ring_holds (v2p (rbuf r), True) (r, heap s') []" "ring_ok r" "bytes_at (rbuf r) 4096 \<subseteq> F"
    "owns s' (F - bytes_at (rbuf r) 4096)" "\<forall>x. x \<notin> F \<longrightarrow> heap s' x = heap s x"
    "ring_state 0 True r (heap s') []" "ring_index r = 0" "cycle_bit r"
proof -
  obtain b s1 where a: "alloc_mem 1 s = Some (b, s1)" "b \<noteq> 0"
    and r: "r = \<lparr>rbuf = b, cycle_bit = True, ring_size = 256, ring_index = 0\<rparr>"
    and s': "s' = s1\<lparr>heap := memset b 0 4096 (heap s1)\<rparr>"
    using n by (auto simp: new_ring_def split: option.splits if_splits)
  note blk = pages.alloc_block [OF o _ _ a, simplified]
  note z = pages.alloc_zeroed [OF o _ _ a, of 4096, simplified]
  have "b \<in> bytes_at b 4096" using bytes_at_I [of 0 4096 b] by simp
  then have pg: "ring_page b" using blk F by (auto simp: ring_page_def direct_def)
  have e: "entry r (heap s') i = 0" if "i < 256" for i
    using that bytes_at_shift [of "16 * i" 16 4096 b] unfolding entry_def s' r
    by (simp add: trb_addr_def memset_zero_at)
  have "ring_state 0 True r (heap s') []"
    using pg by (auto simp: ring_state_def ring_ok_def same_lap_def e) (simp_all add: r trb_cycle_def)
  then show "ring_holds (v2p (rbuf r), True) (r, heap s') []" "ring_ok r" "ring_state 0 True r (heap s') []"
    by (auto simp: ring_holds_def pos_of_0 ring_state_def intro!: exI [of _ 0])
  show "ring_index r = 0" "cycle_bit r" by (simp_all add: r)
  show "bytes_at (rbuf r) 4096 \<subseteq> F" "owns s' (F - bytes_at (rbuf r) 4096)" "\<forall>x. x \<notin> F \<longrightarrow> heap s' x = heap s x"
    using blk z by (simp_all add: r s')
qed

text \<open>
  C3: A ring made by \<open>new_ring\<close> and filled by \<open>write_ring\<close> is a first-in first-out queue for a
  controller that starts at its beginning with cycle state 1: whatever the order of the driver's
  writes and the controller's fetches, over any number of laps, each fetch returns what a list
  queue would, as long as no more than 254 entries wait.
\<close>
theorem ring_is_queue:
  assumes "owns s F" and "direct F" and "new_ring s = Some (Inr r, s')"
    and "within 254 ops 0" and "list_all (op_item trb_item) ops"
  shows "run_ops write_ring fetch_trb ops (v2p (rbuf r), True) (r, heap s') = run_queue ops []"
  using ring_fifo.run_refines [OF new_ring_empty(1) [OF assms(1-3)]] assms(4,5) by simp

lemma demo_direct: "direct (free_bytes demo_blocks)"
  using in_bytes_at [of "0xffff806000100000" "4096 * 8"] in_bytes_at [of "0xffff806000200000" "4096 * 4"]
  by (auto simp: direct_def demo_blocks_def free_bytes_def PAGE_OFFSET_def word_le_nat_alt)

lemma demo_ring_owns: "owns (lay demo_blocks) (free_bytes demo_blocks)"
  using lay_inv [OF demo_blocks_wf] by (auto simp: owns_def)

lemma demo_ring: "\<exists>r s'. new_ring (lay demo_blocks) = Some (Inr r, s')"
proof -
  obtain s1 where "alloc_mem 1 (lay demo_blocks) = Some (0xffff806000100000, s1)"
    using alloc_mem_Some [OF lay_inv [OF demo_blocks_wf], of 1] by (auto simp: demo_blocks_def)
  then show ?thesis by (simp add: new_ring_def)
qed

lemma enable_slot_item: "trb_item (set_f enable_slot_command ''type'' 9 0)"
  by (simp add: trb_item_def trb_cycle_def trb_kind_def set_f_def enable_slot_command_def bf_set_def) 

theorem ring_is_queue_witness:
  "\<exists>r s'. new_ring (lay demo_blocks) = Some (Inr r, s') \<and>
     run_ops write_ring fetch_trb [Get, Put 0, Put (set_f enable_slot_command ''type'' 9 0), Get, Get, Get]
       (v2p (rbuf r), True) (r, heap s') = [None, Some 0, Some (set_f enable_slot_command ''type'' 9 0), None]"
proof -
  obtain r s' where n: "new_ring (lay demo_blocks) = Some (Inr r, s')" using demo_ring by blast
  have "trb_item 0" by (simp add: trb_item_def trb_cycle_def trb_kind_def)
  with n ring_is_queue [OF demo_ring_owns demo_direct n,
      of "[Get, Put 0, Put (set_f enable_slot_command ''type'' 9 0), Get, Get, Get]"] enable_slot_item
  show ?thesis by simp
qed

lemma ring_fill:
  assumes "ring_state 0 True r h []" "ring_index r = 0" "cycle_bit r" "list_all trb_item ts" "length ts \<le> 255"
  shows "\<exists>r' h'. fold write_ring ts (r, h) = (r', h') \<and> ring_state 0 True r' h' ts \<and> rbuf r' = rbuf r \<and>
    (if length ts = 255 then \<not> cycle_bit r' \<and> ring_index r' = 0 else cycle_bit r' \<and> ring_index r' = int (length ts))"
  using assms
proof (induction ts rule: rev_induct)
  case (snoc t ts)
  then obtain r1 h1 where f: "fold write_ring ts (r, h) = (r1, h1)" "ring_state 0 True r1 h1 ts" "rbuf r1 = rbuf r"
    and i: "cycle_bit r1" "nat (ring_index r1) = length ts" by auto
  obtain r' h' where w: "write_ring t (r1, h1) = (r', h')" by (metis surj_pair)
  have ok: "ring_ok r1" using f by (simp add: ring_state_def)
  have st: "ring_state 0 True r' h' (ts @ [t])"
    using snoc.prems i by (intro ring_put [OF f(2) _ w]) simp_all
  have "if length (ts @ [t]) = 255 then \<not> cycle_bit r' \<and> ring_index r' = 0
      else cycle_bit r' \<and> ring_index r' = int (length (ts @ [t]))"
    using ok i(2) w by (cases rule: write_ring_cases) (use i(1) in simp_all)
  then show ?case using f w st ring_ok_write(2) [OF ok w] by simp
qed simp

lemma ring_overrun:
  assumes st: "ring_state 0 True r h []" "ring_index r = 0" "cycle_bit r"
    and ts: "length ts = 255" "list_all trb_item (ts @ [t])"
  obtains r1 h1 r2 h2 where "fold write_ring ts (r, h) = (r1, h1)" "rbuf r1 = rbuf r"
    "map_option fst (fetch_trb (v2p (rbuf r), True) (r1, h1)) = Some (hd ts)"
    "write_ring t (r1, h1) = (r2, h2)" "rbuf r2 = rbuf r" "ring_page (rbuf r2)" "\<not> trb_cycle (entry r2 h2 0)"
proof -
  obtain r1 h1 where f: "fold write_ring ts (r, h) = (r1, h1)" "ring_state 0 True r1 h1 ts" "rbuf r1 = rbuf r"
    and i: "\<not> cycle_bit r1" "nat (ring_index r1) = 0"
    using ring_fill [OF st, of ts] ts by auto
  have p: "v2p (rbuf r) = pos_of (rbuf r1) 0" by (simp add: pos_of_0 f)
  obtain u us where u: "ts = u # us" using ts(1) by (cases ts) auto
  obtain r2 h2 where w: "write_ring t (r1, h1) = (r2, h2)" by (metis surj_pair)
  have ok: "ring_ok r1" using f by (simp add: ring_state_def)
  have "\<not> trb_cycle (entry r2 h2 0)"
    using ok i(2) w by (cases rule: write_ring_cases) (use i ts(2) in \<open>simp_all add: trb_item_def\<close>)
  moreover have "ring_page (rbuf r2)" "rbuf r2 = rbuf r" using ring_ok_write [OF ok w] f(3) by (simp_all add: ring_ok_def)
  moreover have "map_option fst (fetch_trb (v2p (rbuf r), True) (r1, h1)) = Some (hd ts)"
    using ring_fetch(2) [OF f(2) u] u unfolding p by auto
  ultimately show thesis using that f(1,3) w by blast
qed

text \<open>An entry with the other cycle bit is not fetched.\<close>

lemma fetch_other_lap: "ring_page (rbuf r) \<Longrightarrow> \<not> trb_cycle (entry r h 0) \<Longrightarrow> fetch_trb (v2p (rbuf r), True) (r, h) = None"
  using fetch_entry_at [of r 0 True h] by (simp add: fetch_trb_def pos_of_0)

text \<open>
  \<open>write_ring\<close> does not look for a free entry. After 255 writes to a new ring a controller that has
  fetched nothing still finds the first entry; the 256th write makes the whole ring look empty
  to it.
\<close>
theorem write_ring_overruns:
  assumes "owns s F" and "direct F" and "new_ring s = Some (Inr r, s')"
    and "length ts = 255" and "list_all trb_item (ts @ [t])"
  shows "map_option fst (fetch_trb (v2p (rbuf r), True) (fold write_ring ts (r, heap s'))) = Some (hd ts) \<and>
    fetch_trb (v2p (rbuf r), True) (fold write_ring (ts @ [t]) (r, heap s')) = None"
proof -
  note n = new_ring_empty [OF assms(1-3)]
  obtain r1 h1 r2 h2 where f: "fold write_ring ts (r, heap s') = (r1, h1)"
    "map_option fst (fetch_trb (v2p (rbuf r), True) (r1, h1)) = Some (hd ts)" "write_ring t (r1, h1) = (r2, h2)"
    and r2: "rbuf r2 = rbuf r" "ring_page (rbuf r2)" "\<not> trb_cycle (entry r2 h2 0)"
    using ring_overrun [OF n(6-8) assms(4,5)] by metis
  have "fold write_ring (ts @ [t]) (r, heap s') = (r2, h2)" by (simp add: f)
  with f fetch_other_lap [OF r2(2,3)] r2(1) show ?thesis by simp
qed

theorem write_ring_overruns_witness:
  "\<exists>r s'. new_ring (lay demo_blocks) = Some (Inr r, s') \<and>
     fetch_trb (v2p (rbuf r), True) (fold write_ring (replicate 255 0 @ [0]) (r, heap s')) = None"
proof -
  obtain r s' where n: "new_ring (lay demo_blocks) = Some (Inr r, s')" using demo_ring by blast
  have "trb_item 0" by (simp add: trb_item_def trb_cycle_def trb_kind_def)
  then have "list_all trb_item (replicate 255 0 @ [0])" by (auto simp: list_all_iff)
  from write_ring_overruns [OF demo_ring_owns demo_direct n _ this] n show ?thesis by auto
qed

end
