(* ===== verification/Pci.thy ===== *)
theory Pci
  imports Hardware Bitfields
begin

unbundle bit_operations_syntax

text \<open>
  The PCI scan of kernel/pci.c: configuration accesses through the two ports of configuration
  mechanism 1, and the walk over buses, devices and functions that hands every xHCI controller
  found to \<open>init_xhci\<close>, which is an argument here.
\<close>

subsection \<open>kernel/pci.c\<close>

record pci_device =
  vendor :: u16
  device :: u16
  bar0 :: u32
  bar1 :: u32
  bar2 :: u32
  bar3 :: u32
  bar4 :: u32
  bar5 :: u32

definition PCI_CONFIG_ADDRESS :: u16 where "PCI_CONFIG_ADDRESS = 0xcf8"
definition PCI_CONFIG_DATA :: u16 where "PCI_CONFIG_DATA = 0xcfc"

definition pci_addr :: "u8 \<Rightarrow> u8 \<Rightarrow> u8 \<Rightarrow> u8 \<Rightarrow> u32" where
  "pci_addr bus dev func offset =
     0x80000000 OR push_bit 16 (ucast bus) OR push_bit 11 (ucast dev) OR push_bit 8 (ucast func) OR
     ucast (offset AND 0xfc)"

definition pci_read32 :: "'d hardware \<Rightarrow> u8 \<Rightarrow> u8 \<Rightarrow> u8 \<Rightarrow> u8 \<Rightarrow> 'd \<Rightarrow> u32 \<times> 'd" where
  "pci_read32 hw bus dev func offset d =
     in32 hw PCI_CONFIG_DATA (out32 hw PCI_CONFIG_ADDRESS (pci_addr bus dev func offset) d)"

definition pci_read :: "'d hardware \<Rightarrow> u8 \<Rightarrow> u8 \<Rightarrow> u8 \<Rightarrow> u8 \<Rightarrow> 'd \<Rightarrow> u16 \<times> 'd" where
  "pci_read hw bus dev func offset d =
     (let (v, d1) = in32 hw PCI_CONFIG_DATA
                      (out32 hw PCI_CONFIG_ADDRESS (pci_addr bus dev func offset) d)
      in (ucast (drop_bit (unat (offset AND 2) * 8) v AND 0xffff), d1))"

definition pci_write :: "'d hardware \<Rightarrow> u8 \<Rightarrow> u8 \<Rightarrow> u8 \<Rightarrow> u8 \<Rightarrow> u32 \<Rightarrow> 'd \<Rightarrow> 'd" where
  "pci_write hw bus dev func offset data d =
     out32 hw PCI_CONFIG_DATA data (out32 hw PCI_CONFIG_ADDRESS (pci_addr bus dev func offset) d)"

definition readHeaderType :: "'d hardware \<Rightarrow> u8 \<Rightarrow> u8 \<Rightarrow> u8 \<Rightarrow> 'd \<Rightarrow> u8 \<times> 'd" where
  "readHeaderType hw bus dev func d =
     (let (v, d1) = pci_read hw bus dev func 0x0e d in (ucast (v AND 0xff), d1))"

definition isSingleFunctionDevice :: "u8 \<Rightarrow> bool" where
  "isSingleFunctionDevice header_type \<longleftrightarrow> header_type AND 0x80 = 0"

text \<open>\<open>scanFunction\<close> only prints under a test flag that is off.\<close>

definition scanFunction :: "u8 \<Rightarrow> u8 \<Rightarrow> u8 \<Rightarrow> 'd \<Rightarrow> 'd" where
  "scanFunction bus dev func d = d"

text \<open>The branch of \<open>scanDevice\<close> for an xHCI controller.\<close>

definition scan_xhci ::
  "'d hardware \<Rightarrow> (pci_device \<Rightarrow> 'd \<Rightarrow> 'd) \<Rightarrow> u8 \<Rightarrow> u8 \<Rightarrow> u16 \<Rightarrow> u16 \<Rightarrow> 'd \<Rightarrow> 'd" where
  "scan_xhci hw init_xhci bus dev vendid devid d =
     (let (c, d1) = pci_read32 hw bus dev 0 0x04 d;
          d2 = pci_write hw bus dev 0 0x04 (c OR 0x04 OR 0x10 OR 0x02) d1;
          (b0, d3) = pci_read32 hw bus dev 0 0x10 d2;
          (b1, d4) = pci_read32 hw bus dev 0 0x14 d3;
          (b2, d5) = pci_read32 hw bus dev 0 0x18 d4;
          (b3, d6) = pci_read32 hw bus dev 0 0x1c d5;
          (b4, d7) = pci_read32 hw bus dev 0 0x20 d6;
          (b5, d8) = pci_read32 hw bus dev 0 0x24 d7;
          d9 = (if vendid = 0x8086
                then let (superspeed_ports, e1) = pci_read32 hw bus dev 0 0xdc d8;
                         e2 = pci_write hw bus dev 0 0xd8 superspeed_ports e1;
                         (ehci2xhci_ports, e3) = pci_read32 hw bus dev 0 0xd4 e2
                     in pci_write hw bus dev 0 0xd0 ehci2xhci_ports e3
                else d8)
      in init_xhci \<lparr>vendor = vendid, device = devid, bar0 = b0, bar1 = b1, bar2 = b2,
                    bar3 = b3, bar4 = b4, bar5 = b5\<rparr> d9)"

definition scan_functions :: "'d hardware \<Rightarrow> u8 \<Rightarrow> u8 \<Rightarrow> 'd \<Rightarrow> 'd" where
  "scan_functions hw bus dev d =
     fold (\<lambda>func d. let (v, d1) = pci_read hw bus dev func 0x00 d
                    in if v = 0xffff then d1 else scanFunction bus dev func d1)
       (map word_of_nat [1..<8]) d"

definition scanDevice ::
  "'d hardware \<Rightarrow> (pci_device \<Rightarrow> 'd \<Rightarrow> 'd) \<Rightarrow> u8 \<Rightarrow> u8 \<Rightarrow> 'd \<Rightarrow> 'd" where
  "scanDevice hw init_xhci bus dev d =
     (let d0 = scanFunction bus dev 0 d;
          (p, d1) = pci_read hw bus dev 0 0x08 d0;
          prog_if = (ucast (drop_bit 8 (p AND 0xff00)) :: u8);
          (c, d2) = pci_read hw bus dev 0 0x0a d1;
          class_code = (ucast (drop_bit 8 (c AND 0xff00)) :: u8);
          (sc, d3) = pci_read hw bus dev 0 0x0a d2;
          subclass_code = (ucast (sc AND 0x00ff) :: u8);
          d4 = printk_to hw (''pci prog if:%02X'' @ [CHR 0x0A], [ucast prog_if]) d3;
          d5 = printk_to hw (''pci class:%02X %02X'' @ [CHR 0x0A], [ucast class_code, ucast subclass_code]) d4;
          (vendid, d6) = pci_read hw bus dev 0 0x00 d5;
          (devid, d7) = pci_read hw bus dev 0 0x02 d6;
          d8 = (if class_code = 0x0c \<and> subclass_code = 0x03 \<and> prog_if = 0x30
                then scan_xhci hw init_xhci bus dev vendid devid d7 else d7);
          (header_type, d9) = readHeaderType hw bus dev 0 d8
      in if isSingleFunctionDevice header_type then d9 else scan_functions hw bus dev d9)"

definition scanBus :: "'d hardware \<Rightarrow> (pci_device \<Rightarrow> 'd \<Rightarrow> 'd) \<Rightarrow> u8 \<Rightarrow> 'd \<Rightarrow> 'd" where
  "scanBus hw init_xhci bus d =
     fold (\<lambda>dev d. let (v, d1) = pci_read hw bus dev 0 0x00 d
                   in if v = 0xffff then d1 else scanDevice hw init_xhci bus dev d1)
       (map word_of_nat [0..<255]) d"

definition init_pci :: "'d hardware \<Rightarrow> (pci_device \<Rightarrow> 'd \<Rightarrow> 'd) \<Rightarrow> 'd \<Rightarrow> 'd" where
  "init_pci hw init_xhci d =
     (let (header_type, d1) = readHeaderType hw 0 0 0 d
      in if isSingleFunctionDevice header_type then scanBus hw init_xhci 0 d1
         else fold (\<lambda>func d. let (v, d2) = pci_read hw 0 0 func 0x00 d
                             in if v = 0xffff then d2 else scanBus hw init_xhci func d2)
                (map word_of_nat [0..<8]) d1)"


subsection \<open>A configuration space\<close>

text \<open>
  The ports as the PCI specification describes them: an address latch and a data window on the
  configuration register it selects. \<open>inits\<close> records the controllers handed to \<open>init_xhci\<close>.
\<close>

record pci_conf =
  latch :: u32
  cfg :: "u32 \<Rightarrow> u32"
  inits :: "pci_device list"

definition pci_hw :: "pci_conf hardware" where
  "pci_hw = no_hardware\<lparr>
     in32 := \<lambda>port d. (if port = PCI_CONFIG_DATA then cfg d (latch d) else 0xffffffff, d),
     out32 := \<lambda>port v d.
       if port = PCI_CONFIG_ADDRESS then d\<lparr>latch := v\<rparr>
       else if port = PCI_CONFIG_DATA then d\<lparr>cfg := (cfg d)(latch d := v)\<rparr> else d\<rparr>"

definition log_init :: "pci_device \<Rightarrow> pci_conf \<Rightarrow> pci_conf" where
  "log_init dev d = d\<lparr>inits := inits d @ [dev]\<rparr>"

lemma pci_hw_simps [simp]:
  "in32 pci_hw PCI_CONFIG_DATA d = (cfg d (latch d), d)"
  "out32 pci_hw PCI_CONFIG_ADDRESS v d = d\<lparr>latch := v\<rparr>"
  "out32 pci_hw PCI_CONFIG_DATA v d = d\<lparr>cfg := (cfg d)(latch d := v)\<rparr>"
  "printk_to pci_hw p d = d"
  by (simp_all add: pci_hw_def no_hardware_def PCI_CONFIG_ADDRESS_def PCI_CONFIG_DATA_def)

text \<open>The registers that identify a function, by the layout of the configuration header.\<close>

definition id_reg :: "(u32 \<Rightarrow> u32) \<Rightarrow> u8 \<Rightarrow> u8 \<Rightarrow> u8 \<Rightarrow> u32" where
  "id_reg c bus dev func = c (pci_addr bus dev func 0)"

definition present :: "(u32 \<Rightarrow> u32) \<Rightarrow> u8 \<Rightarrow> u8 \<Rightarrow> u8 \<Rightarrow> bool" where
  "present c bus dev func \<longleftrightarrow> take_bit 16 (id_reg c bus dev func) \<noteq> 0xffff"

definition is_xhci :: "(u32 \<Rightarrow> u32) \<Rightarrow> u8 \<Rightarrow> u8 \<Rightarrow> bool" where
  "is_xhci c bus dev \<longleftrightarrow> drop_bit 8 (c (pci_addr bus dev 0 0x08)) = 0x0c0330"

definition multi_function :: "(u32 \<Rightarrow> u32) \<Rightarrow> u8 \<Rightarrow> u8 \<Rightarrow> bool" where
  "multi_function c bus dev \<longleftrightarrow> bit (c (pci_addr bus dev 0 0x0c)) 23"

definition device_at :: "(u32 \<Rightarrow> u32) \<Rightarrow> u8 \<Rightarrow> u8 \<Rightarrow> pci_device" where
  "device_at c bus dev =
     \<lparr>vendor = ucast (id_reg c bus dev 0), device = ucast (drop_bit 16 (id_reg c bus dev 0)),
      bar0 = c (pci_addr bus dev 0 0x10), bar1 = c (pci_addr bus dev 0 0x14),
      bar2 = c (pci_addr bus dev 0 0x18), bar3 = c (pci_addr bus dev 0 0x1c),
      bar4 = c (pci_addr bus dev 0 0x20), bar5 = c (pci_addr bus dev 0 0x24)\<rparr>"

text \<open>The controllers among the device numbers of a bus the code goes through.\<close>

definition found :: "(u32 \<Rightarrow> u32) \<Rightarrow> u8 \<Rightarrow> pci_device list" where
  "found c bus = map (device_at c bus)
     (filter (\<lambda>dev. present c bus dev 0 \<and> is_xhci c bus dev) (map word_of_nat [0..<255]))"

text \<open>The scan writes the command register and two vendor registers of Intel controllers only.\<close>

definition same_ids :: "(u32 \<Rightarrow> u32) \<Rightarrow> (u32 \<Rightarrow> u32) \<Rightarrow> bool" where
  "same_ids c c' \<longleftrightarrow> (\<forall>a. take_bit 8 a \<notin> {0x04, 0xd0, 0xd8} \<longrightarrow> c a = c' a)"

lemma take_bit_ucast_byte: "take_bit 8 (ucast (x :: u8) :: u32) = ucast x"
  by (rule bit_word_eqI) (auto simp: bit_simps dest: bit_imp_le_length)

lemma pci_addr_low: "take_bit 8 (pci_addr bus dev func offset) = ucast (offset AND 0xfc)"
  by (simp add: pci_addr_def take_bit_or take_bit_push_bit take_bit_ucast_byte)

lemma same_ids_at:
  "same_ids c c' \<Longrightarrow> (ucast (offset AND 0xfc) :: u32) \<notin> {0x04, 0xd0, 0xd8} \<Longrightarrow>
   c (pci_addr bus dev func offset) = c' (pci_addr bus dev func offset)"
  by (simp add: same_ids_def pci_addr_low)

lemma same_ids_write:
  "same_ids c c' \<Longrightarrow> (ucast (offset AND 0xfc) :: u32) \<in> {0x04, 0xd0, 0xd8} \<Longrightarrow>
   same_ids (c(pci_addr bus dev func offset := v)) c'"
  by (auto simp: same_ids_def pci_addr_low)

lemma pci_read_model:
  "pci_read pci_hw bus dev func offset d =
     (ucast (drop_bit (unat (offset AND 2) * 8) (cfg d (pci_addr bus dev func offset)) AND 0xffff),
      d\<lparr>latch := pci_addr bus dev func offset\<rparr>)"
  by (simp add: pci_read_def Let_def)

lemma pci_read32_model:
  "pci_read32 pci_hw bus dev func offset d =
     (cfg d (pci_addr bus dev func offset), d\<lparr>latch := pci_addr bus dev func offset\<rparr>)"
  by (simp add: pci_read32_def)

lemma pci_write_model:
  "pci_write pci_hw bus dev func offset v d =
     d\<lparr>latch := pci_addr bus dev func offset, cfg := (cfg d)(pci_addr bus dev func offset := v)\<rparr>"
  by (simp add: pci_write_def)

lemmas pci_models = pci_read_model pci_read32_model pci_write_model

text \<open>The two halves of a register share its address.\<close>

lemma pci_addr_half:
  "pci_addr bus dev func 0x02 = pci_addr bus dev func 0x00"
  "pci_addr bus dev func 0x0a = pci_addr bus dev func 0x08"
  "pci_addr bus dev func 0x0e = pci_addr bus dev func 0x0c"
  by (simp_all add: pci_addr_def)

lemma scan_xhci_model:
  assumes "same_ids (cfg d) c"
  shows "let d' = scan_xhci pci_hw log_init bus dev v i d in
    same_ids (cfg d') c \<and>
    inits d' = inits d @ [(device_at c bus dev)\<lparr>vendor := v, device := i\<rparr>]"
proof -
  define A where "A = pci_addr bus dev 0"
  let ?bars = "{0x10, 0x14, 0x18, 0x1c, 0x20, 0x24} :: u8 set"
  have eq: "\<forall>off \<in> ?bars. cfg d (A off) = c (A off)"
    using same_ids_at [OF assms, of _ bus dev 0] by (auto simp: A_def)
  have ne: "\<forall>off \<in> ?bars. A off \<noteq> A 0x04"
  proof (intro ballI notI)
    fix off :: u8 assume o: "off \<in> ?bars" "A off = A 0x04"
    then have "(ucast (off AND 0xfc) :: u32) = ucast (0x04 AND 0xfc :: u8)"
      unfolding A_def by (metis pci_addr_low)
    with o(1) show False by auto
  qed
  have upd: "same_ids (c'(A off := x)) c" if "same_ids c' c" "off \<in> {0x04, 0xd0, 0xd8}" for c' off x
    using that unfolding A_def by (intro same_ids_write) auto
  have "same_ids (cfg (scan_xhci pci_hw log_init bus dev v i d)) c"
    unfolding scan_xhci_def pci_models A_def [symmetric] log_init_def Let_def
    by (simp add: upd assms)
  moreover have "inits (scan_xhci pci_hw log_init bus dev v i d) =
      inits d @ [(device_at c bus dev)\<lparr>vendor := v, device := i\<rparr>]"
    unfolding scan_xhci_def pci_models device_at_def A_def [symmetric] log_init_def Let_def
    using eq ne by simp
  ultimately show ?thesis by (simp add: Let_def)
qed

text \<open>The three class bytes the code takes out of two half registers.\<close>

definition byte_at :: "nat \<Rightarrow> u32 \<Rightarrow> u8" where "byte_at k r = ucast (drop_bit k r)"

lemma class_bytes:
  "(ucast (drop_bit 8 ((ucast (drop_bit 0 r AND 0xffff) :: u16) AND 0xff00)) :: u8) = byte_at 8 r"
  "(ucast (drop_bit 8 ((ucast (drop_bit 16 r AND 0xffff) :: u16) AND 0xff00)) :: u8) = byte_at 24 r"
  "(ucast ((ucast (drop_bit 16 r AND 0xffff) :: u16) AND 0x00ff) :: u8) = byte_at 16 r" for r :: u32
proof -
  have m: "x AND 0xff00 = push_bit 8 (drop_bit 8 x)" for x :: u16
  proof -
    have "x AND 0xff00 = x AND push_bit 8 (mask 8)" by (simp add: mask_eq_exp_minus_1)
    also have "\<dots> = push_bit 8 (drop_bit 8 x)"
      by (rule bit_word_eqI) (auto simp: bit_simps dest: bit_imp_le_length)
    finally show ?thesis .
  qed
  show "(ucast (drop_bit 8 ((ucast (drop_bit 0 r AND 0xffff) :: u16) AND 0xff00)) :: u8) = byte_at 8 r"
    "(ucast (drop_bit 8 ((ucast (drop_bit 16 r AND 0xffff) :: u16) AND 0xff00)) :: u8) = byte_at 24 r"
    "(ucast ((ucast (drop_bit 16 r AND 0xffff) :: u16) AND 0x00ff) :: u8) = byte_at 16 r"
    unfolding byte_at_def m and_masks
    by (rule bit_word_eqI; auto simp: bit_simps)+
qed

lemma class_match:
  "byte_at 24 r = 0x0c \<and> byte_at 16 r = 0x03 \<and> byte_at 8 r = 0x30 \<longleftrightarrow> drop_bit 8 r = 0x0c0330"
proof
  assume b: "byte_at 24 r = 0x0c \<and> byte_at 16 r = 0x03 \<and> byte_at 8 r = 0x30"
  have "drop_bit 8 r = ucast (byte_at 8 r) OR push_bit 8 (ucast (byte_at 16 r)) OR push_bit 16 (ucast (byte_at 24 r))"
  proof (rule bit_word_eqI)
    fix n
    show "bit (drop_bit 8 r) n = bit (ucast (byte_at 8 r) OR push_bit 8 (ucast (byte_at 16 r)) OR
        push_bit 16 (ucast (byte_at 24 r)) :: u32) n"
      by (cases "16 \<le> n"; cases "8 \<le> n")
        (auto simp: byte_at_def bit_simps dest: bit_imp_le_length)
  qed
  with b show "drop_bit 8 r = 0x0c0330" by simp
next
  assume d: "drop_bit 8 r = 0x0c0330"
  have "byte_at 24 r = ucast (drop_bit 16 (drop_bit 8 r))" "byte_at 16 r = ucast (drop_bit 8 (drop_bit 8 r))"
    "byte_at 8 r = ucast (drop_bit 8 r)" by (simp_all add: byte_at_def)
  with d show "byte_at 24 r = 0x0c \<and> byte_at 16 r = 0x03 \<and> byte_at 8 r = 0x30" by simp
qed

lemma half_ids:
  "(ucast (drop_bit 0 r AND 0xffff) :: u16) = ucast r" "(ucast (drop_bit 16 r AND 0xffff) :: u16) = ucast (drop_bit 16 r)"
  "(ucast r :: u16) = 0xffff \<longleftrightarrow> take_bit 16 r = 0xffff" for r :: u32
proof -
  show "(ucast (drop_bit 0 r AND 0xffff) :: u16) = ucast r"
    "(ucast (drop_bit 16 r AND 0xffff) :: u16) = ucast (drop_bit 16 r)"
    unfolding and_masks by (rule bit_word_eqI; auto simp: bit_simps)+
  have t: "take_bit 16 r = ucast (ucast r :: u16)"
    by (rule bit_word_eqI) (auto simp: bit_simps)
  have u: "(ucast r :: u16) = ucast (take_bit 16 r)"
    by (rule bit_word_eqI) (auto simp: bit_simps)
  show "(ucast r :: u16) = 0xffff \<longleftrightarrow> take_bit 16 r = 0xffff"
  proof
    assume "(ucast r :: u16) = 0xffff"
    then show "take_bit 16 r = 0xffff" unfolding t by simp
  next
    assume "take_bit 16 r = 0xffff"
    then show "(ucast r :: u16) = 0xffff" by (subst u) simp
  qed
qed

text \<open>Reading a vendor id decides presence, whatever was written during the scan.\<close>

lemma pci_read_id:
  assumes "same_ids (cfg d) c"
  shows "pci_read pci_hw bus dev func 0x00 d =
      (ucast (id_reg c bus dev func), d\<lparr>latch := pci_addr bus dev func 0\<rparr>)"
    "(ucast (id_reg c bus dev func) :: u16) = 0xffff \<longleftrightarrow> \<not> present c bus dev func"
  using same_ids_at [OF assms, of 0 bus dev func]
  by (simp_all add: pci_read_model id_reg_def present_def half_ids(3) del: drop_bit_0)
    (simp add: half_ids(1) [unfolded drop_bit_0 id_apply])

definition scan_keeps :: "(u32 \<Rightarrow> u32) \<Rightarrow> pci_device list \<Rightarrow> pci_conf \<Rightarrow> pci_conf \<Rightarrow> bool" where
  "scan_keeps c ds d d' \<longleftrightarrow> same_ids (cfg d') c \<and> inits d' = inits d @ ds"

lemma scan_functions_model:
  assumes "same_ids (cfg d) c"
  shows "scan_keeps c [] d (scan_functions pci_hw bus dev d)"
proof -
  have "cfg (fold (\<lambda>func d. let (v, d1) = pci_read pci_hw bus dev func 0x00 d
                    in if v = 0xffff then d1 else scanFunction bus dev func d1) fs d) = cfg d \<and>
    inits (fold (\<lambda>func d. let (v, d1) = pci_read pci_hw bus dev func 0x00 d
                    in if v = 0xffff then d1 else scanFunction bus dev func d1) fs d) = inits d" for fs d
    by (induction fs arbitrary: d) (simp_all add: pci_read_model scanFunction_def)
  with assms show ?thesis by (simp add: scan_keeps_def scan_functions_def)
qed

lemma scanDevice_model:
  assumes c: "same_ids (cfg d) c"
  shows "scan_keeps c (if is_xhci c bus dev then [device_at c bus dev] else []) d
    (scanDevice pci_hw log_init bus dev d)"
proof -
  have r: "cfg d (pci_addr bus dev 0 0x08) = c (pci_addr bus dev 0 0x08)"
    "cfg d (pci_addr bus dev 0 0x00) = c (pci_addr bus dev 0 0x00)"
    using same_ids_at [OF c, of _ bus dev 0] by auto
  define D where "D = c (pci_addr bus dev 0 0x08)"
  define I where "I = id_reg c bus dev 0"
  have x: "byte_at 24 D = 0x0c \<and> byte_at 16 D = 0x03 \<and> byte_at 8 D = 0x30 \<longleftrightarrow> is_xhci c bus dev"
    unfolding is_xhci_def D_def by (rule class_match)
  define d7 where "d7 = d\<lparr>latch := pci_addr bus dev 0 0x00\<rparr>"
  define d8 where "d8 = (if is_xhci c bus dev
      then scan_xhci pci_hw log_init bus dev (ucast I) (ucast (drop_bit 16 I)) d7 else d7)"
  have c7: "same_ids (cfg d7) c" using c by (simp add: d7_def)
  have k8: "scan_keeps c (if is_xhci c bus dev then [device_at c bus dev] else []) d d8"
    using scan_xhci_model [OF c7, of bus dev "ucast I" "ucast (drop_bit 16 I)"] c7
    by (auto simp: d8_def scan_keeps_def Let_def device_at_def I_def d7_def)
  have reads: "pci_read pci_hw bus dev 0 0x08 d = (ucast (drop_bit 0 D AND 0xffff), d\<lparr>latch := pci_addr bus dev 0 0x08\<rparr>)"
    "pci_read pci_hw bus dev 0 0x0a (d\<lparr>latch := l\<rparr>) =
       (ucast (drop_bit 16 D AND 0xffff), d\<lparr>latch := pci_addr bus dev 0 0x08\<rparr>)"
    "pci_read pci_hw bus dev 0 0x00 (d\<lparr>latch := l\<rparr>) = (ucast I, d\<lparr>latch := pci_addr bus dev 0 0x00\<rparr>)"
    "pci_read pci_hw bus dev 0 0x02 (d\<lparr>latch := l\<rparr>) =
       (ucast (drop_bit 16 I), d\<lparr>latch := pci_addr bus dev 0 0x00\<rparr>)" for l
    using r half_ids(1,2) [of I]
    by (simp_all add: pci_read_model pci_addr_half D_def I_def id_reg_def)
  have e: "scanDevice pci_hw log_init bus dev d =
     (let (header_type, d9) = readHeaderType pci_hw bus dev 0 d8
      in if isSingleFunctionDevice header_type then d9 else scan_functions pci_hw bus dev d9)"
    unfolding scanDevice_def Let_def scanFunction_def
    by (simp only: reads prod.case pci_hw_simps class_bytes x d8_def d7_def)
  have "scan_keeps c [] d8 (snd (readHeaderType pci_hw bus dev 0 d8))"
    using k8 by (simp add: readHeaderType_def pci_read_model scan_keeps_def Let_def)
  moreover from this have "scan_keeps c [] d8 (scan_functions pci_hw bus dev (snd (readHeaderType pci_hw bus dev 0 d8)))"
    using scan_functions_model [of "snd (readHeaderType pci_hw bus dev 0 d8)" c bus dev]
    by (simp add: scan_keeps_def)
  ultimately show ?thesis
    using k8 unfolding e by (auto simp: scan_keeps_def split: prod.splits)
qed

lemma scan_keeps_fold:
  assumes step: "\<And>x e. same_ids (cfg e) c \<Longrightarrow> scan_keeps c (f x) e (g x e)"
  shows "same_ids (cfg d) c \<Longrightarrow> scan_keeps c (concat (map f xs)) d (fold g xs d)"
proof (induction xs arbitrary: d)
  case (Cons x xs)
  from step [OF Cons.prems, of x] have "same_ids (cfg (g x d)) c" by (simp add: scan_keeps_def)
  from Cons.IH [OF this] step [OF Cons.prems, of x] show ?case by (simp add: scan_keeps_def)
qed (simp add: scan_keeps_def)

lemma concat_filter_map: "concat (map (\<lambda>x. if P x then [f x] else []) xs) = map f (filter P xs)"
  by (induction xs) auto

text \<open>A step of the two loops: the vendor id is read, and the step done if a function is present.\<close>

lemma scan_step:
  assumes c: "same_ids (cfg e) c"
    and step: "\<And>e. same_ids (cfg e) c \<Longrightarrow> scan_keeps c ds e (g e)"
  shows "scan_keeps c (if present c bus dev func then ds else []) e
    (let (v, e1) = pci_read pci_hw bus dev func 0x00 e in if v = 0xffff then e1 else g e1)"
  using c step [of "e\<lparr>latch := pci_addr bus dev func 0\<rparr>"]
  unfolding pci_read_id(1) [OF c] Let_def prod.case pci_read_id(2) [OF c]
  by (simp add: scan_keeps_def)

lemma scanBus_model:
  assumes "same_ids (cfg d) c"
  shows "scan_keeps c (found c bus) d (scanBus pci_hw log_init bus d)"
proof -
  let ?f = "\<lambda>dev. if present c bus dev 0 then if is_xhci c bus dev then [device_at c bus dev] else [] else []"
  have "concat (map ?f xs) =
      map (device_at c bus) (filter (\<lambda>dev. present c bus dev 0 \<and> is_xhci c bus dev) xs)" for xs
    by (induction xs) auto
  moreover have "scan_keeps c (concat (map ?f (map word_of_nat [0..<255]))) d (scanBus pci_hw log_init bus d)"
    unfolding scanBus_def
    by (rule scan_keeps_fold [OF _ assms], rule scan_step, assumption, rule scanDevice_model)
  ultimately show ?thesis by (simp only: found_def)
qed

lemma single_function: "isSingleFunctionDevice t \<longleftrightarrow> \<not> bit t 7"
  using and_exp_eq_0_iff_not_bit [of t 7] by (simp add: isSingleFunctionDevice_def)

lemma header_bit:
  "bit (ucast ((ucast (drop_bit 16 r AND 0xffff) :: u16) AND 0xff) :: u8) 7 \<longleftrightarrow> bit r 23" for r :: u32
  unfolding and_masks by (simp add: bit_simps)


lemma pci_addr_alias:
  "pci_addr bus dev func offset = pci_addr (bus OR drop_bit 5 dev) (take_bit 5 dev) func offset"
proof -
  have "push_bit 16 (ucast bus) OR push_bit 11 (ucast dev) =
      push_bit 16 (ucast (bus OR drop_bit 5 dev)) OR (push_bit 11 (ucast (take_bit 5 dev)) :: u32)"
  proof (rule bit_word_eqI)
    fix n
    show "bit (push_bit 16 (ucast bus) OR push_bit 11 (ucast dev) :: u32) n =
        bit (push_bit 16 (ucast (bus OR drop_bit 5 dev)) OR (push_bit 11 (ucast (take_bit 5 dev)) :: u32)) n"
      by (cases "16 \<le> n") (auto simp: bit_simps)
  qed
  then show ?thesis unfolding pci_addr_def by (simp only: or.assoc [symmetric])
qed

lemma count_two:
  assumes "distinct xs" and "a \<in> set xs" "b \<in> set xs" "a \<noteq> b" and "f a = y" "f b = y"
  shows "2 \<le> count_list (map f xs) y"
proof -
  have "count_list (map f xs) y = length (filter (\<lambda>x. f x = y) xs)"
    by (induction xs) auto
  also have "\<dots> = card (set (filter (\<lambda>x. f x = y) xs))"
    by (rule distinct_card [symmetric]) (simp add: assms(1))
  also have "card {a, b} \<le> card (set (filter (\<lambda>x. f x = y) xs))"
    using assms by (intro card_mono) auto
  finally show ?thesis using assms(4) by simp
qed

lemma scanned_devices:
  "distinct (map word_of_nat [0..<255] :: u8 list)"
  "dev \<in> set (map word_of_nat [0..<255]) \<longleftrightarrow> dev \<noteq> (255 :: u8)"
proof -
  have "inj_on (word_of_nat :: nat \<Rightarrow> u8) {..<256}"
  proof (rule inj_onI)
    fix m n :: nat assume "m \<in> {..<256}" "n \<in> {..<256}" "(word_of_nat m :: u8) = word_of_nat n"
    then have "unat (word_of_nat m :: u8) = unat (word_of_nat n :: u8)" "m < 256" "n < 256" by simp_all
    then show "m = n" by (simp add: unat_of_nat)
  qed
  then show "distinct (map word_of_nat [0..<255] :: u8 list)"
    by (auto simp: distinct_map inj_on_def)
  show "dev \<in> set (map word_of_nat [0..<255]) \<longleftrightarrow> dev \<noteq> (255 :: u8)"
  proof
    assume "dev \<in> set (map word_of_nat [0..<255])"
    then obtain k where "k < 255" "dev = word_of_nat k" by auto
    then have "unat dev < 255" by (simp add: unat_of_nat)
    then show "dev \<noteq> 255" by auto
  next
    assume "dev \<noteq> 255"
    then have "unat dev \<noteq> 255" using word_eq_unatI [of dev 255] by auto
    then have "unat dev < 255" using unat_u8_lt [of dev] by simp
    then show "dev \<in> set (map word_of_nat [0..<255])"
      by (auto intro!: image_eqI [where x = "unat dev"])
  qed
qed

text \<open>
  the loop over devices runs to 254 although a bus has 32: a device number beyond 31 reaches
  into the bus bits of the address, so that it denotes device \<open>dev mod 32\<close> of another bus, or of
  the same bus again. On a bus with odd number every device is scanned at least twice, and a
  controller on it is handed to \<open>init_xhci\<close> twice.
\<close>

theorem scan_revisits:
  assumes "bit bus 0" and "dev < 32" and "present c bus dev 0" and "is_xhci c bus dev"
  shows "device_at c bus' dev' = device_at c (bus' OR drop_bit 5 dev') (take_bit 5 dev') \<and>
    2 \<le> count_list (found c bus) (device_at c bus dev)"
proof -
  let ?dev = "dev OR 32"
  have t: "take_bit 5 dev = dev"
    using assms(2) by (intro word_eq_unatI)
      (simp add: unsigned_take_bit_eq take_bit_nat_eq_self_iff word_less_nat_alt)
  then have d: "drop_bit 5 dev = 0" using drop_bit_take_bit [of 5 5 dev] by simp
  have dd: "drop_bit 5 ?dev = 1" "take_bit 5 ?dev = dev" by (simp_all add: drop_bit_or take_bit_or t d)
  have "bus OR 1 = bus"
    using assms(1) by (intro bit_word_eqI) (auto simp: bit_or_iff bit_1_iff)
  then have al: "pci_addr bus ?dev func off = pci_addr bus dev func off" for func off
    using pci_addr_alias [of bus ?dev func off] unfolding dd by simp
  have "drop_bit 5 (255 :: u8) = 7" by simp
  then have "drop_bit 5 ?dev \<noteq> drop_bit 5 255" "drop_bit 5 dev \<noteq> drop_bit 5 255"
    "drop_bit 5 ?dev \<noteq> drop_bit 5 dev" unfolding dd d by simp_all
  then have ne: "?dev \<noteq> 255" "dev \<noteq> 255" "?dev \<noteq> dev" by metis+
  have "2 \<le> count_list (found c bus) (device_at c bus dev)"
    unfolding found_def using assms(3,4) scanned_devices ne
    by (intro count_two [of _ ?dev dev])
      (auto simp: present_def is_xhci_def device_at_def id_reg_def al)
  moreover have "device_at c bus' dev' = device_at c (bus' OR drop_bit 5 dev') (take_bit 5 dev')"
    unfolding device_at_def id_reg_def using pci_addr_alias [of bus' dev'] by simp
  ultimately show ?thesis by simp
qed

definition demo_conf :: "u32 \<Rightarrow> u32" where
  "demo_conf = (\<lambda>_. 0xffffffff)(0x80011800 := 0x1e318086, 0x80011808 := 0x0c033009)"

theorem scan_revisits_witness:
  "2 \<le> count_list (found demo_conf 1) (device_at demo_conf 1 3)"
  using scan_revisits [of 1 3 demo_conf 0 0]
  by (simp add: present_def is_xhci_def id_reg_def pci_addr_def demo_conf_def)

end
