(* ===== verification/Xhci.thy ===== *)
theory Xhci
  imports Ring Hardware Pci
begin

unbundle bit_operations_syntax

text \<open>
  The host controller driver of kernel/xhci.c: register access, the event ring, control transfers
  and \<open>init_xhci\<close>. The controller is a device (Hardware.thy) whose register accesses act on
  memory and on a state of its own: it reads and writes memory on its side. Between two register
  accesses memory changes only by the driver's writes.
\<close>

subsection \<open>State\<close>

text \<open>
  The static variables of kernel/xhci.c and kernel/usb_keyboard.c, and the world: memory with the
  allocator, and the devices. The array \<open>device_status\<close> is split: the members \<open>state\<close> and
  \<open>transfer_ring\<close> are functions of the index, which the code lets run from \<open>-2\<close> to 255 (what an
  index outside 0 to 254 reads is other memory, so any value), the buffers are memory. A null
  pointer is address 0, where the page fault handler maps a page on the first access.
\<close>

record 'd xhci =
  xhci_caplength :: u32
  xhci_runtime_space :: u32
  xhci_doorbell :: u32
  xhci_extend_capability :: u32
  mmio_base :: u64
  cmd_ring :: ring
  event_ring :: ring
  csz :: bool
  device_contexts :: addr
  dev_state :: "int \<Rightarrow> u8"
  dev_ring :: "int \<Rightarrow> addr"
  device_speed :: "int \<Rightarrow> u8"
  current_port :: int
  start :: addr
  s_endpoint_ring :: addr
  s_slot_id :: u8
  s_dci :: u8
  usb_keyboard_found :: bool
  world :: "mem_state \<times> 'd"

text \<open>The devices, and \<open>scroll_screen\<close> of kernel/uefi_graphics.c, which the driver calls as it does \<open>printk\<close>.\<close>

record 'd screen_hardware = "'d hardware" +
  scroll_screen_to :: "'d \<Rightarrow> 'd"

type_synonym 'd hw = "(mem_state \<times> 'd) screen_hardware"

text \<open>Where the linker puts the variables whose addresses are used, and string literals.\<close>

record statics =
  erst_addr :: addr
  device_status_addr :: addr
  keybuf_addr :: addr
  behind_keytable :: "bool \<Rightarrow> u8"
  literal :: "string \<Rightarrow> u64"

text \<open>\<open>sizeof(struct device_state)\<close> is 536, its \<open>buf\<close> is at offset 24.\<close>

definition status_buf :: "statics \<Rightarrow> int \<Rightarrow> addr" where
  "status_buf st i = device_status_addr st + 536 * word_of_int i + 24"

datatype usb_device_status =
  USB_DEVICE_STATUS_RESET | USB_DEVICE_STATUS_WAIT_ENABLE_SLOT | USB_DEVICE_STATUS_ENABLE_SLOT
| USB_DEVICE_STATUS_ADDRESS_DEVICE | USB_DEVICE_STATUS_GET_DESCRIPTOR | USB_DEVICE_STATUS_END_OF_INITIALIZE

fun status_code :: "usb_device_status \<Rightarrow> u8" where
  "status_code USB_DEVICE_STATUS_RESET = 0"
| "status_code USB_DEVICE_STATUS_WAIT_ENABLE_SLOT = 1"
| "status_code USB_DEVICE_STATUS_ENABLE_SLOT = 2"
| "status_code USB_DEVICE_STATUS_ADDRESS_DEVICE = 3"
| "status_code USB_DEVICE_STATUS_GET_DESCRIPTOR = 4"
| "status_code USB_DEVICE_STATUS_END_OF_INITIALIZE = 5"

lemma status_code_eq [simp]: "status_code a = status_code b \<longleftrightarrow> a = b"
  by (cases a; cases b; simp)

text \<open>The states in the order of the enumeration.\<close>

instantiation usb_device_status :: linorder
begin

definition less_eq_usb_device_status :: "usb_device_status \<Rightarrow> usb_device_status \<Rightarrow> bool" where
  "less_eq_usb_device_status a b \<longleftrightarrow> status_code a \<le> status_code b"

definition less_usb_device_status :: "usb_device_status \<Rightarrow> usb_device_status \<Rightarrow> bool" where
  "less_usb_device_status a b \<longleftrightarrow> status_code a < status_code b"

instance
proof
  fix a b c :: usb_device_status
  show "a < b \<longleftrightarrow> a \<le> b \<and> \<not> b \<le> a" unfolding less_eq_usb_device_status_def less_usb_device_status_def by (rule less_le_not_le)
  show "a \<le> a" unfolding less_eq_usb_device_status_def by (rule order.refl)
  show "a \<le> b \<or> b \<le> a" unfolding less_eq_usb_device_status_def by (rule linear)
  show "a \<le> b \<Longrightarrow> b \<le> c \<Longrightarrow> a \<le> c" unfolding less_eq_usb_device_status_def by (rule order.trans)
  show "a \<le> b \<Longrightarrow> b \<le> a \<Longrightarrow> a = b" unfolding less_eq_usb_device_status_def using status_code_eq order.antisym by metis
qed

end

definition USB_FULLSPEED :: u8 where "USB_FULLSPEED = 1"
definition USB_LOWSPEED :: u8 where "USB_LOWSPEED = 2"

subsection \<open>Running\<close>

text \<open>
  \<open>None\<close> is a function that does not return because a loop does not end, \<open>Inl\<close> one that ends in
  \<open>panic\<close>.
\<close>

type_synonym ('a, 'd) run = "'d xhci \<Rightarrow> ((panic + 'a) \<times> 'd xhci) option"

definition ret :: "'a \<Rightarrow> ('a, 'd) run" where "ret x s = Some (Inr x, s)"

definition seq :: "('a, 'd) run \<Rightarrow> ('a \<Rightarrow> ('b, 'd) run) \<Rightarrow> ('b, 'd) run" where
  "seq m f s = (case m s of
     None \<Rightarrow> None
   | Some (Inl e, s') \<Rightarrow> Some (Inl e, s')
   | Some (Inr x, s') \<Rightarrow> f x s')"

definition panics :: "string \<Rightarrow> ('a, 'd) run" where "panics msg s = Some (Inl (Panic msg), s)"

definition act :: "('d xhci \<Rightarrow> 'd xhci) \<Rightarrow> (unit, 'd) run" where "act f s = ret () (f s)"
definition ask :: "('d xhci \<Rightarrow> 'a) \<Rightarrow> ('a, 'd) run" where "ask f s = ret (f s) s"
definition calc :: "('d xhci \<Rightarrow> 'a \<times> 'd xhci) \<Rightarrow> ('a, 'd) run" where "calc f s = (case f s of (x, s') \<Rightarrow> ret x s')"
definition when_run :: "bool \<Rightarrow> (unit, 'd) run \<Rightarrow> (unit, 'd) run" where "when_run b m = (if b then m else ret ())"

lemma seq_mono [partial_function_mono]:
  fixes g :: "('u \<Rightarrow> 'v option) \<Rightarrow> 'a \<Rightarrow> ('b, 'd) run"
  assumes "\<And>y s'. monotone (fun_ord option_ord) option_ord (\<lambda>f. g f y s')"
  shows "monotone (fun_ord option_ord) option_ord (\<lambda>f. seq m (g f) s)"
proof (rule monotoneI)
  fix x y :: "'u \<Rightarrow> 'v option" assume le: "fun_ord option_ord x y"
  have "option_ord (g x a b) (g y a b)" for a b
    using assms [of a b] le unfolding monotone_def by blast
  then show "option_ord (seq m (g x) s) (seq m (g y) s)"
    by (auto simp: seq_def flat_ord_def split: option.split sum.split)
qed

lemma seq_assoc: "seq m (\<lambda>x. seq (f x) g) = seq (seq m f) g"
  by (rule ext) (simp add: seq_def split: option.split sum.split)

definition mem_of :: "'d xhci \<Rightarrow> mem" where "mem_of s = heap (fst (world s))"

definition map_mem :: "(mem \<Rightarrow> mem) \<Rightarrow> 'd xhci \<Rightarrow> 'd xhci" where
  "map_mem f s = s\<lparr>world := apfst (\<lambda>k. k\<lparr>heap := f (heap k)\<rparr>) (world s)\<rparr>"

text \<open>The allocator: \<open>alloc_mem\<close>, and \<open>if(!p) panic("alloc_mem failed!")\<close>.\<close>

definition alloc_or_panic :: "u32 \<Rightarrow> (addr, 'd) run" where
  "alloc_or_panic pages s =
     (case alloc_mem pages (fst (world s)) of
        None \<Rightarrow> None
      | Some (p, k) \<Rightarrow>
          let s = s\<lparr>world := (k, snd (world s))\<rparr>
          in if p = 0 then panics ''alloc_mem failed!'' s else ret p s)"

definition new_ring_run :: "(ring, 'd) run" where
  "new_ring_run s =
     (case new_ring (fst (world s)) of
        None \<Rightarrow> None
      | Some (r, k) \<Rightarrow> Some (r, s\<lparr>world := (k, snd (world s))\<rparr>))"

text \<open>\<open>xhci_debug\<close> is \<open>printk\<close> (\<open>TEST_XHCI\<close> is 1 in include/flags.h); most messages end in a newline.\<close>

definition print_run :: "'d hw \<Rightarrow> string \<Rightarrow> u64 list \<Rightarrow> 'd xhci \<Rightarrow> 'd xhci" where
  "print_run hw fmt args s = s\<lparr>world := printk_to hw (fmt, args) (world s)\<rparr>"

definition xhci_debug :: "'d hw \<Rightarrow> string \<Rightarrow> u64 list \<Rightarrow> 'd xhci \<Rightarrow> 'd xhci" where
  "xhci_debug hw fmt args = print_run hw (fmt @ [CHR 0x0A]) args"

subsection \<open>Registers\<close>

definition mmio_get :: "'d hw \<Rightarrow> addr \<Rightarrow> 'd xhci \<Rightarrow> u32 \<times> 'd xhci" where
  "mmio_get hw a s = (case mmio_read hw a (world s) of (v, w) \<Rightarrow> (v, s\<lparr>world := w\<rparr>))"

definition mmio_put :: "'d hw \<Rightarrow> addr \<Rightarrow> u32 \<Rightarrow> 'd xhci \<Rightarrow> 'd xhci" where
  "mmio_put hw a v s = s\<lparr>world := mmio_write hw a v (world s)\<rparr>"

definition CAPLENGTH :: u16 where "CAPLENGTH = 0x00"
definition HCSPARAMS1 :: u16 where "HCSPARAMS1 = 0x04"
definition HCSPARAMS2 :: u16 where "HCSPARAMS2 = 0x08"
definition HCCPARAMS1 :: u16 where "HCCPARAMS1 = 0x10"
definition DBOFF :: u16 where "DBOFF = 0x14"
definition RTSOFF :: u16 where "RTSOFF = 0x18"
definition USBCMD :: u16 where "USBCMD = 0x00"
definition USBSTS :: u16 where "USBSTS = 0x04"
definition CRCR :: u16 where "CRCR = 0x18"
definition DCBAAP :: u16 where "DCBAAP = 0x30"
definition CONFIG :: u16 where "CONFIG = 0x38"
definition PORTSC :: "u8 \<Rightarrow> u32" where "PORTSC n = 0x400 + 0x10 * (ucast n - 1)"
definition ERSTSZ :: "u16 \<Rightarrow> u16" where "ERSTSZ n = 0x20 + 0x08 + n * 0x20"
definition ERSTBA :: "u16 \<Rightarrow> u16" where "ERSTBA n = 0x20 + 0x10 + n * 0x20"
definition ERDP :: "u16 \<Rightarrow> u16" where "ERDP n = 0x20 + 0x18 + n * 0x20"

definition read_xhci :: "'d hw \<Rightarrow> u16 \<Rightarrow> 'd xhci \<Rightarrow> u32 \<times> 'd xhci" where
  "read_xhci hw reg s = mmio_get hw (mmio_base s + ucast reg) s"

definition read_xhci_operation :: "'d hw \<Rightarrow> u16 \<Rightarrow> 'd xhci \<Rightarrow> u32 \<times> 'd xhci" where
  "read_xhci_operation hw reg s = mmio_get hw (mmio_base s + ucast (xhci_caplength s) + ucast reg) s"

definition write_xhci_operation :: "'d hw \<Rightarrow> u16 \<Rightarrow> u32 \<Rightarrow> 'd xhci \<Rightarrow> 'd xhci" where
  "write_xhci_operation hw reg val s = mmio_put hw (mmio_base s + ucast (xhci_caplength s) + ucast reg) val s"

definition read_xhci_runtime :: "'d hw \<Rightarrow> u16 \<Rightarrow> 'd xhci \<Rightarrow> u32 \<times> 'd xhci" where
  "read_xhci_runtime hw reg s = mmio_get hw (mmio_base s + ucast (xhci_runtime_space s) + ucast reg) s"

definition write_xhci_runtime :: "'d hw \<Rightarrow> u16 \<Rightarrow> u32 \<Rightarrow> 'd xhci \<Rightarrow> 'd xhci" where
  "write_xhci_runtime hw reg val s = mmio_put hw (mmio_base s + ucast (xhci_runtime_space s) + ucast reg) val s"

definition write_xhci_doorbell :: "'d hw \<Rightarrow> u8 \<Rightarrow> u32 \<Rightarrow> 'd xhci \<Rightarrow> 'd xhci" where
  "write_xhci_doorbell hw reg val s = mmio_put hw (mmio_base s + ucast (xhci_doorbell s) + 4 * ucast reg) val s"

subsection \<open>Writing to rings\<close>

definition write_cmd_ring :: "trb \<Rightarrow> 'd xhci \<Rightarrow> 'd xhci" where
  "write_cmd_ring data s =
     (case write_ring data (cmd_ring s, mem_of s) of (r, h) \<Rightarrow> map_mem (\<lambda>_. h) (s\<lparr>cmd_ring := r\<rparr>))"

definition get_descriptor ::
  "'d hw \<Rightarrow> addr \<Rightarrow> u8 \<Rightarrow> u16 \<Rightarrow> u8 \<Rightarrow> addr \<Rightarrow> u32 \<Rightarrow> 'd xhci \<Rightarrow> 'd xhci" where
  "get_descriptor hw transfer_ring slot_id desc_type desc_index buf buf_len s =
     (let setup_trb = init_setup_stage_trb;
          setup_trb = set_f setup_stage_trb ''request_type'' 0x80 setup_trb;
          setup_trb = set_f setup_stage_trb ''request'' 6 setup_trb;
          setup_trb = set_f setup_stage_trb ''wvalue'' (push_bit 8 (ucast desc_type) OR ucast desc_index) setup_trb;
          setup_trb = set_f setup_stage_trb ''windex'' 0 setup_trb;
          setup_trb = set_f setup_stage_trb ''wlength'' (ucast buf_len) setup_trb;
          setup_trb = set_f setup_stage_trb ''trt'' 3 setup_trb;
          data_trb = init_data_stage_trb (v2p buf) buf_len;
          data_trb = set_f data_stage_trb ''tdsize'' 0 data_trb;
          data_trb = set_f data_stage_trb ''dir'' 1 data_trb;
          status_trb = init_status_stage_trb;
          status_trb = set_f status_stage_trb ''dir'' 0 status_trb;
          s = map_mem (write_ring_at transfer_ring setup_trb) s;
          s = map_mem (write_ring_at transfer_ring data_trb) s;
          s = map_mem (write_ring_at transfer_ring status_trb) s
      in write_xhci_doorbell hw slot_id 1 s)"

text \<open>\<open>get_descriptor_noreport\<close> has the same statements.\<close>

definition get_descriptor_noreport ::
  "'d hw \<Rightarrow> addr \<Rightarrow> u8 \<Rightarrow> u16 \<Rightarrow> u8 \<Rightarrow> addr \<Rightarrow> u32 \<Rightarrow> 'd xhci \<Rightarrow> 'd xhci" where
  "get_descriptor_noreport = get_descriptor"

subsection \<open>The event ring\<close>

definition getTRB :: "'d hw \<Rightarrow> 'd xhci \<Rightarrow> addr \<times> 'd xhci" where
  "getTRB hw s =
     (let (lo, s) = read_xhci_runtime hw (ERDP 0 + 0) s;
          (hi, s) = read_xhci_runtime hw (ERDP 0 + 4) s;
          erdp = ucast lo OR push_bit 32 (ucast hi) :: u64
      in (P2V (erdp AND NOT 0x0f), s))"

definition write_event_ring :: "'d hw \<Rightarrow> 'd xhci \<Rightarrow> 'd xhci" where
  "write_event_ring hw s =
     (let (trb, s) = getTRB hw s;
          trb = trb + 16
      in if trb = rbuf (event_ring s) + 4096 then
           let s = s\<lparr>event_ring := (event_ring s)\<lparr>cycle_bit := \<not> cycle_bit (event_ring s)\<rparr>\<rparr>;
               s = write_xhci_runtime hw (ERDP 0 + 0) (ucast (v2p (rbuf (event_ring s)) OR 0x08)) s
           in write_xhci_runtime hw (ERDP 0 + 4) (ucast (drop_bit 32 (v2p (rbuf (event_ring s))))) s
         else
           let s = write_xhci_runtime hw (ERDP 0 + 0) (ucast (v2p trb OR 0x08)) s
           in write_xhci_runtime hw (ERDP 0 + 4) (ucast (drop_bit 32 (v2p trb))) s)"

definition er_isQueued :: "'d hw \<Rightarrow> 'd xhci \<Rightarrow> bool \<times> 'd xhci" where
  "er_isQueued hw s =
     (let (trb, s) = getTRB hw s
      in ((get_f normal_trb ''c'' (load_struct (mem_of s) trb :: trb) = 1) = cycle_bit (event_ring s), s))"

partial_function (option) wait_event :: "'d hw \<Rightarrow> 'd xhci \<Rightarrow> 'd xhci option" where
  "wait_event hw s =
     (case er_isQueued hw s of (queued, s) \<Rightarrow> if queued then Some s else wait_event hw s)"

definition get_eventring :: "'d hw \<Rightarrow> 'd xhci \<Rightarrow> (addr \<times> 'd xhci) option" where
  "get_eventring hw s =
     (let (trb, s) = getTRB hw s
      in case wait_event hw s of None \<Rightarrow> None | Some s \<Rightarrow> Some (trb, write_event_ring hw s))"

subsection \<open>\<open>init_xhci\<close>\<close>

text \<open>The walk over the extended capabilities.\<close>

definition capability_addr :: "u16 \<Rightarrow> 'd xhci \<Rightarrow> addr" where
  "capability_addr off s = mmio_base s + ucast (xhci_extend_capability s) + ucast off"

definition scan_capability :: "'d hw \<Rightarrow> u16 \<Rightarrow> 'd xhci \<Rightarrow> u16 \<times> 'd xhci" where
  "scan_capability hw off s =
     (let (v, s) = mmio_get hw (capability_addr off s) s;
          (v, s) = (if v AND 0xff = 1
                    then (v OR push_bit 24 1, mmio_put hw (capability_addr off s) (v OR push_bit 24 1) s)
                    else (v, s));
          s = (if v AND 0xff = 2
               then let (offset08, s) = mmio_get hw (capability_addr off s + 0x08) s;
                        port_offset = offset08 AND 0xff;
                        port_count = drop_bit 8 offset08 AND 0xff;
                        psic = drop_bit 28 offset08 AND 0x0f
                    in xhci_debug hw ''port_offset:%d port_count:%d psic:%d''
                         [ucast port_offset, ucast port_count, ucast psic] s
               else s)
      in (ucast (push_bit 2 (drop_bit 8 v AND 0xffff)), s))"

partial_function (option) scan_capabilities :: "'d hw \<Rightarrow> u16 \<Rightarrow> 'd xhci \<Rightarrow> 'd xhci option" where
  "scan_capabilities hw off s =
     (case scan_capability hw off s of (off, s) \<Rightarrow>
        if off = 0 then Some s else scan_capabilities hw off s)"

text \<open>\<open>while(v & mask) v = read_xhci_operation(reg);\<close>\<close>

partial_function (option) wait_clear :: "'d hw \<Rightarrow> u16 \<Rightarrow> u32 \<Rightarrow> u32 \<Rightarrow> 'd xhci \<Rightarrow> 'd xhci option" where
  "wait_clear hw reg m v s =
     (if v AND m = 0 then Some s
      else case read_xhci_operation hw reg s of (v, s) \<Rightarrow> wait_clear hw reg m v s)"

definition lift :: "('d xhci \<Rightarrow> 'd xhci option) \<Rightarrow> (unit, 'd) run" where
  "lift f s = (case f s of None \<Rightarrow> None | Some s \<Rightarrow> ret () s)"

fun fill_scratchpads :: "u32 \<Rightarrow> addr \<Rightarrow> nat \<Rightarrow> nat \<Rightarrow> (unit, 'd) run" where
  "fill_scratchpads pagesize scratchpad_array i 0 = ret ()"
| "fill_scratchpads pagesize scratchpad_array i (Suc n) =
     (if pagesize = 0x01 then
        seq (alloc_or_panic 1) (\<lambda>buf.
        seq (act (map_mem (write64 (scratchpad_array + 8 * word_of_nat i) (v2p buf)))) (\<lambda>_.
        fill_scratchpads pagesize scratchpad_array (Suc i) n))
      else panics (''scratchpad panic!'' @ [CHR 0x0A]))"

text \<open>The reset of the controller.\<close>

definition reset_controller :: "'d hw \<Rightarrow> (unit, 'd) run" where
  "reset_controller hw =
     seq (calc (read_xhci_operation hw USBSTS)) (\<lambda>usbsts.
     if usbsts AND 0x01 = 0 then panics ''USBSTS.HCH is 0!''
     else
     seq (calc (read_xhci_operation hw USBCMD)) (\<lambda>usbcmd.
     seq (act (write_xhci_operation hw USBCMD (usbcmd OR 0x02))) (\<lambda>_.
     seq (calc (read_xhci_operation hw USBCMD)) (\<lambda>usbcmd.
     seq (lift (wait_clear hw USBCMD 0x02 usbcmd)) (\<lambda>_.
     seq (calc (read_xhci_operation hw USBSTS)) (\<lambda>usbsts.
     lift (wait_clear hw USBSTS 0x800 usbsts)))))))"

text \<open>The device context array with the scratchpad buffers.\<close>

definition setup_contexts :: "'d hw \<Rightarrow> u32 \<Rightarrow> (unit, 'd) run" where
  "setup_contexts hw pagesize =
     seq (calc (read_xhci hw HCSPARAMS1)) (\<lambda>hcsparams1.
     seq (calc (read_xhci_operation hw CONFIG)) (\<lambda>config.
     seq (act (write_xhci_operation hw CONFIG (config AND NOT 0xff OR (hcsparams1 AND 0xff)))) (\<lambda>_.
     seq (alloc_or_panic 1) (\<lambda>contexts.
     seq (act (\<lambda>s. map_mem (memset contexts 0 4096) (s\<lparr>device_contexts := contexts\<rparr>))) (\<lambda>_.
     seq (calc (read_xhci hw HCSPARAMS2)) (\<lambda>params2.
     let scratchpads = (drop_bit 27 params2 AND 0x1f) OR push_bit 5 (drop_bit 21 params2 AND 0x1f) in
     seq (alloc_or_panic ((scratchpads * 8 + 4095) div 4096)) (\<lambda>scratchpad_array.
     seq (fill_scratchpads pagesize scratchpad_array 0 (unat scratchpads)) (\<lambda>_.
     seq (act (map_mem (write64 contexts (v2p scratchpad_array)))) (\<lambda>_.
     seq (act (write_xhci_operation hw (DCBAAP + 0) (ucast (v2p contexts AND 0xffffffff)))) (\<lambda>_.
     act (write_xhci_operation hw (DCBAAP + 4) (ucast (drop_bit 32 (v2p contexts) AND 0xffffffff)))))))))))))"

definition setup_command_ring :: "'d hw \<Rightarrow> (unit, 'd) run" where
  "setup_command_ring hw =
     seq new_ring_run (\<lambda>r.
     seq (act (\<lambda>s. s\<lparr>cmd_ring := r\<rparr>)) (\<lambda>_.
     seq (act (write_xhci_operation hw (CRCR + 0) (ucast (v2p (rbuf r) AND 0xffffffff) OR of_bool (cycle_bit r)))) (\<lambda>_.
     act (write_xhci_operation hw (CRCR + 4) (ucast (drop_bit 32 (v2p (rbuf r)) AND 0xffffffff))))))"

definition setup_event_ring :: "'d hw \<Rightarrow> statics \<Rightarrow> (unit, 'd) run" where
  "setup_event_ring hw st =
     seq new_ring_run (\<lambda>r.
     seq (act (\<lambda>s. map_mem (\<lambda>h. store_struct (erst_addr st + 8) (word_of_int (ring_size r) :: u16)
       (write64 (erst_addr st) (v2p (rbuf r)) h)) (s\<lparr>event_ring := r\<rparr>))) (\<lambda>_.
     seq (act (write_xhci_runtime hw (ERSTSZ 0) 1)) (\<lambda>_.
     seq (act (\<lambda>s. write_xhci_runtime hw (ERDP 0 + 0) (ucast (read64 (mem_of s) (erst_addr st))) s)) (\<lambda>_.
     seq (act (\<lambda>s. write_xhci_runtime hw (ERDP 0 + 4) (ucast (drop_bit 32 (read64 (mem_of s) (erst_addr st)))) s)) (\<lambda>_.
     seq (act (write_xhci_runtime hw (ERSTBA 0 + 0) (ucast (v2p (erst_addr st))))) (\<lambda>_.
     act (write_xhci_runtime hw (ERSTBA 0 + 4) (ucast (drop_bit 32 (v2p (erst_addr st)))))))))))"

definition run_controller :: "'d hw \<Rightarrow> (unit, 'd) run" where
  "run_controller hw =
     seq (calc (read_xhci_operation hw USBCMD)) (\<lambda>usbcmd.
     seq (act (write_xhci_operation hw USBCMD (usbcmd OR 0x01))) (\<lambda>_.
     seq (calc (read_xhci_operation hw USBSTS)) (\<lambda>usbsts.
     lift (wait_clear hw USBSTS 0x01 usbsts))))"

text \<open>The addresses of the register spaces and the capabilities.\<close>

definition find_registers :: "'d hw \<Rightarrow> pci_device \<Rightarrow> (unit, 'd) run" where
  "find_registers hw dev =
     seq (act (xhci_debug hw ''xHCI is found.'' [])) (\<lambda>_.
     let addr = push_bit 32 (ucast (bar1 dev)) OR ucast (bar0 dev AND NOT 0x0f) in
     seq (act (\<lambda>s. s\<lparr>mmio_base := P2V addr\<rparr>)) (\<lambda>_.
     seq (act (\<lambda>s. xhci_debug hw ''mmio_base:%016X'' [mmio_base s] s)) (\<lambda>_.
     seq (calc (read_xhci hw CAPLENGTH)) (\<lambda>caplength.
     seq (act (\<lambda>s. s\<lparr>xhci_caplength := caplength AND 0xff\<rparr>)) (\<lambda>_.
     seq (calc (read_xhci hw RTSOFF)) (\<lambda>rtsoff.
     seq (act (\<lambda>s. s\<lparr>xhci_runtime_space := rtsoff\<rparr>)) (\<lambda>_.
     seq (calc (read_xhci hw DBOFF)) (\<lambda>dboff.
     seq (act (\<lambda>s. s\<lparr>xhci_doorbell := dboff\<rparr>)) (\<lambda>_.
     seq (calc (read_xhci hw HCCPARAMS1)) (\<lambda>hccparams.
     seq (act (\<lambda>s. s\<lparr>xhci_extend_capability := push_bit 2 (drop_bit 16 hccparams AND 0xffff)\<rparr>)) (\<lambda>_.
     seq (lift (scan_capabilities hw 0)) (\<lambda>_.
     act (\<lambda>s. s\<lparr>csz := (hccparams AND 0x04 \<noteq> 0)\<rparr>)))))))))))))"

definition init_xhci :: "'d hw \<Rightarrow> statics \<Rightarrow> pci_device \<Rightarrow> (unit, 'd) run" where
  "init_xhci hw st dev =
     seq (find_registers hw dev) (\<lambda>_.
     seq (calc (read_xhci_operation hw 0x08)) (\<lambda>pagesize.
     seq (reset_controller hw) (\<lambda>_.
     seq (setup_contexts hw pagesize) (\<lambda>_.
     seq (setup_command_ring hw) (\<lambda>_.
     seq (setup_event_ring hw st) (\<lambda>_.
     seq (run_controller hw) (\<lambda>_.
     seq (act (xhci_debug hw ''xHCI is Run'' [])) (\<lambda>_.
     act (\<lambda>s. s\<lparr>world := scroll_screen_to hw (world s)\<rparr>)))))))))"

end
