(* ===== verification/Usb_Keyboard.thy ===== *)
theory Usb_Keyboard
  imports Xhci
begin

unbundle bit_operations_syntax

text \<open>
  The keyboard driver of kernel/usb_keyboard.c: the key tables, \<open>init_usb_keyboard\<close> and
  \<open>read_usb_keyboard\<close>, and the names kernel/xhci.c gives to TRB types and completion codes.
\<close>

subsection \<open>Names\<close>

definition get_trb_type :: "u64 \<Rightarrow> string" where
  "get_trb_type i =
     (if i = 1 then ''Normal'' else if i = 3 then ''Data Stage'' else if i = 4 then ''Status Stage''
      else if i = 9 then ''Enable Slot'' else if i = 11 then ''Address Device'' else if i = 12 then ''Configure Endpoint''
      else if i = 13 then ''Evaluate Context'' else if i = 32 then ''Transfer'' else if i = 33 then ''Command Completion''
      else if i = 34 then ''Port Status Change'' else ''?'')"

definition get_completion_msg :: "u64 \<Rightarrow> string" where
  "get_completion_msg i =
     (if i = 0 then ''Invalid'' else if i = 1 then ''Success'' else if i = 3 then ''Bubble Detected''
      else if i = 4 then ''USB Transaction'' else if i = 5 then ''TRB'' else if i = 6 then ''Stall''
      else if i = 11 then ''Slot Not Enabled'' else if i = 12 then ''Endpoint Not Enabled'' else if i = 13 then ''Short Packet''
      else if i = 17 then ''Parameter'' else if i = 19 then ''Context State'' else if i = 20 then ''No Ping Response''
      else if i = 21 then ''Event Ring Full'' else ''?'')"

subsection \<open>Key tables\<close>

definition chars :: "string \<Rightarrow> u8 list" where "chars = map of_char"

text \<open>The initialised part of the tables; the rest of their 255 entries is 0.\<close>

definition keytable0 :: "u8 list" where
  "keytable0 =
     [0, 0, 0, 0] @ chars ''abcdefghijkl'' @
     chars ''mnopqrstuvwxyz12'' @
     chars ''34567890'' @ [0x0a, 0x08, 0x08, 0x09] @ chars '' -=['' @
     chars '']'' @ [0x5c] @ chars ''#;'' @ [0x27, 0x60] @ chars '',./'' @ replicate 7 0 @
     replicate 16 0 @
     replicate 4 0 @ chars ''/*-+'' @ [0x0a] @ chars ''1234567'' @
     chars ''890.'' @ [0x5c, 0, 0] @ chars ''='' @ replicate 8 0 @
     replicate 16 0 @
     replicate 9 0 @ [0x5c] @ replicate 6 0"

definition keytable1 :: "u8 list" where
  "keytable1 =
     [0, 0, 0, 0] @ chars ''ABCDEFGHIJKL'' @
     chars ''MNOPQRSTUVWXYZ!@'' @
     chars ''#$%^&*()'' @ [0x0a, 0x08, 0x08, 0x09] @ chars '' _+{'' @
     chars ''}|~:'' @ [0x22] @ chars ''~<>?'' @ replicate 7 0 @
     replicate 16 0 @
     replicate 4 0 @ chars ''/*-+'' @ [0x0a] @ chars ''1234567'' @
     chars ''890.'' @ [0x5c, 0, 0] @ chars ''='' @ replicate 8 0 @
     replicate 16 0 @
     replicate 9 0 @ chars ''|'' @ replicate 6 0"

text \<open>\<open>key[code]\<close>: a code may be 255, one behind the table.\<close>

definition key_char :: "statics \<Rightarrow> bool \<Rightarrow> u8 \<Rightarrow> u8" where
  "key_char st shift code =
     (let table = (if shift then keytable1 else keytable0); i = unat code
      in if i < length table then table ! i else if i < 255 then 0 else behind_keytable st shift)"

subsection \<open>Operations\<close>

definition init_usb_keyboard :: "'d hw \<Rightarrow> addr \<Rightarrow> u8 \<Rightarrow> u8 \<Rightarrow> 'd xhci \<Rightarrow> 'd xhci" where
  "init_usb_keyboard hw endpoint_ring slot_id dci s =
     (let s = s\<lparr>s_endpoint_ring := endpoint_ring, s_slot_id := slot_id, s_dci := dci, usb_keyboard_found := True\<rparr>;
          s = xhci_debug hw ''s_slot_id:%d s_dci:%d'' [ucast (s_slot_id s), ucast (s_dci s)] s
      in xhci_debug hw ''usb_keyboard_found true'' [] s)"

definition trb_field :: "layout \<Rightarrow> string \<Rightarrow> addr \<Rightarrow> 'd xhci \<Rightarrow> u64" where
  "trb_field L f p s = get_f L f (load_struct (mem_of s) p :: trb)"

definition keybuf :: "statics \<Rightarrow> nat \<Rightarrow> 'd xhci \<Rightarrow> u8" where
  "keybuf st j s = mem_of s (keybuf_addr st + word_of_nat j)"

definition print_keys :: "'d hw \<Rightarrow> statics \<Rightarrow> 'd xhci \<Rightarrow> 'd xhci" where
  "print_keys hw st s =
     (let s = print_run hw ''keybuf[0]:%02X '' [ucast (keybuf st 0 s)] s;
          s = fold (\<lambda>j s. if keybuf st j s = 0 then s
                     else print_run hw ''keybuf[%d]:%02X '' [word_of_nat j, ucast (keybuf st j s)] s) [2..<8] s
      in print_run hw [CHR 0x0A] [] s)"

text \<open>One TRB on the interrupt endpoint's ring: eight bytes to \<open>keybuf\<close>.\<close>

definition keyboard_trb :: "statics \<Rightarrow> trb" where
  "keyboard_trb st =
     set_f normal_trb ''isp'' 1 (set_f normal_trb ''length'' 8 (init_normal_trb (v2p (keybuf_addr st))))"

definition key_event :: "'d hw \<Rightarrow> statics \<Rightarrow> addr \<Rightarrow> 'd xhci \<Rightarrow> u8 \<times> 'd xhci" where
  "key_event hw st trb s =
     (let code = trb_field transfer_event ''code'' trb s;
          s = xhci_debug hw ''Transfer Event code=%s(%d) slot=%d''
                [literal st (get_completion_msg code), code, trb_field transfer_event ''slot_id'' trb s] s
      in if trb_field transfer_event ''ptr'' trb s = 0 then (0, s)
         else
           let trb2 = P2V (trb_field transfer_event ''ptr'' trb s);
               kind = trb_field normal_trb ''type'' trb2 s;
               s = xhci_debug hw ''issuer:%s(%d)'' [literal st (get_trb_type kind), kind] s
           in if trb_field normal_trb ''type'' trb2 s = 1 \<and>
                 (trb_field transfer_event ''code'' trb s = 1 \<or> trb_field transfer_event ''code'' trb s = 13)
              then
                let shift = (keybuf st 0 s AND 0x22 \<noteq> 0);
                    s = print_keys hw st s
                in (key_char st shift (keybuf st 2 s), s)
              else (0, s))"

definition read_usb_keyboard :: "'d hw \<Rightarrow> statics \<Rightarrow> 'd xhci \<Rightarrow> (u8 \<times> 'd xhci) option" where
  "read_usb_keyboard hw st s =
     (let s = map_mem (write_ring_at (s_endpoint_ring s) (keyboard_trb st)) s;
          s = write_xhci_doorbell hw (s_slot_id s) (ucast (s_dci s)) s;
          (queued, s) = er_isQueued hw s
      in if \<not> queued then Some (0, s)
         else case get_eventring hw s of
           None \<Rightarrow> None
         | Some (trb, s) \<Rightarrow>
             let s = xhci_debug hw ''read_usb_keyboard type:%d'' [trb_field normal_trb ''type'' trb s] s
             in if trb_field normal_trb ''type'' trb s = 32 then Some (key_event hw st trb s) else Some (0, s))"

end
