(* ===== verification/Usb.thy ===== *)
theory Usb
  imports Usb_Keyboard
begin

unbundle bit_operations_syntax

text \<open>
  The enumeration of USB devices in kernel/xhci.c: \<open>handle_enable_slot\<close>, the parsing of
  descriptors, and \<open>usb_process_events\<close>, which drives a state machine over the ports.
\<close>

subsection \<open>Contexts and pointers\<close>

definition get_at :: "layout \<Rightarrow> string \<Rightarrow> addr \<Rightarrow> 'd xhci \<Rightarrow> u64" where
  "get_at L f p s = get_f L f (load_struct (mem_of s) p :: ctx)"

definition set_at :: "layout \<Rightarrow> string \<Rightarrow> u64 \<Rightarrow> addr \<Rightarrow> ('d xhci \<Rightarrow> 'd xhci)" where
  "set_at L f v p = map_mem (\<lambda>h. store_struct p (set_f L f v (load_struct h p :: ctx)) h)"

definition read_byte :: "addr \<Rightarrow> 'd xhci \<Rightarrow> u8" where "read_byte p s = mem_of s p"

definition context_entry :: "u64 \<Rightarrow> 'd xhci \<Rightarrow> addr" where
  "context_entry slot s = device_contexts s + 8 * slot"

definition device_context :: "u64 \<Rightarrow> 'd xhci \<Rightarrow> u64" where
  "device_context slot s = read64 (mem_of s) (context_entry slot s)"

text \<open>\<open>new_ring(p)\<close> for a ring structure in memory, and a ring structure in a page of its own.\<close>

definition new_ring_at :: "addr \<Rightarrow> (unit, 'd) run" where
  "new_ring_at p = seq new_ring_run (\<lambda>r. act (map_mem (store_ring p r)))"

definition ring_command :: "'d hw \<Rightarrow> trb \<Rightarrow> 'd xhci \<Rightarrow> 'd xhci" where
  "ring_command hw data s = write_xhci_doorbell hw 0 0 (write_cmd_ring data s)"

definition enable_slot_trb :: trb where
  "enable_slot_trb = set_f enable_slot_command ''type'' 9 0"

subsection \<open>\<open>handle_enable_slot\<close>\<close>

definition init_slot :: "'d hw \<Rightarrow> u64 \<Rightarrow> u8 \<Rightarrow> addr \<Rightarrow> 'd xhci \<Rightarrow> 'd xhci" where
  "init_slot hw slot port_id input_ctx s =
     (let slotctx = slotctx_of input_ctx;
          s = set_at input_control_context ''a_flags'' 0x03 input_ctx s;
          s = map_mem (write64 (context_entry slot s) (v2p slotctx)) s;
          s = xhci_debug hw ''device_contexts[%d]:%016X'' [slot, v2p slotctx] s;
          s = set_at slot_context ''route_string'' 0 slotctx s;
          s = set_at slot_context ''root_hub_port_num'' (word_of_int (current_port s)) slotctx s;
          s = set_at slot_context ''context_entries'' 1 slotctx s;
          (portsc, s) = read_xhci_operation hw (ucast (PORTSC port_id)) s;
          s = xhci_debug hw ''PSIV:%02X'' [ucast (drop_bit 10 portsc AND 0x0f)] s;
          (portsc, s) = read_xhci_operation hw (ucast (PORTSC port_id)) s
      in set_at slot_context ''speed'' (ucast (drop_bit 10 portsc AND 0x0f)) slotctx s)"

definition init_control_endpoint :: "addr \<Rightarrow> 'd xhci \<Rightarrow> 'd xhci" where
  "init_control_endpoint input_ctx s =
     (let ep = epctx_of input_ctx 0; slotctx = slotctx_of input_ctx;
          s = set_at endpoint_context ''ep_type'' 4 ep s;
          ring = read_ring (mem_of s) (dev_ring s (current_port s - 1));
          s = set_at endpoint_context ''tr_pointer'' (v2p (rbuf ring) OR of_bool (cycle_bit ring)) ep s;
          s = set_at endpoint_context ''max_burst_size'' 0 ep s;
          s = set_at endpoint_context ''mult'' 0 ep s;
          s = set_at endpoint_context ''interval'' 0 ep s;
          s = set_at endpoint_context ''max_pstreams'' 0 ep s;
          s = set_at endpoint_context ''cerr'' 3 ep s;
          s = set_at endpoint_context ''average_length'' 8 ep s
      in set_at endpoint_context ''max_packet_size''
           (if get_at slot_context ''speed'' slotctx s = 4 then 512
            else if get_at slot_context ''speed'' slotctx s = 3 then 64 else 8) ep s)"

text \<open>The first eight bytes of a full speed device's descriptor give its packet size.\<close>

definition evaluate_packet_size :: "'d hw \<Rightarrow> statics \<Rightarrow> u64 \<Rightarrow> u8 \<Rightarrow> addr \<Rightarrow> 'd xhci \<Rightarrow> 'd xhci" where
  "evaluate_packet_size hw st slot port_id input_ctx s =
     (let i = int (unat port_id) - 1; buf = status_buf st i;
          s = get_descriptor_noreport hw (dev_ring s i) (ucast slot) 1 0 buf 8 s;
          s = xhci_debug hw ''length:%d'' [ucast (read_byte buf s)] s;
          s = xhci_debug hw ''bMaxPacketSize0:%d'' [ucast (read_byte (buf + 7) s)] s
      in if read_byte (buf + 7) s \<noteq> 0 then
           let s = set_at endpoint_context ''max_packet_size'' (ucast (read_byte (buf + 7) s)) (epctx_of input_ctx 0) s;
               cmd = set_f evaluate_context_command ''input_ctx_ptr'' (v2p input_ctx) 0;
               cmd = set_f evaluate_context_command ''type'' 13 cmd;
               cmd = set_f evaluate_context_command ''slot_id'' slot cmd
           in ring_command hw cmd s
         else s)"

definition handle_enable_slot :: "'d hw \<Rightarrow> statics \<Rightarrow> addr \<Rightarrow> u8 \<Rightarrow> (unit, 'd) run" where
  "handle_enable_slot hw st event port_id =
     seq (ask (trb_field command_completion_event ''slot_id'' event)) (\<lambda>slot.
     seq (act (xhci_debug hw ''Enable Slot slot:%d'' [slot])) (\<lambda>_.
     seq (alloc_or_panic 2) (\<lambda>input_ctx_buf.
     seq (act (map_mem (memset input_ctx_buf 0 (4096 * 2)))) (\<lambda>_.
     let input_ctx = input_ctx_buf + 4096 - 0x20; slotctx = slotctx_of input_ctx in
     seq (act (init_slot hw slot port_id input_ctx)) (\<lambda>_.
     seq (alloc_or_panic 1) (\<lambda>ring.
     seq (act (\<lambda>s. s\<lparr>dev_ring := (dev_ring s)(current_port s - 1 := ring)\<rparr>)) (\<lambda>_.
     seq (new_ring_at ring) (\<lambda>_.
     seq (act (init_control_endpoint input_ctx)) (\<lambda>_.
     seq (act (ring_command hw (init_address_device_command (v2p input_ctx) (ucast slot)))) (\<lambda>_.
     seq (act (\<lambda>s. xhci_debug hw ''ep_ctx->max_packet_size:%d''
       [get_at endpoint_context ''max_packet_size'' (P2V (device_context slot s) + 0x20) s] s)) (\<lambda>_.
     seq (ask (get_at slot_context ''speed'' slotctx)) (\<lambda>speed.
     seq (act (if speed = 1 then evaluate_packet_size hw st slot port_id input_ctx else id)) (\<lambda>_.
     act (\<lambda>s. s\<lparr>
       device_speed := (device_speed s)(current_port s - 1 := ucast (get_at slot_context ''speed'' slotctx s)),
       dev_state := (dev_state s)(current_port s - 1 := status_code USB_DEVICE_STATUS_ADDRESS_DEVICE)\<rparr>))))))))))))))"

subsection \<open>Descriptors\<close>

text \<open>The loop ends because \<open>b\<close> gets smaller; \<open>r\<close> counts the turns.\<close>

function highest_bit_loop :: "nat \<Rightarrow> u8 \<Rightarrow> nat" where
  "highest_bit_loop r b = (if b = 0 then r else highest_bit_loop (Suc r) (drop_bit 1 b))"
  by pat_completeness auto
termination
proof (relation "measure (\<lambda>(r, b). unat b)")
  fix r and b :: u8 assume "b \<noteq> 0"
  then have "0 < unat b" by (simp add: unat_gt_0)
  then have "unat (drop_bit 1 b) < unat b" by (simp add: drop_bit_eq_div unat_div)
  then show "((Suc r, drop_bit 1 b), (r, b)) \<in> measure (\<lambda>(r, b). unat b)" by simp
qed simp

definition get_highest_bit :: "u8 \<Rightarrow> nat" where "get_highest_bit b = highest_bit_loop 0 b"

text \<open>The class of the interface the parser is in, and whether the configuration was chosen.\<close>

record parse_state =
  classCode :: u8
  subClassCode :: u8
  interface_protocol :: u8
  is_set_configuration :: bool

text \<open>Which of the three non-control transfer types the attributes name.\<close>

definition is_interrupt :: "u8 \<Rightarrow> bool" where "is_interrupt attr \<longleftrightarrow> attr AND 0x03 = 3"
definition is_isochronous :: "u8 \<Rightarrow> bool" where "is_isochronous attr \<longleftrightarrow> attr AND 0x03 = 1"
definition is_bulk :: "u8 \<Rightarrow> bool" where "is_bulk attr \<longleftrightarrow> attr AND 0x03 = 2"

definition ep_type_of :: "u8 \<Rightarrow> u8 \<Rightarrow> u64 option" where
  "ep_type_of attr direction =
     (if is_interrupt attr then Some (if direction \<noteq> 0 then 7 else 3)
      else if is_isochronous attr then Some (if direction \<noteq> 0 then 5 else 1)
      else if is_bulk attr then Some (if direction \<noteq> 0 then 6 else 2)
      else None)"

definition endpoint_interval :: "u8 \<Rightarrow> u8 \<Rightarrow> u8 \<Rightarrow> u64" where
  "endpoint_interval speed attr bInterval =
     (if speed = USB_FULLSPEED \<or> speed = USB_LOWSPEED then
        (if is_isochronous attr then ucast bInterval + 2 else word_of_nat (get_highest_bit bInterval) + 3)
      else ucast bInterval - 1)"

text \<open>The endpoint descriptor at \<open>p\<close> into the endpoint context.\<close>

definition init_endpoint :: "addr \<Rightarrow> addr \<Rightarrow> addr \<Rightarrow> u8 \<Rightarrow> u8 \<Rightarrow> u8 \<Rightarrow> u8 \<Rightarrow> 'd xhci \<Rightarrow> 'd xhci" where
  "init_endpoint input_ctx endpoint p port_id direction attr ep_in_dci s =
     (let ep = epctx_of input_ctx (int (unat ep_in_dci) - 1);
          field = (\<lambda>f s. get_f endpoint_descriptor f (load_struct (mem_of s) p :: 56 word));
          s = (case ep_type_of attr direction of Some t \<Rightarrow> set_at endpoint_context ''ep_type'' t ep s | None \<Rightarrow> s);
          ring = read_ring (mem_of s) endpoint;
          s = set_at endpoint_context ''tr_pointer'' (v2p (rbuf ring) OR of_bool (cycle_bit ring)) ep s;
          s = set_at endpoint_context ''max_packet_size'' (field ''wMaxPacketSize'' s) ep s;
          s = set_at endpoint_context ''max_burst_size'' (drop_bit 11 (field ''wMaxPacketSize'' s AND 0x1800)) ep s;
          s = set_at endpoint_context ''mult'' 0 ep s;
          emit_payload = field ''wMaxPacketSize'' s * (get_at endpoint_context ''max_burst_size'' ep s + 1);
          s = set_at endpoint_context ''max_payload_lo'' (emit_payload AND 0xffff) ep s;
          s = set_at endpoint_context ''max_payload_hi'' (drop_bit 16 emit_payload AND 0xff) ep s;
          s = set_at endpoint_context ''interval''
                (endpoint_interval (device_speed s (int (unat port_id) - 1)) attr (ucast (field ''bInterval'' s))) ep s;
          s = set_at endpoint_context ''max_pstreams'' 0 ep s;
          s = set_at endpoint_context ''cerr'' (if is_isochronous attr then 0 else 3) ep s;
          s = set_at endpoint_context ''average_length'' (3 * 1024) ep s
      in if is_interrupt attr then set_at endpoint_context ''average_length'' 1024 ep s else s)"

text \<open>Enabling the endpoint in the control and slot contexts.\<close>

definition add_endpoint :: "addr \<Rightarrow> u8 \<Rightarrow> 'd xhci \<Rightarrow> 'd xhci" where
  "add_endpoint input_ctx ep_in_dci s =
     (let slotctx = slotctx_of input_ctx;
          s = set_at input_control_context ''a_flags''
                (get_at input_control_context ''a_flags'' input_ctx s OR push_bit (unat ep_in_dci) 1) input_ctx s
      in set_at slot_context ''context_entries''
           (if get_at slot_context ''context_entries'' slotctx s \<le> ucast ep_in_dci then ucast ep_in_dci
            else get_at slot_context ''context_entries'' slotctx s) slotctx s)"

text \<open>The request that selects a configuration.\<close>

definition set_configuration_setup :: "u64 \<Rightarrow> trb" where
  "set_configuration_setup configuration_value =
     (let t = init_setup_stage_trb;
          t = set_f setup_stage_trb ''request_type'' 0 t;
          t = set_f setup_stage_trb ''request'' 9 t;
          t = set_f setup_stage_trb ''wvalue'' configuration_value t;
          t = set_f setup_stage_trb ''windex'' 0 t;
          t = set_f setup_stage_trb ''wlength'' 0 t
      in set_f setup_stage_trb ''trt'' 0 t)"

definition set_configuration_status :: trb where
  "set_configuration_status =
     set_f status_stage_trb ''ioc'' 1 (set_f status_stage_trb ''dir'' 1 init_status_stage_trb)"

definition is_boot_keyboard :: "parse_state \<Rightarrow> u8 \<Rightarrow> u8 \<Rightarrow> bool" where
  "is_boot_keyboard ps direction attr \<longleftrightarrow>
     classCode ps = 3 \<and> subClassCode ps = 1 \<and> interface_protocol ps = 1 \<and> direction = 1 \<and> is_interrupt attr"

definition parse_interface :: "'d hw \<Rightarrow> addr \<Rightarrow> parse_state \<Rightarrow> (parse_state, 'd) run" where
  "parse_interface hw p ps =
     seq (ask (\<lambda>s. load_struct (mem_of s) p :: 72 word)) (\<lambda>d.
     let ps = ps\<lparr>classCode := ucast (get_f interface_descriptor ''bInterfaceClass'' d),
                  subClassCode := ucast (get_f interface_descriptor ''bInterfaceSubClass'' d),
                  interface_protocol := ucast (get_f interface_descriptor ''bInterfaceProtocol'' d)\<rparr> in
     seq (act (xhci_debug hw ''class:%02X subclass:%02X interface:%02X''
       [ucast (classCode ps), ucast (subClassCode ps), ucast (interface_protocol ps)])) (\<lambda>_.
     ret ps))"

definition parse_endpoint ::
  "'d hw \<Rightarrow> u64 \<Rightarrow> u8 \<Rightarrow> u64 \<Rightarrow> addr \<Rightarrow> addr \<Rightarrow> parse_state \<Rightarrow> (parse_state, 'd) run" where
  "parse_endpoint hw slot port_id configuration_value input_ctx p ps =
     seq (ask (\<lambda>s. load_struct (mem_of s) p :: 56 word)) (\<lambda>d.
     let ep_addr = ucast (get_f endpoint_descriptor ''bEndpointAddress'' d) :: u8;
         direction = drop_bit 7 ep_addr;
         attr = ucast (get_f endpoint_descriptor ''bmAttributes'' d) :: u8 in
     seq (act (xhci_debug hw ''ep_addr:%02X direction:%d attr:%02X interrupt:%d''
       [ucast ep_addr, ucast direction, ucast attr, of_bool (is_interrupt attr)])) (\<lambda>_.
     let ep_in_num = ep_addr AND 0x0f; ep_in_dci = 2 * ep_in_num + direction in
     seq (act (xhci_debug hw ''ep_in_num:%d ep_in_dci:%d'' [ucast ep_in_num, ucast ep_in_dci])) (\<lambda>_.
     seq (act (add_endpoint input_ctx ep_in_dci)) (\<lambda>_.
     seq (alloc_or_panic 1) (\<lambda>endpoint.
     seq (new_ring_at endpoint) (\<lambda>_.
     seq (act (init_endpoint input_ctx endpoint p port_id direction attr ep_in_dci)) (\<lambda>_.
     if is_boot_keyboard ps direction attr then
       seq (ask (\<lambda>s. dev_ring s (int (unat port_id) - 1))) (\<lambda>ring.
       seq (act (map_mem (write_ring_at ring (set_configuration_setup configuration_value)))) (\<lambda>_.
       seq (act (map_mem (write_ring_at ring set_configuration_status))) (\<lambda>_.
       seq (act (write_xhci_doorbell hw (ucast slot) 1)) (\<lambda>_.
       seq (act (init_usb_keyboard hw endpoint (ucast slot) ep_in_dci)) (\<lambda>_.
       ret (ps\<lparr>is_set_configuration := True\<rparr>))))))
     else ret ps)))))))"

text \<open>The walk over the descriptors; one of length 0 ends it.\<close>

definition parse_one ::
  "'d hw \<Rightarrow> u64 \<Rightarrow> u8 \<Rightarrow> u64 \<Rightarrow> addr \<Rightarrow> addr \<Rightarrow> parse_state \<Rightarrow> (parse_state, 'd) run" where
  "parse_one hw slot port_id configuration_value input_ctx p ps =
     seq (ask (read_byte (p + 1))) (\<lambda>desc_type.
     if desc_type = 4 then parse_interface hw p ps
     else if desc_type = 5 then parse_endpoint hw slot port_id configuration_value input_ctx p ps
     else ret ps)"

partial_function (option) parse_descriptors ::
  "'d hw \<Rightarrow> u64 \<Rightarrow> u8 \<Rightarrow> u64 \<Rightarrow> addr \<Rightarrow> addr \<Rightarrow> addr \<Rightarrow> parse_state \<Rightarrow> (parse_state, 'd) run" where
  "parse_descriptors hw slot port_id configuration_value input_ctx end_p p ps s =
     (if p < end_p \<and> read_byte p s \<noteq> 0 then
        seq (parse_one hw slot port_id configuration_value input_ctx p ps) (\<lambda>ps s.
        parse_descriptors hw slot port_id configuration_value input_ctx end_p (p + ucast (read_byte p s)) ps s) s
      else ret ps s)"

subsection \<open>Transfer events\<close>

definition set_state :: "int \<Rightarrow> usb_device_status \<Rightarrow> 'd xhci \<Rightarrow> 'd xhci" where
  "set_state i status s = s\<lparr>dev_state := (dev_state s)(i := status_code status)\<rparr>"

definition port_of_slot :: "u64 \<Rightarrow> 'd xhci \<Rightarrow> u8" where
  "port_of_slot slot s = ucast (get_at slot_context ''root_hub_port_num'' (P2V (device_context slot s)) s)"

definition configure_endpoint_trb :: "addr \<Rightarrow> u64 \<Rightarrow> trb" where
  "configure_endpoint_trb input_ctx slot =
     set_f configure_endpoint_command ''slot_id'' slot
       (set_f configure_endpoint_command ''input_ctx_ptr'' (v2p input_ctx)
         (set_f configure_endpoint_command ''type'' 12 0))"

text \<open>One configuration: its descriptor, the endpoints, and the choice of a boot keyboard.\<close>

definition configure ::
  "'d hw \<Rightarrow> statics \<Rightarrow> u64 \<Rightarrow> u8 \<Rightarrow> nat \<Rightarrow> parse_state \<Rightarrow> (parse_state, 'd) run" where
  "configure hw st slot port_id desc_index ps =
     (let i = int (unat port_id) - 1; dev_buf = status_buf st i in
     seq (act (\<lambda>s. get_descriptor_noreport hw (dev_ring s i) (ucast slot) 2 (word_of_nat desc_index) dev_buf 512 s)) (\<lambda>_.
     seq (ask (\<lambda>s. load_struct (mem_of s) dev_buf :: 72 word)) (\<lambda>conf_desc.
     let total_length = get_f configuration_descriptor ''wTotalLength'' conf_desc;
         configuration_value = get_f configuration_descriptor ''bConfigurationValue'' conf_desc in
     seq (act (xhci_debug hw ''value:%02X length:%d'' [configuration_value, total_length])) (\<lambda>_.
     seq (alloc_or_panic 1) (\<lambda>input_ctx.
     seq (act (map_mem (memset input_ctx 0 sizeof_input_context))) (\<lambda>_.
     seq (act (\<lambda>s. map_mem (memcpy (slotctx_of input_ctx) (P2V (device_context slot s)) 32) s)) (\<lambda>_.
     seq (act (\<lambda>s. xhci_debug hw ''root_hub_port_num test:%d''
       [get_at slot_context ''root_hub_port_num'' (slotctx_of input_ctx) s] s)) (\<lambda>_.
     seq (act (set_at input_control_context ''a_flags'' 0x01 input_ctx)) (\<lambda>_.
     seq (ask (read_byte dev_buf)) (\<lambda>bLength.
     seq (parse_descriptors hw slot port_id configuration_value input_ctx (dev_buf + total_length)
       (dev_buf + ucast bLength) (ps\<lparr>is_set_configuration := False\<rparr>)) (\<lambda>ps.
     seq (when_run (is_set_configuration ps)
       (act (\<lambda>s. ring_command hw (configure_endpoint_trb input_ctx slot)
         (xhci_debug hw ''context_entries:%d'' [get_at slot_context ''context_entries'' (slotctx_of input_ctx) s] s)))) (\<lambda>_.
     seq (act (set_state i USB_DEVICE_STATUS_END_OF_INITIALIZE)) (\<lambda>_.
     ret ps)))))))))))))"

fun configure_all :: "'d hw \<Rightarrow> statics \<Rightarrow> u64 \<Rightarrow> u8 \<Rightarrow> nat list \<Rightarrow> parse_state \<Rightarrow> (unit, 'd) run" where
  "configure_all hw st slot port_id [] ps = ret ()"
| "configure_all hw st slot port_id (i # is) ps =
     seq (configure hw st slot port_id i ps) (\<lambda>ps. configure_all hw st slot port_id is ps)"

definition handle_descriptor :: "'d hw \<Rightarrow> statics \<Rightarrow> u64 \<Rightarrow> u8 \<Rightarrow> (unit, 'd) run" where
  "handle_descriptor hw st slot port_id =
     (let dev_desc = status_buf st (int (unat port_id) - 1) in
     seq (act (xhci_debug hw ''dev_desc:%016X'' [dev_desc])) (\<lambda>_.
     seq (ask (\<lambda>s. load_struct (mem_of s) dev_desc :: 144 word)) (\<lambda>d.
     let num_configs = get_f device_descriptor ''bNumConfigurations'' d in
     seq (act (xhci_debug hw ''num_configs:%d'' [num_configs])) (\<lambda>_.
     configure_all hw st slot port_id [0..<unat num_configs]
       \<lparr>classCode = ucast (get_f device_descriptor ''bDeviceClass'' d),
        subClassCode = ucast (get_f device_descriptor ''bDeviceSubClass'' d),
        interface_protocol = 0, is_set_configuration = False\<rparr>))))"

definition issuer_type :: "layout \<Rightarrow> addr \<Rightarrow> 'd xhci \<Rightarrow> u64" where
  "issuer_type L event s = trb_field normal_trb ''type'' (P2V (trb_field L ''ptr'' event s)) s"

text \<open>The two messages both kinds of completion begin with.\<close>

definition print_event :: "'d hw \<Rightarrow> statics \<Rightarrow> string \<Rightarrow> layout \<Rightarrow> addr \<Rightarrow> 'd xhci \<Rightarrow> 'd xhci" where
  "print_event hw st title L event s =
     (let code = trb_field L ''code'' event s;
          s = xhci_debug hw (title @ '' code=%s(%d)'') [literal st (get_completion_msg code), code] s;
          kind = issuer_type L event s
      in xhci_debug hw ''Issuer TRB:%s(%d)'' [literal st (get_trb_type kind), kind] s)"

definition handle_transfer_event :: "'d hw \<Rightarrow> statics \<Rightarrow> addr \<Rightarrow> (unit, 'd) run" where
  "handle_transfer_event hw st event =
     seq (act (print_event hw st ''Transfer Event'' transfer_event event)) (\<lambda>_.
     seq (ask (trb_field transfer_event ''slot_id'' event)) (\<lambda>slot.
     seq (ask (port_of_slot slot)) (\<lambda>port_id.
     seq (act (xhci_debug hw ''slot_id:%d -> port_id:%d'' [slot, ucast port_id])) (\<lambda>_.
     seq (ask (trb_field transfer_event ''code'' event)) (\<lambda>code.
     seq (ask (\<lambda>s. dev_state s (int (unat port_id) - 1))) (\<lambda>state.
     when_run ((code = 1 \<or> code = 13) \<and> state = status_code USB_DEVICE_STATUS_GET_DESCRIPTOR)
       (handle_descriptor hw st slot port_id)))))))"

subsection \<open>Command completion events\<close>

text \<open>The last port that waits for a slot, in the 256 entries the loop looks at, becomes the current one.\<close>

definition find_waiting :: "(int \<Rightarrow> u8) \<Rightarrow> int" where
  "find_waiting state =
     fold (\<lambda>i current. if state (int i) = status_code USB_DEVICE_STATUS_WAIT_ENABLE_SLOT then int i + 1 else current)
       [0..<256] (-1)"

definition next_port :: "'d hw \<Rightarrow> 'd xhci \<Rightarrow> 'd xhci" where
  "next_port hw s =
     (let s = xhci_debug hw ''current_port reset'' [] s;
          s = s\<lparr>current_port := find_waiting (dev_state s)\<rparr>;
          s = xhci_debug hw ''current_port:%d'' [word_of_int (current_port s)] s
      in if current_port s \<noteq> -1
         then ring_command hw enable_slot_trb (set_state (current_port s - 1) USB_DEVICE_STATUS_ENABLE_SLOT s)
         else s)"

definition handle_address_device :: "'d hw \<Rightarrow> statics \<Rightarrow> u64 \<Rightarrow> u8 \<Rightarrow> (unit, 'd) run" where
  "handle_address_device hw st slot port_id =
     seq (act (xhci_debug hw ''Address Device slot:%d'' [slot])) (\<lambda>_.
     seq (act (\<lambda>s. get_descriptor hw (dev_ring s (int (unat port_id) - 1)) (ucast slot) 1 0
       (status_buf st (current_port s - 1)) 512 s)) (\<lambda>_.
     seq (act (\<lambda>s. set_state (current_port s - 1) USB_DEVICE_STATUS_GET_DESCRIPTOR s)) (\<lambda>_.
     act (next_port hw))))"

text \<open>\<open>start = start->next\<close>: the pointer is at offset 8.\<close>

definition advance_start :: "'d xhci \<Rightarrow> 'd xhci" where
  "advance_start s = s\<lparr>start := read64 (mem_of s) (start s + 8)\<rparr>"

definition current_state :: "'d xhci \<Rightarrow> u8" where
  "current_state s = dev_state s (current_port s - 1)"

definition handle_command_event :: "'d hw \<Rightarrow> statics \<Rightarrow> addr \<Rightarrow> (unit, 'd) run" where
  "handle_command_event hw st event =
     seq (act (print_event hw st ''Command Completion Event'' command_completion_event event)) (\<lambda>_.
     seq (ask (trb_field command_completion_event ''slot_id'' event)) (\<lambda>slot.
     seq (ask (\<lambda>s. if device_context slot s \<noteq> 0 then port_of_slot slot s else word_of_int (current_port s))) (\<lambda>port_id.
     seq (act (xhci_debug hw ''slot_id:%d -> port_id:%d'' [slot, ucast port_id])) (\<lambda>_.
     seq (ask (\<lambda>s. issuer_type command_completion_event event s = 9 \<and>
       current_state s = status_code USB_DEVICE_STATUS_ENABLE_SLOT)) (\<lambda>enabled.
     seq (when_run enabled
       (seq (handle_enable_slot hw st event port_id) (\<lambda>_. act advance_start))) (\<lambda>_.
     seq (ask (\<lambda>s. issuer_type command_completion_event event s = 11 \<and>
       current_state s = status_code USB_DEVICE_STATUS_ADDRESS_DEVICE)) (\<lambda>addressed.
     when_run addressed
       (seq (handle_address_device hw st slot port_id) (\<lambda>_. act advance_start)))))))))"

subsection \<open>Port status change events\<close>

text \<open>
  The first test masks the register number, not its value: it reads the register at offset 0,
  \<open>USBCMD\<close>.
\<close>

definition enumerate_port :: "'d hw \<Rightarrow> u8 \<Rightarrow> 'd xhci \<Rightarrow> 'd xhci" where
  "enumerate_port hw port s =
     (let s = ring_command hw enable_slot_trb s; i = int (unat port) - 1
      in if current_port s = -1
         then set_state i USB_DEVICE_STATUS_ENABLE_SLOT (s\<lparr>current_port := int (unat port)\<rparr>)
         else set_state i USB_DEVICE_STATUS_WAIT_ENABLE_SLOT s)"

definition handle_port_event :: "'d hw \<Rightarrow> addr \<Rightarrow> 'd xhci \<Rightarrow> 'd xhci" where
  "handle_port_event hw event s =
     (let s = s\<lparr>world := scroll_screen_to hw (world s)\<rparr>;
          port = ucast (trb_field port_status_change_event ''port'' event s) :: u8;
          (v, s) = read_xhci_operation hw (ucast (PORTSC port AND 0x01)) s
      in if v \<noteq> 0 then
           let s = xhci_debug hw ''Configuring port:%d'' [ucast port] s;
               (portsc, s) = read_xhci_operation hw (ucast (PORTSC port)) s;
               s = xhci_debug hw ''PORTSC(%d):%08X'' [ucast port, ucast portsc] s
           in if portsc AND 0x02 \<noteq> 0 then enumerate_port hw port s
              else
                let portsc = (portsc AND 0x0e00c3e0) OR push_bit 17 1 OR 0x10;
                    s = write_xhci_operation hw (ucast (PORTSC port)) portsc s
                in xhci_debug hw ''PORTSC(%d):%08X'' [ucast port, ucast portsc] s
         else s)"

subsection \<open>\<open>usb_process_events\<close>\<close>

text \<open>The three branches test the type one after the other.\<close>

definition handle_event :: "'d hw \<Rightarrow> statics \<Rightarrow> addr \<Rightarrow> (unit, 'd) run" where
  "handle_event hw st trb =
     (let kind = trb_field normal_trb ''type'' trb in
     seq (ask kind) (\<lambda>t. seq (when_run (t = 32) (handle_transfer_event hw st trb)) (\<lambda>_.
     seq (ask kind) (\<lambda>t. seq (when_run (t = 33) (handle_command_event hw st trb)) (\<lambda>_.
     seq (ask kind) (\<lambda>t. when_run (t = 34) (act (handle_port_event hw trb))))))))"

definition next_event :: "'d hw \<Rightarrow> (addr, 'd) run" where
  "next_event hw s = (case get_eventring hw s of None \<Rightarrow> None | Some (trb, s) \<Rightarrow> ret trb s)"

partial_function (option) usb_process_events :: "'d hw \<Rightarrow> statics \<Rightarrow> (unit, 'd) run" where
  "usb_process_events hw st s =
     (case er_isQueued hw s of (queued, s) \<Rightarrow>
        if \<not> queued then ret () s
        else seq (next_event hw) (\<lambda>trb s.
             seq (handle_event hw st trb) (\<lambda>_ s. usb_process_events hw st s) s) s)"

end
