(* ===== verification/Register_File.thy ===== *)
theory Register_File
  imports Usb
begin

unbundle bit_operations_syntax

text \<open>
  A controller that is a register file: a register keeps what is written to it. The driver runs
  on it by evaluation, which shows that the properties of the USB theories hold of concrete runs:
  here one port status change event is processed by \<open>usb_process_events\<close>.
\<close>

subsection \<open>The register file\<close>

definition register_file :: "(addr \<Rightarrow> u32) hw" where
  "register_file = \<lparr>in8 = \<lambda>_ d. (0xff, d), out8 = \<lambda>_ _ d. d, in32 = \<lambda>_ d. (0xffffffff, d), out32 = \<lambda>_ _ d. d,
     mmio_read = \<lambda>a (k, d). (d a, k, d), mmio_write = \<lambda>a v (k, d). (k, d(a := v)),
     cpuid_edx = \<lambda>_. 0, readMSR = \<lambda>_ _. 0, writeMSR = \<lambda>_ _ d. d, printk_to = \<lambda>_ d. d, scroll_screen_to = \<lambda>d. d\<rparr>"

subsection \<open>A port status change event in the event ring\<close>

definition port_event :: "u8 \<Rightarrow> trb" where
  "port_event p = set_f port_status_change_event ''port'' (ucast p)
     (set_f port_status_change_event ''type'' 34 (set_f port_status_change_event ''c'' 1 0))"

definition demo_mem :: mem where
  "demo_mem = store_struct 0xffff806000200000 (port_event 1) (\<lambda>_. 0)"

definition demo_statics :: statics where
  "demo_statics = \<lparr>erst_addr = 0, device_status_addr = 0, keybuf_addr = 0xffff806000500000, behind_keytable = \<lambda>_. 0, literal = \<lambda>_. 0\<rparr>"

definition demo_xhci :: "(addr \<Rightarrow> u32) xhci" where
  "demo_xhci = \<lparr>xhci_caplength = 0, xhci_runtime_space = 0x1000, xhci_doorbell = 0x2000, xhci_extend_capability = 0,
     mmio_base = 0, cmd_ring = \<lparr>rbuf = 0xffff806000100000, cycle_bit = True, ring_size = 256, ring_index = 0\<rparr>,
     event_ring = \<lparr>rbuf = 0xffff806000200000, cycle_bit = True, ring_size = 256, ring_index = 0\<rparr>,
     csz = False, device_contexts = 0xffff806000300000, dev_state = \<lambda>_. 0, dev_ring = \<lambda>_. 0,
     device_speed = \<lambda>_. 0, current_port = -1, start = 0, s_endpoint_ring = 0, s_slot_id = 0, s_dci = 0,
     usb_keyboard_found = False,
     world = (\<lparr>heap = demo_mem, ml_next = 0, ml_pages = 0\<rparr>, (\<lambda>_. 0)(0 := 1, 0x400 := 3, 0x1038 := 0x200000))\<rparr>"

lemma event_fields: "get_f normal_trb ''c'' (port_event 1) = 1" "get_f normal_trb ''type'' (port_event 1) = 34"
 "get_f port_status_change_event ''port'' (port_event 1) = 1"
  unfolding port_event_def get_f_def set_f_def port_status_change_event_def normal_trb_def
  by (simp_all add: bf_get_def bf_set_def take_bit_eq_mask push_bit_eq_mult drop_bit_eq_div mask_eq_exp_minus_1 del: of_int_numeral)

lemma rf_regs [simp]:
  "mmio_get register_file a s = (snd (world s) a, s)"
  "mmio_put register_file a v s = s\<lparr>world := apsnd (\<lambda>d. d(a := v)) (world s)\<rparr>"
  "printk_to register_file m w = w" "scroll_screen_to register_file w = w"
  by (cases "world s"; simp add: mmio_get_def mmio_put_def register_file_def)+

lemma rf_print [simp]: "print_run register_file f a s = s" "xhci_debug register_file f a s = s"
  by (simp_all add: print_run_def xhci_debug_def)

definition erdp_of :: "(addr \<Rightarrow> u32) xhci \<Rightarrow> u64" where
  "erdp_of s = ucast (snd (world s) (mmio_base s + ucast (xhci_runtime_space s) + 0x38)) OR
     push_bit 32 (ucast (snd (world s) (mmio_base s + ucast (xhci_runtime_space s) + 0x3c)))"

lemma rf_getTRB: "getTRB register_file s = (P2V (erdp_of s AND NOT 0x0f), s)"
  by (simp add: getTRB_def read_xhci_runtime_def ERDP_def erdp_of_def add.assoc)

definition queued_at :: "(addr \<Rightarrow> u32) xhci \<Rightarrow> bool" where
  "queued_at s \<longleftrightarrow> (get_f normal_trb ''c'' (load_struct (mem_of s) (P2V (erdp_of s AND NOT 0x0f)) :: trb) = 1) = cycle_bit (event_ring s)"

lemma rf_queued: "er_isQueued register_file s = (queued_at s, s)"
  by (simp add: er_isQueued_def rf_getTRB queued_at_def)

lemma rf_next: "queued_at s \<Longrightarrow> next_event register_file s =
    Some (Inr (P2V (erdp_of s AND NOT 0x0f)), write_event_ring register_file s)"
  by (simp add: next_event_def get_eventring_def rf_getTRB wait_event.simps rf_queued ret_def)

lemma demo_regs: "erdp_of demo_xhci = 0x200000" "event_ring demo_xhci = \<lparr>rbuf = 0xffff806000200000, cycle_bit = True, ring_size = 256, ring_index = 0\<rparr>"
  by (simp_all add: erdp_of_def demo_xhci_def)

lemma trb_load_store: "load_struct (store_struct a (x :: trb) h) a = x"
  using unat_lt_pow [of x] by (simp add: load_struct_def store_struct_def load_store_same)

lemma demo_load: "load_struct (mem_of demo_xhci) 0xffff806000200000 = port_event 1"
  by (simp add: mem_of_def demo_xhci_def demo_mem_def trb_load_store)

lemma demo_queued: "queued_at demo_xhci"
  by (simp add: queued_at_def demo_regs P2V_def PAGE_OFFSET_def demo_load event_fields)

definition demo1 where "demo1 = write_event_ring register_file demo_xhci"

lemma demo1: "demo1 = demo_xhci\<lparr>world := (fst (world demo_xhci), (\<lambda>_. 0)(0 := 1, 0x400 := 3, 0x1038 := 0x200018))\<rparr>"
  by (simp add: demo1_def write_event_ring_def rf_getTRB demo_regs Let_def P2V_def PAGE_OFFSET_def v2p_def write_xhci_runtime_def ERDP_def)
    (auto simp: demo_xhci_def fun_eq_iff)

lemma demo_event: "handle_event register_file st 0xffff806000200000 demo1 = Some (Inr (), enumerate_port register_file 1 demo1)"
  by (simp add: handle_event_def trb_field_def mem_of_def demo1 demo_xhci_def demo_mem_def trb_load_store event_fields
    seq_def ask_def ret_def when_run_def act_def handle_port_event_def Let_def read_xhci_operation_def PORTSC_def)

definition demo2 where "demo2 = enumerate_port register_file 1 demo1"

text \<open>\<open>enumerate_port\<close> on a register file.\<close>

lemma rf_enumerate:
  "mem_of (enumerate_port register_file p s) = snd (write_ring enable_slot_trb (cmd_ring s, mem_of s))"
  "snd (world (enumerate_port register_file p s)) = (snd (world s))(mmio_base s + ucast (xhci_doorbell s) := 0)"
  "cmd_ring (enumerate_port register_file p s) = fst (write_ring enable_slot_trb (cmd_ring s, mem_of s))"
  "event_ring (enumerate_port register_file p s) = event_ring s"
  "mmio_base (enumerate_port register_file p s) = mmio_base s"
  "xhci_runtime_space (enumerate_port register_file p s) = xhci_runtime_space s"
  "xhci_doorbell (enumerate_port register_file p s) = xhci_doorbell s"
  by (simp_all add: enumerate_port_def ring_command_def write_cmd_ring_def map_mem_def write_xhci_doorbell_def
      set_state_def mem_of_def Let_def split: prod.split)

lemma demo1_fields: "mem_of demo1 = demo_mem" "snd (world demo1) = (\<lambda>_. 0)(0 := 1, 0x400 := 3, 0x1038 := 0x200018)"
  "cmd_ring demo1 = \<lparr>rbuf = 0xffff806000100000, cycle_bit = True, ring_size = 256, ring_index = 0\<rparr>"
  "event_ring demo1 = event_ring demo_xhci" "mmio_base demo1 = 0" "xhci_runtime_space demo1 = 0x1000" "xhci_doorbell demo1 = 0x2000"
  "current_port demo1 = -1" "dev_state demo1 = (\<lambda>_. 0)"
  by (simp_all add: demo1 demo_xhci_def mem_of_def)

lemma demo2: "mem_of demo2 = write_ring_static 0xffff806000100000 (int 0) enable_slot_trb True demo_mem"
  "snd (world demo2) = (\<lambda>_. 0)(0 := 1, 0x400 := 3, 0x1038 := 0x200018, 0x2000 := 0)"
  "cmd_ring demo2 = \<lparr>rbuf = 0xffff806000100000, cycle_bit = True, ring_size = 256, ring_index = 1\<rparr>"
  "event_ring demo2 = event_ring demo_xhci" "mmio_base demo2 = 0" "xhci_runtime_space demo2 = 0x1000" "xhci_doorbell demo2 = 0x2000"
  by (simp_all add: demo2_def rf_enumerate demo1_fields write_ring_def)

lemma second_entry_empty:
  assumes "mem_of s = write_ring_static 0xffff806000100000 (int k) d c h" "k < 256"
    "load_struct h 0xffff806000200010 = (0 :: trb)"
  shows "load_struct (mem_of s) 0xffff806000200010 = (0 :: trb)"
proof -
  have "unat (trb_addr 0xffff806000100000 k) = 0xffff806000100000 + 16 * k"
    using \<open>k < 256\<close> by (simp add: unat_trb_addr ring_page_def PAGE_OFFSET_def)
  then have "bytes_at 0xffff806000200010 16 \<inter> bytes_at (trb_addr 0xffff806000100000 k) 16 = {}"
    using \<open>k < 256\<close> by (intro bytes_at_disjoint) simp_all
  then have "trb_at (mem_of s) 0xffff806000200010 = trb_at h 0xffff806000200010"
    using write_ring_static_other [of _ "0xffff806000100000" k d c h]
    unfolding assms by (intro trb_at_cong) auto
  then show ?thesis using assms by (simp add: trb_at_def)
qed

lemma demo_mem_second: "load_struct demo_mem 0xffff806000200010 = (0 :: trb)"
proof -
  have "bytes_at 0xffff806000200010 16 \<inter> bytes_at (0xffff806000200000 :: addr) 16 = {}"
    by (rule bytes_at_disjoint) simp_all
  then show ?thesis
    by (simp add: load_struct_def demo_mem_def store_struct_def load_store_other load_zero)
qed

lemma idle:
  assumes "load_struct (mem_of s) 0xffff806000200010 = (0 :: trb)" "erdp_of s = 0x200018" "cycle_bit (event_ring s)"
  shows "usb_process_events register_file st s = Some (Inr (), s)"
proof -
  have "\<not> queued_at s"
    using assms by (simp add: queued_at_def P2V_def PAGE_OFFSET_def)
  then show ?thesis by (simp add: usb_process_events.simps rf_queued ret_def)
qed

lemma demo2_second: "load_struct (mem_of demo2) 0xffff806000200010 = (0 :: trb)"
  using demo2 demo_mem_second by (intro second_entry_empty [where k = 0]) simp_all

lemma demo2_idle: "usb_process_events register_file st demo2 = Some (Inr (), demo2)"
  by (intro idle demo2_second) (simp_all add: erdp_of_def demo2 demo_regs)

lemma demo_run: "usb_process_events register_file st demo_xhci = Some (Inr (), demo2)"
proof -
  have "P2V (erdp_of demo_xhci AND NOT 0x0f) = 0xffff806000200000"
    by (simp add: demo_regs P2V_def PAGE_OFFSET_def)
  then show ?thesis
    by (subst usb_process_events.simps)
      (simp add: rf_queued demo_queued rf_next seq_def demo_event flip: demo1_def demo2_def, simp add: demo2_idle)
qed

definition demo3 where "demo3 = enumerate_port register_file 1 demo2"

lemma demo3_idle: "usb_process_events register_file st demo3 = Some (Inr (), demo3)"
proof (intro idle)
  have "mem_of demo3 = write_ring_static 0xffff806000100000 (int 1) enable_slot_trb True (mem_of demo2)"
    by (simp add: demo3_def rf_enumerate) (simp add: demo2(3) write_ring_def Let_def)
  then show "load_struct (mem_of demo3) 0xffff806000200010 = (0 :: trb)"
    by (rule second_entry_empty) (simp_all add: demo2_second)
qed (simp_all add: demo3_def rf_enumerate erdp_of_def demo2 demo_regs)

end
