(* ===== verification/Usb_Ports.thy ===== *)
theory Usb_Ports
  imports Register_File
begin

unbundle bit_operations_syntax

text \<open>
  The enumeration of the ports as a state machine: what \<open>usb_process_events\<close> does to
  \<open>current_port\<close> and to the states of the ports is a sequence of steps of \<open>usb_step\<close>, whatever
  the controller does; invariants of the machine are invariants of the code.
\<close>

subsection \<open>The machine\<close>

type_synonym ports = "int \<times> (int \<Rightarrow> u8)"

definition ports :: "'d xhci \<Rightarrow> ports" where "ports s = (current_port s, dev_state s)"

abbreviation "WAITING \<equiv> status_code USB_DEVICE_STATUS_WAIT_ENABLE_SLOT"
abbreviation "ENABLING \<equiv> status_code USB_DEVICE_STATUS_ENABLE_SLOT"
abbreviation "ADDRESSING \<equiv> status_code USB_DEVICE_STATUS_ADDRESS_DEVICE"
abbreviation "DESCRIBING \<equiv> status_code USB_DEVICE_STATUS_GET_DESCRIPTOR"
abbreviation "CONFIGURED \<equiv> status_code USB_DEVICE_STATUS_END_OF_INITIALIZE"

inductive usb_step :: "ports \<Rightarrow> ports \<Rightarrow> bool" where
  first_port: "usb_step (-1, st) (int (unat (p :: u8)), st(int (unat p) - 1 := ENABLING))"
| later_port: "cur \<noteq> -1 \<Longrightarrow> usb_step (cur, st) (cur, st(int (unat (p :: u8)) - 1 := WAITING))"
| slot_enabled: "st (cur - 1) = ENABLING \<Longrightarrow> usb_step (cur, st) (cur, st(cur - 1 := ADDRESSING))"
| addressed_last: "st (cur - 1) = ADDRESSING \<Longrightarrow> find_waiting (st(cur - 1 := DESCRIBING)) = -1 \<Longrightarrow>
    usb_step (cur, st) (-1, st(cur - 1 := DESCRIBING))"
| addressed_next: "st (cur - 1) = ADDRESSING \<Longrightarrow> find_waiting (st(cur - 1 := DESCRIBING)) = n \<Longrightarrow> n \<noteq> -1 \<Longrightarrow>
    usb_step (cur, st) (n, st(cur - 1 := DESCRIBING, n - 1 := ENABLING))"
| configured: "st i = DESCRIBING \<Longrightarrow> usb_step (cur, st) (cur, st(i := CONFIGURED))"

inductive_cases usb_stepE: "usb_step (cur, st) ps"

text \<open>Only a port event takes a port back: every other step takes it forward in the order of its states.\<close>

lemma usb_step_advances:
  assumes "usb_step (cur, st) (cur', st')" and "st i = status_code a" and "st' i = status_code b"
  shows "a \<le> b \<or> b = USB_DEVICE_STATUS_WAIT_ENABLE_SLOT \<or> b = USB_DEVICE_STATUS_ENABLE_SLOT"
  using assms
  by (cases rule: usb_step.cases) (auto simp: less_eq_usb_device_status_def simp del: status_code.simps split: if_splits; simp)+

subsection \<open>Runs that leave the ports alone\<close>

definition quiet :: "('a, 'd) run \<Rightarrow> bool" where
  "quiet m \<longleftrightarrow> (\<forall>s r s'. m s = Some (r, s') \<longrightarrow> ports s' = ports s)"

named_theorems quiet \<open>runs and functions that keep the ports\<close>

lemma quiet_seq [quiet]: "quiet m \<Longrightarrow> (\<And>x. quiet (f x)) \<Longrightarrow> quiet (seq m f)"
  unfolding quiet_def seq_def by (fastforce split: option.splits sum.splits prod.splits)

lemma quiet_basic [quiet]: "quiet (ret x)" "quiet (ask g)" "quiet (panics msg)" "quiet m \<Longrightarrow> quiet (when_run b m)"
  "(\<And>s. ports (f s) = ports s) \<Longrightarrow> quiet (act f)"
  by (auto simp: quiet_def ret_def ask_def panics_def when_run_def act_def)

lemma quiet_if [quiet]: "(b \<Longrightarrow> quiet m) \<Longrightarrow> (\<not> b \<Longrightarrow> quiet m') \<Longrightarrow> quiet (if b then m else m')" by simp

lemma quiet_let [quiet]: "(\<And>x. quiet (f x)) \<Longrightarrow> quiet (Let y f)" by simp

lemma ports_update [simp]:
  "ports (s\<lparr>world := w\<rparr>) = ports s" "ports (s\<lparr>cmd_ring := r\<rparr>) = ports s" "ports (s\<lparr>event_ring := r\<rparr>) = ports s"
  "ports (s\<lparr>dev_ring := dr\<rparr>) = ports s" "ports (s\<lparr>device_speed := sp\<rparr>) = ports s" "ports (s\<lparr>start := a\<rparr>) = ports s"
  "ports (s\<lparr>s_endpoint_ring := a1, s_slot_id := a2, s_dci := a3, usb_keyboard_found := a4\<rparr>) = ports s"
  by (simp_all add: ports_def)

lemma ports_basic [simp]:
  "ports (map_mem f s) = ports s" "ports (print_run hw fmt args s) = ports s" "ports (xhci_debug hw fmt args s) = ports s"
  "ports (mmio_put hw a v s) = ports s" "ports (snd (mmio_get hw a s)) = ports s"
  "ports (advance_start s) = ports s"
  by (simp_all add: map_mem_def print_run_def xhci_debug_def mmio_put_def mmio_get_def advance_start_def split: prod.split)

lemma ports_registers [simp]:
  "ports (snd (read_xhci hw r s)) = ports s" "ports (snd (read_xhci_operation hw r s)) = ports s"
  "ports (snd (read_xhci_runtime hw r s)) = ports s" "ports (write_xhci_operation hw r v s) = ports s"
  "ports (write_xhci_runtime hw r v s) = ports s" "ports (write_xhci_doorbell hw b v s) = ports s"
  by (simp_all add: read_xhci_def read_xhci_operation_def read_xhci_runtime_def write_xhci_operation_def
      write_xhci_runtime_def write_xhci_doorbell_def)

lemma ports_get: "(x, s') = mmio_get hw a s \<Longrightarrow> ports s' = ports s" "(x, s') = read_xhci_operation hw r s \<Longrightarrow> ports s' = ports s"
  "read_xhci_operation hw r s = (x, s') \<Longrightarrow> ports s' = ports s" "read_xhci_runtime hw r s = (x, s') \<Longrightarrow> ports s' = ports s"
  by (metis ports_basic(5) snd_conv, metis ports_registers(2) snd_conv, metis ports_registers(2) snd_conv,
      metis ports_registers(3) snd_conv)

lemma ports_rings [simp]:
  "ports (write_cmd_ring d s) = ports s" "ports (ring_command hw d s) = ports s"
  "ports (get_descriptor hw r sl t i b l s) = ports s" "ports (set_at L f v p s) = ports s"
  "ports (init_usb_keyboard hw r sl dci s) = ports s"
  by (simp_all add: write_cmd_ring_def ring_command_def get_descriptor_def set_at_def init_usb_keyboard_def Let_def
      split: prod.split)

lemma ports_slot [simp]:
  "ports (init_slot hw slot p a s) = ports s" "ports (init_control_endpoint a s) = ports s"
  "ports (evaluate_packet_size hw st slot p a s) = ports s" "ports (add_endpoint a d s) = ports s"
  "ports (init_endpoint a e q p dir attr d s) = ports s" "ports (print_event hw st t L e s) = ports s"
  by (simp_all add: init_slot_def init_control_endpoint_def evaluate_packet_size_def add_endpoint_def init_endpoint_def
      print_event_def get_descriptor_noreport_def Let_def split: prod.split option.split)
    (auto dest!: ports_get(3))

lemma quiet_alloc [quiet]: "quiet (alloc_or_panic n)" "quiet new_ring_run" "quiet (new_ring_at p)"
proof -
  show 1: "quiet (alloc_or_panic n)"
    by (auto simp: quiet_def alloc_or_panic_def panics_def ret_def Let_def split: option.splits if_splits)
  show 2: "quiet new_ring_run"
    by (auto simp: quiet_def new_ring_run_def split: option.splits)
  show "quiet (new_ring_at p)" unfolding new_ring_at_def by (intro quiet 2) simp
qed

lemma ports_events [simp]:
  "ports (snd (getTRB hw s)) = ports s" "ports (write_event_ring hw s) = ports s" "ports (snd (er_isQueued hw s)) = ports s"
proof -
  show t: "ports (snd (getTRB hw s)) = ports s" for s
    by (auto simp: getTRB_def Let_def split: prod.split dest!: ports_get(4))
  then have g: "getTRB hw s = (x, s') \<Longrightarrow> ports s' = ports s" for x s s' by (metis snd_conv)
  show "ports (write_event_ring hw s) = ports s" "ports (snd (er_isQueued hw s)) = ports s"
    by (auto simp: write_event_ring_def er_isQueued_def Let_def split: prod.split dest!: g)
qed

lemma ports_wait:
  fixes hw :: "'d hw"
  shows "wait_event hw s = Some s' \<Longrightarrow> ports s' = ports s"
proof (erule wait_event.raw_induct [rotated])
  fix f :: "'d hw \<Rightarrow> 'd xhci \<Rightarrow> 'd xhci option" and hw :: "'d hw" and s s' :: "'d xhci"
  assume IH: "\<And>hw s s'. f hw s = Some s' \<Longrightarrow> ports s' = ports s"
    and r: "(case er_isQueued hw s of (queued, s) \<Rightarrow> if queued then Some s else f hw s) = Some s'"
  obtain q s1 where e: "er_isQueued hw s = (q, s1)" by (metis surj_pair)
  then have "ports s1 = ports s" using ports_events(3) [of hw s] by simp
  with r e IH show "ports s' = ports s" by (auto split: if_splits)
qed

lemma quiet_next [quiet]: "quiet (next_event hw)"
proof -
  have "ports s2 = ports s" if "get_eventring hw s = Some (trb, s2)" for s s2 trb
  proof -
    obtain a s1 where t: "getTRB hw s = (a, s1)" by (metis surj_pair)
    then have "ports s1 = ports s" using ports_events(1) [of hw s] by simp
    with that t show ?thesis by (auto simp: get_eventring_def dest: ports_wait split: option.splits)
  qed
  then show ?thesis by (auto simp: quiet_def next_event_def ret_def split: option.splits)
qed

lemma quiet_parse [quiet]:
  "quiet (parse_one hw slot p cv a q ps)"
  unfolding parse_one_def parse_interface_def parse_endpoint_def by (intro quiet) simp_all

lemma quiet_parse_descriptors [quiet]: "quiet (parse_descriptors hw slot p cv a e q ps)"
proof -
  have "ports (snd y) = ports s" if "parse_descriptors hw slot p cv a e q ps s = Some y" for s y
  proof (rule parse_descriptors.raw_induct [where P = "\<lambda>hw slot p cv a e q ps s y. ports (snd y) = ports s", OF _ that])
    fix f :: "'d hw \<Rightarrow> u64 \<Rightarrow> u8 \<Rightarrow> u64 \<Rightarrow> addr \<Rightarrow> addr \<Rightarrow> addr \<Rightarrow> parse_state \<Rightarrow> (parse_state, 'd) run"
      and hw slot p cv a e q ps and s :: "'d xhci" and y
    assume IH: "\<And>hw slot p cv a e q ps s y. f hw slot p cv a e q ps s = Some y \<Longrightarrow> ports (snd y) = ports s"
      and r: "(if q < e \<and> read_byte q s \<noteq> 0 then
        seq (parse_one hw slot p cv a q ps) (\<lambda>ps s. f hw slot p cv a e (q + ucast (read_byte q s)) ps s) s
        else ret ps s) = Some y"
    have "quiet (\<lambda>s. f hw slot p cv a e (q + ucast (read_byte q s)) ps s)" for ps
      using IH by (auto simp: quiet_def)
    then have "quiet (seq (parse_one hw slot p cv a q ps) (\<lambda>ps s. f hw slot p cv a e (q + ucast (read_byte q s)) ps s))"
      by (intro quiet)
    with r show "ports (snd y) = ports s" by (cases y) (auto simp: quiet_def ret_def split: if_splits)
  qed
  then show ?thesis unfolding quiet_def by (metis snd_conv)
qed

subsection \<open>Handlers as steps\<close>

text \<open>A run from ports that satisfy \<open>P\<close> makes steps of the machine.\<close>

definition steps :: "(ports \<Rightarrow> bool) \<Rightarrow> ('a, 'd) run \<Rightarrow> bool" where
  "steps P m \<longleftrightarrow> (\<forall>s r s'. P (ports s) \<longrightarrow> m s = Some (r, s') \<longrightarrow> usb_step\<^sup>*\<^sup>* (ports s) (ports s'))"

lemma steps_quiet: "quiet m \<Longrightarrow> steps P m"
  by (auto simp: steps_def quiet_def)

lemma seq_cases:
  assumes "seq m f s = Some (r, s')"
  obtains e where "m s = Some (Inl e, s')" | x s1 where "m s = Some (Inr x, s1)" "f x s1 = Some (r, s')"
  using assms unfolding seq_def by (auto split: option.splits sum.splits)

lemma steps_seq_quiet:
  assumes m: "quiet m" and f: "\<And>x. steps P (f x)"
  shows "steps P (seq m f)"
  unfolding steps_def
proof (intro allI impI)
  fix s r s' assume P: "P (ports s)" and "seq m f s = Some (r, s')"
  from this(2) show "usb_step\<^sup>*\<^sup>* (ports s) (ports s')"
  proof (cases rule: seq_cases)
    case (2 x s1)
    then have "ports s1 = ports s" using m by (auto simp: quiet_def)
    then show ?thesis using f [of x] P 2(2) by (metis steps_def)
  qed (use m in \<open>auto simp: quiet_def\<close>)
qed

lemma steps_then_quiet:
  assumes m: "steps P m" and f: "\<And>x. quiet (f x)"
  shows "steps P (seq m f)"
  unfolding steps_def
proof (intro allI impI)
  fix s r s' assume P: "P (ports s)" and "seq m f s = Some (r, s')"
  from this(2) show "usb_step\<^sup>*\<^sup>* (ports s) (ports s')"
  proof (cases rule: seq_cases)
    case (2 x s1)
    then have "ports s' = ports s1" using f by (auto simp: quiet_def)
    then show ?thesis using m P 2(1) by (metis steps_def)
  qed (use m P in \<open>metis steps_def\<close>)
qed

lemma steps_seq:
  assumes m: "steps (\<lambda>_. True) m" and f: "\<And>x. steps (\<lambda>_. True) (f x)"
  shows "steps (\<lambda>_. True) (seq m f)"
  unfolding steps_def
proof (intro allI impI)
  fix s r s' assume "seq m f s = Some (r, s')"
  then show "usb_step\<^sup>*\<^sup>* (ports s) (ports s')"
  proof (cases rule: seq_cases)
    case (2 x s1)
    then show ?thesis using m f [of x] by (metis steps_def rtranclp_trans)
  qed (use m in \<open>metis steps_def\<close>)
qed

text \<open>A test on the ports guards a run.\<close>

lemma steps_guard:
  assumes "steps P m" "\<And>s. b (g s) \<Longrightarrow> P (ports s)"
  shows "steps Q (seq (ask g) (\<lambda>x. when_run (b x) m))"
  using assms by (auto simp: steps_def seq_def ask_def ret_def when_run_def)

lemma steps_act: "(\<And>s. P (ports s) \<Longrightarrow> usb_step\<^sup>*\<^sup>* (ports s) (ports (f s))) \<Longrightarrow> steps P (act f)"
  by (auto simp: steps_def act_def ret_def)

lemma handle_enable_slot_steps: "steps (\<lambda>(cur, state). state (cur - 1) = ENABLING) (handle_enable_slot hw st e p)"
  unfolding handle_enable_slot_def Let_def
proof (intro steps_seq_quiet quiet steps_act)
  fix s :: "'d xhci" and input_ctx_buf
  assume "case ports s of (cur, state) \<Rightarrow> state (cur - 1) = ENABLING"
  then show "usb_step\<^sup>*\<^sup>* (ports s) (ports (s\<lparr>device_speed := (device_speed s)(current_port s - 1 :=
      ucast (get_at slot_context ''speed'' (slotctx_of (input_ctx_buf + 4096 - 0x20)) s)),
      dev_state := (dev_state s)(current_port s - 1 := ADDRESSING)\<rparr>))"
    using slot_enabled [of "dev_state s" "current_port s"] by (intro r_into_rtranclp) (simp add: ports_def)
qed auto

lemma ports_debug: "dev_state (xhci_debug hw f a s) = dev_state s" "current_port (xhci_debug hw f a s) = current_port s"
  by (simp_all add: xhci_debug_def print_run_def)

lemma ports_next_port:
  "ports (next_port hw s) = (let n = find_waiting (dev_state s)
     in if n = -1 then (-1, dev_state s) else (n, (dev_state s)(n - 1 := ENABLING)))"
  by (simp add: next_port_def Let_def ports_debug set_state_def del: status_code.simps)
    (simp add: ports_def ports_debug)

lemma handle_address_device_steps:
  "steps (\<lambda>(cur, state). state (cur - 1) = ADDRESSING) (handle_address_device hw st slot p)"
proof -
  let ?m = "seq (act (\<lambda>s. set_state (current_port s - 1) USB_DEVICE_STATUS_GET_DESCRIPTOR s)) (\<lambda>_. act (next_port hw))"
  have np: "ports (next_port hw s) = (let n = find_waiting (dev_state s)
      in if n = -1 then (-1, dev_state s) else (n, (dev_state s)(n - 1 := ENABLING)))" for s
    by (rule ports_next_port)
  have "steps (\<lambda>(cur, state). state (cur - 1) = ADDRESSING) ?m"
    unfolding steps_def
  proof (intro allI impI)
    fix s r s' assume P: "case ports s of (cur, state) \<Rightarrow> state (cur - 1) = ADDRESSING" and r: "?m s = Some (r, s')"
    let ?cur = "current_port s" and ?st = "(dev_state s)(current_port s - 1 := DESCRIBING)"
    have "ports s' = (let n = find_waiting ?st in if n = -1 then (-1, ?st) else (n, ?st(n - 1 := ENABLING)))"
      using r by (auto simp: seq_def act_def ret_def np set_state_def Let_def simp del: status_code.simps)
    moreover have "ports s = (?cur, dev_state s)" "dev_state s (?cur - 1) = ADDRESSING" using P by (simp_all add: ports_def)
    ultimately show "usb_step\<^sup>*\<^sup>* (ports s) (ports s')"
      using addressed_last [of "dev_state s" ?cur] addressed_next [of "dev_state s" ?cur, OF _ refl]
      by (auto simp: Let_def simp del: status_code.simps)
  qed
  note m = this
  have "quiet (act (xhci_debug hw f a))" "quiet (act (\<lambda>s. get_descriptor hw (g s) x y z (b s) l s))" for f a g x y z b l
    by (intro quiet; simp)+
  then show ?thesis unfolding handle_address_device_def by (intro steps_seq_quiet m)
qed

text \<open>Configuring a device leaves the ports alone or moves its port to the last state.\<close>

definition configures :: "int \<Rightarrow> ('a, 'd) run \<Rightarrow> bool" where
  "configures i m \<longleftrightarrow> (\<forall>s r s'. m s = Some (r, s') \<longrightarrow>
     ports s' = ports s \<or> ports s' = (current_port s, (dev_state s)(i := CONFIGURED)))"

lemma configures_quiet: "quiet m \<Longrightarrow> configures i m"
  by (simp add: configures_def quiet_def)

lemma configures_seq:
  assumes m: "configures i m" and f: "\<And>x. configures i (f x)"
  shows "configures i (seq m f)"
  unfolding configures_def
proof (intro allI impI)
  fix s r s' assume "seq m f s = Some (r, s')"
  then show "ports s' = ports s \<or> ports s' = (current_port s, (dev_state s)(i := CONFIGURED))"
  proof (cases rule: seq_cases)
    case (2 x s1)
    then have "ports s1 = ports s \<or> ports s1 = (current_port s, (dev_state s)(i := CONFIGURED))"
      "ports s' = ports s1 \<or> ports s' = (current_port s1, (dev_state s1)(i := CONFIGURED))"
      using m f [of x] by (auto simp: configures_def simp del: status_code.simps)
    then show ?thesis by (auto simp: ports_def simp del: status_code.simps)
  qed (use m in \<open>simp add: configures_def\<close>)
qed

lemma configure_configures: "configures (int (unat p) - 1) (configure hw st slot p k ps)"
proof -
  have "configures i (act (set_state i USB_DEVICE_STATUS_END_OF_INITIALIZE))" for i
    by (auto simp: configures_def act_def ret_def set_state_def ports_def)
  note last = this
  have q: "configures i (act f)" if "\<And>s. ports (f s) = ports s" for i and f :: "'d xhci \<Rightarrow> 'd xhci"
    using that by (intro configures_quiet quiet)
  show ?thesis
    unfolding configure_def Let_def get_descriptor_noreport_def
    by (intro configures_seq last configures_quiet [OF quiet_basic(2)] configures_quiet [OF quiet_basic(1)]
        configures_quiet [OF quiet_alloc(1)] configures_quiet [OF quiet_parse_descriptors]
        configures_quiet [OF quiet_basic(4)] quiet_basic(5) q) simp_all
qed

lemma configure_all_configures: "configures (int (unat p) - 1) (configure_all hw st slot p ks ps)"
proof (induction ks arbitrary: ps)
  case (Cons k ks)
  then show ?case unfolding configure_all.simps by (intro configures_seq configure_configures)
qed (simp add: configures_quiet quiet)

lemma handle_descriptor_steps:
  "steps (\<lambda>(cur, state). state (int (unat p) - 1) = DESCRIBING) (handle_descriptor hw st slot p)"
proof -
  let ?P = "\<lambda>(cur, state). state (int (unat p) - 1) = DESCRIBING"
  have "steps ?P (configure_all hw st slot p ks ps)" for ks ps
    unfolding steps_def
  proof (intro allI impI)
    fix s r s' assume "?P (ports s)" "configure_all hw st slot p ks ps s = Some (r, s')"
    then have "ports s' = ports s \<or> ports s' = (current_port s, (dev_state s)(int (unat p) - 1 := CONFIGURED))"
      "dev_state s (int (unat p) - 1) = DESCRIBING"
      using configure_all_configures [of p hw st slot ks ps]
      by (auto simp: configures_def ports_def simp del: status_code.simps)
    then show "usb_step\<^sup>*\<^sup>* (ports s) (ports s')"
      using configured [of "dev_state s" "int (unat p) - 1" "current_port s"]
      by (auto simp: ports_def simp del: status_code.simps)
  qed
  then show ?thesis unfolding handle_descriptor_def Let_def by (intro steps_seq_quiet quiet) simp_all
qed

lemma handle_transfer_event_steps: "steps (\<lambda>_. True) (handle_transfer_event hw st e)"
proof -
  have "steps (\<lambda>_. True) (seq (ask (\<lambda>s. dev_state s (int (unat p) - 1))) (\<lambda>state.
      when_run ((code = 1 \<or> code = 13) \<and> state = DESCRIBING) (handle_descriptor hw st slot p)))" for p slot and code :: u64
    by (rule steps_guard [OF handle_descriptor_steps]) (simp add: ports_def)
  note g = this
  have q: "quiet (act (print_event hw st t L e))" "quiet (act (xhci_debug hw f a))" for t L f a by (intro quiet; simp)+
  show ?thesis unfolding handle_transfer_event_def
    by (rule g | rule steps_seq_quiet | rule q | rule quiet_basic(2))+
qed

lemma handle_command_event_steps: "steps (\<lambda>_. True) (handle_command_event hw st e)"
proof -
  have qa: "quiet (act advance_start)" by (intro quiet) simp
  have q: "quiet (act (print_event hw st t L e))" "quiet (act (xhci_debug hw f a))" for t L f a by (intro quiet; simp)+
  have e: "steps (\<lambda>_. True) (seq (ask (\<lambda>s. issuer_type command_completion_event e s = 9 \<and> current_state s = ENABLING))
      (\<lambda>b. when_run b (seq (handle_enable_slot hw st e p) (\<lambda>_. act advance_start))))" for p
    by (rule steps_guard [OF steps_then_quiet [OF handle_enable_slot_steps]])
      (rule qa, simp add: current_state_def ports_def)
  have a: "steps (\<lambda>_. True) (seq (ask (\<lambda>s. issuer_type command_completion_event e s = 11 \<and> current_state s = ADDRESSING))
      (\<lambda>b. when_run b (seq (handle_address_device hw st slot p) (\<lambda>_. act advance_start))))" for slot p
    by (rule steps_guard [OF steps_then_quiet [OF handle_address_device_steps]])
      (rule qa, simp add: current_state_def ports_def)
  have "steps (\<lambda>_. True) (seq (ask (\<lambda>s. issuer_type command_completion_event e s = 9 \<and> current_state s = ENABLING))
      (\<lambda>b. seq (when_run b (seq (handle_enable_slot hw st e p) (\<lambda>_. act advance_start))) (\<lambda>_.
      seq (ask (\<lambda>s. issuer_type command_completion_event e s = 11 \<and> current_state s = ADDRESSING))
      (\<lambda>b. when_run b (seq (handle_address_device hw st slot p) (\<lambda>_. act advance_start))))))" for p slot
    unfolding seq_assoc [of "ask _" "\<lambda>b. when_run b _"] by (rule steps_seq [OF e a])
  note g = this
  show ?thesis unfolding handle_command_event_def
    by (rule g | rule steps_seq_quiet | rule q | rule quiet_basic(2))+
qed

lemma ports_enumerate:
  "ports (enumerate_port hw p s) = (if current_port s = -1 then (int (unat p), (dev_state s)(int (unat p) - 1 := ENABLING))
     else (current_port s, (dev_state s)(int (unat p) - 1 := WAITING)))"
proof -
  have "ports (ring_command hw enable_slot_trb s) = ports s" by simp
  then show ?thesis by (simp add: enumerate_port_def Let_def set_state_def ports_def del: status_code.simps)
qed

lemma enumerate_step: "usb_step (ports s) (ports (enumerate_port hw p s))"
  unfolding ports_enumerate using first_port [of "dev_state s" p] later_port [of "current_port s" "dev_state s" p]
  by (simp add: ports_def del: status_code.simps)

lemma handle_port_event_steps: "usb_step\<^sup>*\<^sup>* (ports s) (ports (handle_port_event hw e s))"
proof -
  obtain v s1 where r: "read_xhci_operation hw
      (ucast (PORTSC (ucast (trb_field port_status_change_event ''port'' e (s\<lparr>world := scroll_screen_to hw (world s)\<rparr>))) AND 1))
      (s\<lparr>world := scroll_screen_to hw (world s)\<rparr>) = (v, s1)" by (metis surj_pair)
  have p1: "ports s1 = ports s" using ports_get(3) [OF r] by simp
  define port :: u8 where "port = ucast (trb_field port_status_change_event ''port'' e (s\<lparr>world := scroll_screen_to hw (world s)\<rparr>))"
  obtain v2 s2 where r2: "read_xhci_operation hw (ucast (PORTSC port)) (xhci_debug hw ''Configuring port:%d'' [ucast port] s1) = (v2, s2)"
    by (metis surj_pair)
  have p2: "ports s2 = ports s" using ports_get(3) [OF r2] p1 by simp
  show ?thesis
  proof (cases "v \<noteq> 0 \<and> v2 AND 0x02 \<noteq> 0")
    case True
    then have "handle_port_event hw e s = enumerate_port hw port (xhci_debug hw ''PORTSC(%d):%08X'' [ucast port, ucast v2] s2)"
      using r r2 by (simp add: handle_port_event_def Let_def port_def)
    then show ?thesis using enumerate_step [of _ hw port] p2 by (metis ports_basic(3) r_into_rtranclp)
  next
    case False
    then have "ports (handle_port_event hw e s) = ports s"
      using r r2 p1 p2 by (auto simp: handle_port_event_def Let_def port_def [symmetric])
    then show ?thesis by simp
  qed
qed

lemma handle_event_steps: "steps (\<lambda>_. True) (handle_event hw st e)"
proof -
  have w: "steps (\<lambda>_. True) (when_run b m)" if "steps (\<lambda>_. True) m" for b and m :: "(unit, 'd) run"
    using that by (auto simp: when_run_def intro: steps_quiet quiet)
  have "steps (\<lambda>_. True) (act (handle_port_event hw e))" by (rule steps_act) (rule handle_port_event_steps)
  then show ?thesis
    unfolding handle_event_def Let_def
    by (intro steps_seq w handle_transfer_event_steps handle_command_event_steps steps_quiet [OF quiet_basic(2)])
qed

subsection \<open>\<open>usb_process_events\<close> refines the machine\<close>

lemma process_steps: "steps (\<lambda>_. True) (usb_process_events hw st)"
proof -
  have "usb_step\<^sup>*\<^sup>* (ports s) (ports (snd y))" if "usb_process_events hw st s = Some y" for s y
  proof (rule usb_process_events.raw_induct [where P = "\<lambda>hw st s y. usb_step\<^sup>*\<^sup>* (ports s) (ports (snd y))", OF _ that])
    fix f :: "'d hw \<Rightarrow> statics \<Rightarrow> (unit, 'd) run" and hw st and s :: "'d xhci" and y
    assume IH: "\<And>hw st s y. f hw st s = Some y \<Longrightarrow> usb_step\<^sup>*\<^sup>* (ports s) (ports (snd y))"
      and r: "(case er_isQueued hw s of (queued, s) \<Rightarrow> if \<not> queued then ret () s
        else seq (next_event hw) (\<lambda>trb s. seq (handle_event hw st trb) (\<lambda>_ s. f hw st s) s) s) = Some y"
    obtain q s1 where e: "er_isQueued hw s = (q, s1)" by (metis surj_pair)
    then have p1: "ports s1 = ports s" using ports_events(3) [of hw s] by simp
    have "steps (\<lambda>_. True) (\<lambda>s. f hw st s)" unfolding steps_def using IH by (metis snd_conv)
    then have "steps (\<lambda>_. True) (seq (next_event hw) (\<lambda>trb s. seq (handle_event hw st trb) (\<lambda>_ s. f hw st s) s))"
      by (intro steps_seq_quiet quiet steps_seq [OF handle_event_steps])
    then have "usb_step\<^sup>*\<^sup>* (ports s1) (ports s')" if "seq (next_event hw) (\<lambda>trb s. seq (handle_event hw st trb) (\<lambda>_ s. f hw st s) s) s1 = Some (r', s')" for r' s'
      using that unfolding steps_def by blast
    then show "usb_step\<^sup>*\<^sup>* (ports s) (ports (snd y))"
      using r e p1 by (cases y; cases q) (simp_all add: ret_def)
  qed
  then show ?thesis unfolding steps_def by (metis snd_conv)
qed

text \<open>
  C4: Whatever the controller answers, and also when it ends in a panic, \<open>usb_process_events\<close> changes
  the current port and the states of the ports only by steps of the machine \<open>usb_step\<close>: a port
  becomes current when there is no current one and waits otherwise, the current port goes from
  enabling its slot to addressing to reading descriptors, then the last waiting port becomes
  current, and only a port whose descriptor was requested is configured.
\<close>
theorem usb_process_events_refines:
  assumes "usb_process_events hw st s = Some (r, s')"
  shows "usb_step\<^sup>*\<^sup>* (ports s) (ports s')"
  using process_steps [of hw st] assms by (auto simp: steps_def)

lemma ports_demo2: "ports demo2 = (1, (\<lambda>_. 0)(0 := ENABLING))"
  by (simp add: demo2_def ports_enumerate demo1_fields)

lemma usb_process_events_refines_witness:
  "usb_step\<^sup>*\<^sup>* (-1, \<lambda>_. 0) (1, (\<lambda>_. 0)(0 := ENABLING))"
  using usb_process_events_refines [OF demo_run] by (simp add: ports_demo2) (simp add: ports_def demo_xhci_def)

subsection \<open>One port at a time\<close>

lemma find_waiting_range: "find_waiting st = -1 \<or> 1 \<le> find_waiting st \<and> find_waiting st \<le> 256 \<and> st (find_waiting st - 1) = WAITING"
proof -
  define f where "f = (\<lambda>i current. if st (int i) = WAITING then int i + 1 else current)"
  have "fold f [0..<n] (-1) = -1 \<or> 1 \<le> fold f [0..<n] (-1) \<and> fold f [0..<n] (-1) \<le> int n \<and>
      st (fold f [0..<n] (-1) - 1) = WAITING" for n
  proof (induction n)
    case (Suc n)
    have "fold f [0..<Suc n] (-1) = f n (fold f [0..<n] (-1))" by simp
    with Suc show ?case by (auto simp: f_def simp del: status_code.simps)
  qed simp
  from this [of 256] show ?thesis unfolding find_waiting_def f_def by simp
qed

lemma port_not_none [simp]: "uint (p :: u8) \<noteq> -1"
proof -
  have "0 \<le> uint p" by simp
  then show ?thesis by linarith
qed

definition usb_inv :: "ports \<Rightarrow> bool" where
  "usb_inv = (\<lambda>(cur, st). \<forall>i. st i = ENABLING \<or> st i = ADDRESSING \<longrightarrow> cur \<noteq> -1 \<and> i = cur - 1)"

lemma usb_step_inv: "usb_step ps ps' \<Longrightarrow> usb_inv ps \<Longrightarrow> usb_inv ps'"
proof (induction rule: usb_step.induct)
  case (addressed_next st cur n)
  have "st i \<noteq> ENABLING \<and> st i \<noteq> ADDRESSING" if "i \<noteq> cur - 1" for i
    using addressed_next.prems that unfolding usb_inv_def by blast
  then have "(st(cur - 1 := DESCRIBING, n - 1 := ENABLING)) i \<noteq> ENABLING \<and> (st(cur - 1 := DESCRIBING, n - 1 := ENABLING)) i \<noteq> ADDRESSING"
    if "i \<noteq> n - 1" for i using that by simp
  with addressed_next(3) show ?case unfolding usb_inv_def prod.case by blast
next
  case (first_port st p)
  show ?case using first_port.prems unfolding usb_inv_def prod.case by (simp split: if_splits) (blast | linarith)?
next
  case (later_port cur st p)
  show ?case using later_port.prems unfolding usb_inv_def prod.case by (simp split: if_splits) (blast | linarith)?
next
  case (slot_enabled st cur)
  have "st i \<noteq> ENABLING \<and> st i \<noteq> ADDRESSING" if "i \<noteq> cur - 1" for i
    using slot_enabled that unfolding usb_inv_def by blast
  moreover have "cur \<noteq> -1" using slot_enabled unfolding usb_inv_def prod.case by blast
  ultimately have "(st(cur - 1 := ADDRESSING)) i \<noteq> ENABLING \<and> (st(cur - 1 := ADDRESSING)) i \<noteq> ADDRESSING" if "i \<noteq> cur - 1" for i
    using that by simp
  with \<open>cur \<noteq> -1\<close> show ?case unfolding usb_inv_def prod.case by blast
next
  case (addressed_last st cur)
  have "st i \<noteq> ENABLING \<and> st i \<noteq> ADDRESSING" if "i \<noteq> cur - 1" for i
    using addressed_last.prems that unfolding usb_inv_def by blast
  then have "(st(cur - 1 := DESCRIBING)) i \<noteq> ENABLING \<and> (st(cur - 1 := DESCRIBING)) i \<noteq> ADDRESSING" for i by simp
  then show ?case unfolding usb_inv_def prod.case by blast
next
  case (configured st i cur)
  then show ?case by (auto simp: usb_inv_def)
qed

lemma usb_steps_inv: "usb_step\<^sup>*\<^sup>* ps ps' \<Longrightarrow> usb_inv ps \<Longrightarrow> usb_inv ps'"
  by (induction rule: rtranclp_induct) (auto dest: usb_step_inv)

text \<open>
  C5: At most one port is enabling its slot or being addressed, and it is the current one: the
  controller's default address is never shared by two devices.
\<close>
theorem usb_one_port_at_a_time:
  assumes "usb_inv (ports s)" and "usb_process_events hw st s = Some (r, s')"
    and "dev_state s' i = ENABLING \<or> dev_state s' i = ADDRESSING"
    and "dev_state s' j = ENABLING \<or> dev_state s' j = ADDRESSING"
  shows "i = j \<and> i = current_port s' - 1"
proof -
  have "usb_step\<^sup>*\<^sup>* (ports s) (ports s')" using process_steps [of hw st] assms(2) by (auto simp: steps_def)
  then have "usb_inv (ports s')" using assms(1) by (rule usb_steps_inv)
  then show ?thesis using assms(3,4) by (auto simp: usb_inv_def ports_def simp del: status_code.simps)
qed

lemma usb_one_port_at_a_time_witness:
  "dev_state demo2 0 = ENABLING \<and> 0 = current_port demo2 - 1"
proof -
  have "usb_inv (ports demo_xhci)" by (simp add: usb_inv_def ports_def demo_xhci_def)
  moreover have e: "dev_state demo2 0 = ENABLING" using ports_demo2 by (simp add: ports_def)
  ultimately show ?thesis
    using usb_one_port_at_a_time [OF _ demo_run, where i = 0 and j = 0] by simp
qed

subsection \<open>A second event for the current port\<close>

definition stalled :: "ports \<Rightarrow> bool" where
  "stalled = (\<lambda>(cur, st). cur \<noteq> -1 \<and> (\<forall>i. st i \<noteq> ENABLING \<and> st i \<noteq> ADDRESSING))"

lemma stalled_step: "usb_step ps ps' \<Longrightarrow> stalled ps \<Longrightarrow> stalled ps' \<and> fst ps' = fst ps"
  by (induction rule: usb_step.induct) (auto simp: stalled_def)

lemma stalled_steps: "usb_step\<^sup>*\<^sup>* ps ps' \<Longrightarrow> stalled ps \<Longrightarrow> stalled ps' \<and> fst ps' = fst ps"
  by (induction rule: rtranclp_induct) (auto dest: stalled_step)

text \<open>
  C34: A second port status change event for the port that is being enumerated (the controller reports
  every change of the port) takes it back to waiting. From then on no port is enabled or addressed
  any more, whatever events arrive: the current port stays as it is and blocks all others.
\<close>
theorem usb_second_port_event_stalls:
  assumes "usb_inv (ports s)" and "current_port s = int (unat p)"
    and "usb_process_events hw st (enumerate_port hw p s) = Some (r, s')"
  shows "current_port s' = int (unat p) \<and> dev_state s' i \<noteq> ENABLING \<and> dev_state s' i \<noteq> ADDRESSING"
proof -
  have "ports (enumerate_port hw p s) = (int (unat p), (dev_state s)(int (unat p) - 1 := WAITING))"
    using assms(2) by (simp add: ports_enumerate)
  moreover have "stalled (int (unat p), (dev_state s)(int (unat p) - 1 := WAITING))"
    using assms(1,2) by (auto simp: usb_inv_def stalled_def ports_def)
  moreover have "usb_step\<^sup>*\<^sup>* (ports (enumerate_port hw p s)) (ports s')"
    using process_steps [of hw st] assms(3) by (auto simp: steps_def)
  ultimately have "stalled (ports s') \<and> fst (ports s') = int (unat p)" using stalled_steps by fastforce
  then show ?thesis by (simp add: stalled_def ports_def del: status_code.simps)
qed

lemma usb_second_port_event_stalls_witness:
  "current_port demo3 = 1 \<and> dev_state demo3 0 \<noteq> ENABLING \<and> dev_state demo3 0 \<noteq> ADDRESSING"
proof -
  have "usb_inv (ports demo2)" "current_port demo2 = int (unat (1 :: u8))"
    using ports_demo2 by (simp_all add: usb_inv_def ports_def)
  from usb_second_port_event_stalls [OF this demo3_idle [unfolded demo3_def], of 0]
  show ?thesis by (simp add: demo3_def)
qed

end
