(* ===== verification/Usb_Descriptors.thy ===== *)
theory Usb_Descriptors
  imports Register_File
begin

unbundle bit_operations_syntax

text \<open>
  The walk over the descriptors of a configuration in \<open>usb_process_events\<close>: it ends, and what it
  makes of the polling interval of an endpoint.
\<close>

subsection \<open>\<open>get_highest_bit\<close>\<close>

declare highest_bit_loop.simps [simp del]

lemma highest_bit_loop_bound: "highest_bit_loop r b \<le> r + n \<longleftrightarrow> unat b < 2 ^ n"
proof (induction r b arbitrary: n rule: highest_bit_loop.induct)
  case (1 r b)
  show ?case
  proof (cases "b = 0")
    case True
    then show ?thesis by (simp add: highest_bit_loop.simps)
  next
    case b: False
    then have pos: "0 < unat b" by (simp add: unat_gt_0)
    have step: "highest_bit_loop r b = highest_bit_loop (Suc r) (drop_bit 1 b)"
      using b by (subst highest_bit_loop.simps) simp
    have half: "unat (drop_bit 1 b) = unat b div 2" by (simp add: drop_bit_eq_div unat_div)
    show ?thesis
    proof (cases n)
      case 0
      have "\<not> highest_bit_loop (Suc r) (drop_bit 1 b) \<le> r"
      proof
        assume le: "highest_bit_loop (Suc r) (drop_bit 1 b) \<le> r"
        then have "highest_bit_loop (Suc r) (drop_bit 1 b) \<le> Suc r + 0" by simp
        with 1 [OF b, of 0] have "drop_bit 1 b = 0" by (simp add: unat_eq_0)
        then show False using le by (simp add: highest_bit_loop.simps)
      qed
      then show ?thesis using 0 pos step by simp
    next
      case (Suc m)
      then show ?thesis using 1 [OF b, of m] step half by simp linarith
    qed
  qed
qed

text \<open>\<open>get_highest_bit\<close> is the number of binary digits.\<close>

lemma get_highest_bit_le: "get_highest_bit b \<le> n \<longleftrightarrow> unat b < 2 ^ n"
  using highest_bit_loop_bound [of 0 b n] by (simp add: get_highest_bit_def)

lemma get_highest_bit_bounds:
  assumes "b \<noteq> 0"
  shows "unat b < 2 ^ get_highest_bit b" "2 ^ get_highest_bit b \<le> 2 * unat b" "get_highest_bit b \<le> 8"
proof -
  show "unat b < 2 ^ get_highest_bit b" using get_highest_bit_le [of b "get_highest_bit b"] by simp
  have "0 < unat b" using assms by (simp add: unat_gt_0)
  then obtain m where m: "get_highest_bit b = Suc m"
    using get_highest_bit_le [of b 0] by (cases "get_highest_bit b") auto
  then show "2 ^ get_highest_bit b \<le> 2 * unat b" using get_highest_bit_le [of b m] by simp
  show "get_highest_bit b \<le> 8" using get_highest_bit_le [of b 8] unat_u8_lt [of b] by simp
qed

subsection \<open>The polling interval\<close>

text \<open>
  C36: An interrupt endpoint of a full or low speed device asks for a poll at least every
  \<open>bInterval\<close> milliseconds, that is 8 times \<open>bInterval\<close> microframes of 125 microseconds; the
  controller polls every 2 to the power of the interval field. The driver's field is always too
  large: the period is longer than what the device asked for, and at most twice as long.
\<close>
theorem endpoint_interval_too_long:
  assumes "speed = USB_FULLSPEED \<or> speed = USB_LOWSPEED" and "is_interrupt attr" and "bInterval \<noteq> 0"
  shows "8 * unat bInterval < 2 ^ unat (endpoint_interval speed attr bInterval) \<and>
    2 ^ unat (endpoint_interval speed attr bInterval) \<le> 2 * (8 * unat bInterval) \<and>
    4 \<le> endpoint_interval speed attr bInterval \<and> endpoint_interval speed attr bInterval \<le> 11"
proof -
  note b = get_highest_bit_bounds [OF assms(3)]
  have "\<not> is_isochronous attr" using assms(2) by (simp add: is_interrupt_def is_isochronous_def)
  then have e: "endpoint_interval speed attr bInterval = word_of_nat (get_highest_bit bInterval + 3)"
    using assms(1) by (simp add: endpoint_interval_def)
  have w: "unat (word_of_nat m :: u64) = m" if "m < 2 ^ 64" for m
    using that by (simp add: unsigned_of_nat take_bit_nat_eq_self)
  have u: "unat (word_of_nat (get_highest_bit bInterval + 3) :: u64) = get_highest_bit bInterval + 3"
    by (rule w) (use b(3) in simp)
  have "1 \<le> get_highest_bit bInterval" using b(1) assms(3) by (cases "get_highest_bit bInterval") (auto simp: unat_eq_0)
  then have "4 \<le> endpoint_interval speed attr bInterval" "endpoint_interval speed attr bInterval \<le> 11"
    unfolding e word_le_nat_alt u using b(3) by simp_all
  moreover have "8 * unat bInterval < 2 ^ unat (endpoint_interval speed attr bInterval)"
    "2 ^ unat (endpoint_interval speed attr bInterval) \<le> 2 * (8 * unat bInterval)"
    unfolding e u using b(1,2) by (simp_all add: power_add)
  ultimately show ?thesis by blast
qed

theorem endpoint_interval_too_long_witness:
  "8 * (10 :: nat) < 2 ^ unat (endpoint_interval USB_FULLSPEED 3 10)"
  using endpoint_interval_too_long [of USB_FULLSPEED 3 10] by (simp add: is_interrupt_def)

subsection \<open>The walk ends\<close>

text \<open>The walk with a bound on the number of its turns.\<close>

fun parse_turns ::
  "nat \<Rightarrow> 'd hw \<Rightarrow> u64 \<Rightarrow> u8 \<Rightarrow> u64 \<Rightarrow> addr \<Rightarrow> addr \<Rightarrow> addr \<Rightarrow> parse_state \<Rightarrow> (parse_state, 'd) run" where
  "parse_turns 0 hw slot port_id cv input_ctx end_p p ps = ret ps"
| "parse_turns (Suc n) hw slot port_id cv input_ctx end_p p ps = (\<lambda>s.
     if p < end_p \<and> read_byte p s \<noteq> 0 then
       seq (parse_one hw slot port_id cv input_ctx p ps) (\<lambda>ps s.
       parse_turns n hw slot port_id cv input_ctx end_p (p + ucast (read_byte p s)) ps s) s
     else ret ps s)"

lemma seq_cong: "(\<And>x s1. m s = Some (Inr x, s1) \<Longrightarrow> f x s1 = g x s1) \<Longrightarrow> seq m f s = seq m g s"
  by (simp add: seq_def split: option.split sum.split)

text \<open>
  C17: The walk over the descriptors ends whatever the device sent: every descriptor is looked at by
  \<open>parse_one\<close>, and there are at most as many turns as bytes, because each turn goes on by the
  length of the descriptor and a length of 0 ends the walk, also when it becomes 0 meanwhile.
\<close>
theorem parse_descriptors_turns:
  assumes "unat end_p + 255 < 2 ^ 64"
  shows "parse_descriptors hw slot port_id cv input_ctx end_p p ps s =
    parse_turns (unat end_p - unat p) hw slot port_id cv input_ctx end_p p ps s"
proof -
  have "parse_descriptors hw slot port_id cv input_ctx end_p p ps s = parse_turns n hw slot port_id cv input_ctx end_p p ps s"
    if "unat end_p - unat p \<le> n" for n
    using that
  proof (induction n arbitrary: p ps s)
    case 0
    then show ?case by (simp add: parse_descriptors.simps word_less_nat_alt)
  next
    case (Suc n)
    show ?case
    proof (cases "p < end_p \<and> read_byte p s \<noteq> 0")
      case True
      have next_turn: "parse_descriptors hw slot port_id cv input_ctx end_p (p + ucast (read_byte p s1)) ps1 s1 =
          parse_turns n hw slot port_id cv input_ctx end_p (p + ucast (read_byte p s1)) ps1 s1" for ps1 s1
      proof (cases "read_byte p s1 = 0")
        case True
        then show ?thesis by (cases n) (simp_all add: parse_descriptors.simps)
      next
        case False
        let ?b = "read_byte p s1"
        have "0 < unat ?b" "unat ?b < 256" using False unat_u8_lt [of ?b] by (simp_all add: unat_gt_0)
        moreover have "unat (ucast ?b :: u64) = unat ?b" by (rule unat_ucast_up) simp
        moreover have "unat p < unat end_p" using True by (simp add: word_less_nat_alt)
        ultimately have "unat (p + ucast ?b) = unat p + unat ?b"
          using assms unat_add_exact [of p "ucast ?b"] by simp
        then have "unat end_p - unat (p + ucast ?b) \<le> n" using Suc.prems \<open>0 < unat ?b\<close> by linarith
        then show ?thesis by (rule Suc.IH)
      qed
      show ?thesis
        by (subst parse_descriptors.simps) (simp add: True, rule seq_cong, rule next_turn)
    next
      case False
      then show ?thesis by (subst parse_descriptors.simps) auto
    qed
  qed
  then show ?thesis by simp
qed

theorem parse_descriptors_turns_witness:
  "parse_descriptors register_file 1 1 1 0 0xffff806000300009 0xffff806000300000
       \<lparr>classCode = 0, subClassCode = 0, interface_protocol = 0, is_set_configuration = False\<rparr> demo_xhci =
     parse_turns 9 register_file 1 1 1 0 0xffff806000300009 0xffff806000300000
       \<lparr>classCode = 0, subClassCode = 0, interface_protocol = 0, is_set_configuration = False\<rparr> demo_xhci"
  using parse_descriptors_turns [of "0xffff806000300009" register_file 1 1 1 0 "0xffff806000300000"
      "\<lparr>classCode = 0, subClassCode = 0, interface_protocol = 0, is_set_configuration = False\<rparr>" demo_xhci] by simp

end
