(* ===== verification/Xhci_Capabilities.thy ===== *)
theory Xhci_Capabilities
  imports Register_File
begin

unbundle bit_operations_syntax

text \<open>
  The walk of \<open>init_xhci\<close> over the extended capabilities of the controller, against the list the
  xHCI specification defines.
\<close>

subsection \<open>The specification\<close>

text \<open>
  A capability has its identifier in bits 0 to 7 of its first register and in bits 8 to 15 the
  distance to the next one in units of four bytes, 0 at the end.
\<close>

definition capability_id :: "u32 \<Rightarrow> u32" where "capability_id v = v AND 0xff"
definition capability_next :: "u32 \<Rightarrow> u32" where "capability_next v = drop_bit 8 v AND 0xff"

fun capability_list :: "(addr \<Rightarrow> u32) \<Rightarrow> nat \<Rightarrow> addr \<Rightarrow> (addr \<times> u32) list" where
  "capability_list d 0 a = []"
| "capability_list d (Suc n) a = (a, capability_id (d a)) #
     (if capability_next (d a) = 0 then [] else capability_list d n (a + 4 * ucast (capability_next (d a))))"

subsection \<open>The walk on a register file\<close>

definition next_off :: "u32 \<Rightarrow> u16" where "next_off v = ucast (push_bit 2 (drop_bit 8 v AND 0xffff))"

abbreviation regs :: "(addr \<Rightarrow> u32) xhci \<Rightarrow> addr \<Rightarrow> u32" where "regs s \<equiv> snd (world s)"

lemma next_off_claimed: "next_off (v OR push_bit 24 1) = next_off v"
  unfolding next_off_def by (rule arg_cong [where f = "\<lambda>x. ucast (push_bit 2 x)"], rule bit_word_eqI)
    (auto simp: bit_simps and_masks)

text \<open>One turn goes to the offset the register names and keeps what it names.\<close>

lemma scan_capability_rf:
  obtains s1 where "scan_capability register_file off s = (next_off (regs s (capability_addr off s)), s1)"
    "mmio_base s1 = mmio_base s" "xhci_extend_capability s1 = xhci_extend_capability s"
    "\<And>a. next_off (regs s1 a) = next_off (regs s a)"
proof -
  have c: "capability_addr off (s\<lparr>world := w\<rparr>) = capability_addr off s" for w by (simp add: capability_addr_def)
  let ?r = "scan_capability register_file off s"
  have "fst ?r = next_off (regs s (capability_addr off s))" "mmio_base (snd ?r) = mmio_base s"
    "xhci_extend_capability (snd ?r) = xhci_extend_capability s"
    "next_off (regs (snd ?r) a) = next_off (regs s a)" for a
    unfolding scan_capability_def Let_def next_off_def [symmetric]
    by (auto simp: next_off_claimed [simplified] c)
  then show thesis by (intro that [of "snd ?r"]) (simp_all add: prod_eq_iff)
qed

lemma scan_stays:
  assumes "next_off (regs s (capability_addr off s)) = off" "off \<noteq> 0"
  shows "scan_capabilities register_file off s = None"
proof -
  have "\<not> (next_off (regs s (capability_addr off s)) = off \<and> off \<noteq> 0)"
    if "scan_capabilities register_file off s = Some y" for y
  proof (rule scan_capabilities.raw_induct [where P = "\<lambda>hw off s y. hw = register_file \<longrightarrow>
      \<not> (next_off (regs s (capability_addr off s)) = off \<and> off \<noteq> 0)", OF _ that, THEN mp, OF _ refl])
    fix f :: "(addr \<Rightarrow> u32) hw \<Rightarrow> u16 \<Rightarrow> (addr \<Rightarrow> u32) xhci \<Rightarrow> (addr \<Rightarrow> u32) xhci option"
      and hw off and s y :: "(addr \<Rightarrow> u32) xhci"
    assume IH: "\<And>hw off s y. f hw off s = Some y \<Longrightarrow> hw = register_file \<longrightarrow>
        \<not> (next_off (regs s (capability_addr off s)) = off \<and> off \<noteq> 0)"
      and r: "(case scan_capability hw off s of (off, s) \<Rightarrow> if off = 0 then Some s else f hw off s) = Some y"
    show "hw = register_file \<longrightarrow> \<not> (next_off (regs s (capability_addr off s)) = off \<and> off \<noteq> 0)"
    proof (intro impI notI)
      assume hw: "hw = register_file" and l: "next_off (regs s (capability_addr off s)) = off \<and> off \<noteq> 0"
      obtain s1 where s1: "scan_capability register_file off s = (off, s1)" "mmio_base s1 = mmio_base s"
        "xhci_extend_capability s1 = xhci_extend_capability s" "\<And>a. next_off (regs s1 a) = next_off (regs s a)"
        using scan_capability_rf [of off s] l by metis
      then have "capability_addr off s1 = capability_addr off s" by (simp add: capability_addr_def)
      then show False using r IH [of hw off s1 y] s1 hw l by simp
    qed
  qed
  then show ?thesis using assms by (cases "scan_capabilities register_file off s") blast+
qed

lemma scan_goes:
  assumes "next_off (regs s (capability_addr 0 s)) = 16" "next_off (regs s (capability_addr 16 s)) = 16"
  shows "scan_capabilities register_file 0 s = None"
proof -
  obtain s1 where s1: "scan_capability register_file 0 s = (16, s1)" "mmio_base s1 = mmio_base s"
    "xhci_extend_capability s1 = xhci_extend_capability s" "\<And>a. next_off (regs s1 a) = next_off (regs s a)"
    using scan_capability_rf [of 0 s] assms(1) by metis
  then have "capability_addr 16 s1 = capability_addr 16 s" by (simp add: capability_addr_def)
  then have "scan_capabilities register_file 16 s1 = None" using assms(2) s1(4) by (intro scan_stays) simp_all
  then show ?thesis using s1(1) by (subst scan_capabilities.simps) simp
qed

subsection \<open>\<open>init_xhci\<close>\<close>

definition bar_base :: "pci_device \<Rightarrow> addr" where
  "bar_base dev = P2V (push_bit 32 (ucast (bar1 dev)) OR ucast (bar0 dev AND NOT 0x0f))"

text \<open>Where the list begins: \<open>HCCPARAMS1\<close> has its distance from the base in units of four bytes.\<close>

definition first_capability :: "pci_device \<Rightarrow> (addr \<Rightarrow> u32) \<Rightarrow> addr" where
  "first_capability dev d = bar_base dev + ucast (push_bit 2 (drop_bit 16 (d (bar_base dev + 0x10)) AND 0xffff))"

lemma seq_None [simp]: "m s = None \<Longrightarrow> seq m f s = None" "seq (act g) f s = f () (g s)" "seq (ask e) h s = h (e s) s"
  by (simp_all add: seq_def act_def ask_def ret_def)

lemma seq_calc: "seq (calc g) f s = (case g s of (x, s1) \<Rightarrow> f x s1)"
  by (simp add: seq_def calc_def ret_def split: prod.split)

lemma find_registers_none:
  assumes "next_off (regs s (first_capability dev (regs s))) = 16" "next_off (regs s (first_capability dev (regs s) + 16)) = 16"
  shows "find_registers register_file dev s = None"
proof -
  have "lift (scan_capabilities register_file 0) s1 = None"
    if "mmio_base s1 = bar_base dev" "xhci_extend_capability s1 = push_bit 2 (drop_bit 16 (regs s (bar_base dev + 0x10)) AND 0xffff)"
      "regs s1 = regs s" for s1
    using assms that by (simp add: lift_def scan_goes capability_addr_def first_capability_def)
  note l = this
  show ?thesis
    unfolding find_registers_def Let_def
    by (simp add: seq_calc read_xhci_def HCCPARAMS1_def) (intro seq_None(1) l; simp add: bar_base_def)
qed

lemma small_next:
  assumes "drop_bit 8 v AND 0xffff = 4"
  shows "next_off v = 16" "capability_next v = 4"
proof -
  show "next_off v = 16" by (simp add: next_off_def assms)
  have "drop_bit 8 v AND 0xff = (drop_bit 8 v AND 0xffff) AND 0xff" by (simp add: and.assoc)
  then show "capability_next v = 4" by (simp add: capability_next_def assms)
qed


definition demo_capabilities :: "(addr \<Rightarrow> u32) xhci" where
  "demo_capabilities = demo_xhci\<lparr>world := (fst (world demo_xhci), (\<lambda>_. 0)
     (PAGE_OFFSET + 0x10 := 0x00100000, PAGE_OFFSET + 0x40 := 0x0401, PAGE_OFFSET + 0x50 := 0x03000402, PAGE_OFFSET + 0x60 := 0x0a))\<rparr>"


end
