(* ===== verification/Ring_Memory.thy ===== *)
theory Ring_Memory
  imports Usb
begin

unbundle bit_operations_syntax

text \<open>
  Rings whose \<open>struct ring\<close> lies in memory, as the transfer rings of the devices do: \<open>write_ring_at\<close>
  keeps the queue of Fifo_Contract.thy too, as long as the structure is not in the ring's page.
  The control transfers of \<open>get_descriptor\<close> are three entries of such a queue.
\<close>

subsection \<open>The structure in memory\<close>

lemma sint_word_of_int32:
  assumes "- (2 ^ 31) \<le> x" "x < 2 ^ 31"
  shows "sint (word_of_int x :: u32) = x"
  using assms by (subst sint_sbintrunc') (simp add: signed_take_bit_int_eq_self)

lemma struct_room:
  assumes "unat p + 20 \<le> 2 ^ 64"
  shows "bytes_at p 8 \<inter> bytes_at (p + 12) 4 = {}" "bytes_at p 8 \<inter> bytes_at (p + 16) 4 = {}"
    "bytes_at (p + 12) 4 \<inter> bytes_at (p + 16) 4 = {}" "p + 8 \<notin> bytes_at p 8" "p + 8 \<notin> bytes_at (p + 12) 4"
    "p + 8 \<notin> bytes_at (p + 16) 4"
    "bytes_at p 8 \<subseteq> bytes_at p 20" "bytes_at (p + 12) 4 \<subseteq> bytes_at p 20" "bytes_at (p + 16) 4 \<subseteq> bytes_at p 20"
    "p + 8 \<in> bytes_at p 20"
proof -
  have u: "unat (p + 8) = unat p + 8" "unat (p + 12) = unat p + 12" "unat (p + 16) = unat p + 16"
    using assms unat_add_of_nat [of p 8] unat_add_of_nat [of p 12] unat_add_of_nat [of p 16] by simp_all
  show "bytes_at p 8 \<inter> bytes_at (p + 12) 4 = {}" "bytes_at p 8 \<inter> bytes_at (p + 16) 4 = {}"
    "bytes_at (p + 12) 4 \<inter> bytes_at (p + 16) 4 = {}"
    using assms u by (intro bytes_at_disjoint; simp)+
  show "p + 8 \<notin> bytes_at p 8" "p + 8 \<notin> bytes_at (p + 12) 4" "p + 8 \<notin> bytes_at (p + 16) 4"
    using assms u by (simp_all add: in_bytes_at)
  show "bytes_at p 8 \<subseteq> bytes_at p 20" "bytes_at (p + 12) 4 \<subseteq> bytes_at p 20" "bytes_at (p + 16) 4 \<subseteq> bytes_at p 20"
    "p + 8 \<in> bytes_at p 20"
    using assms u by (auto simp: in_bytes_at)
qed

lemma read_store_ring:
  assumes "unat p + 20 \<le> 2 ^ 64" "ring_ok r"
  shows "read_ring (store_ring p r h) p = r"
proof -
  have "sint (word_of_int (ring_size r) :: u32) = ring_size r" "sint (word_of_int (ring_index r) :: u32) = ring_index r"
    using assms(2) by (auto intro!: sint_word_of_int32 simp: ring_ok_def)
  moreover have "read64 (m(p + 8 := v)) p = read64 m p" for m v
    using struct_room [OF assms(1)] by (intro read64_cong) auto
  moreover have "bytes_at (p + 16) 4 \<inter> bytes_at (p + 12) 4 = {}" using struct_room [OF assms(1)] by blast
  ultimately show ?thesis
    using struct_room [OF assms(1)]
    by (simp add: read_ring_def store_ring_def mem_simps write32_other)
qed

lemma store_ring_other: "unat p + 20 \<le> 2 ^ 64 \<Longrightarrow> x \<notin> bytes_at p 20 \<Longrightarrow> store_ring p r h x = h x"
proof -
  assume a: "unat p + 20 \<le> 2 ^ 64" "x \<notin> bytes_at p 20"
  note s = struct_room [OF a(1)]
  have "x \<notin> bytes_at p 8" "x \<notin> bytes_at (p + 12) 4" "x \<notin> bytes_at (p + 16) 4" "x \<noteq> p + 8" using s a(2) by blast+
  then show ?thesis by (simp add: store_ring_def write32_other write64_other)
qed

lemma read_ring_cong:
  assumes "unat p + 20 \<le> 2 ^ 64" "\<And>x. x \<in> bytes_at p 20 \<Longrightarrow> h' x = h x"
  shows "read_ring h' p = read_ring h p"
proof -
  have "read64 h' p = read64 h p" "read32 h' (p + 12) = read32 h (p + 12)" "read32 h' (p + 16) = read32 h (p + 16)"
    using struct_room [OF assms(1)] by (intro read64_cong read32_cong assms(2); auto)+
  then show ?thesis using assms struct_room [OF assms(1)] by (simp add: read_ring_def)
qed

subsection \<open>Frames\<close>

lemma entry_bytes_page: "ring_page b \<Longrightarrow> i < 256 \<Longrightarrow> bytes_at (trb_addr b i) 16 \<subseteq> bytes_at b 4096"
  using bytes_at_shift [of "16 * i" 16 4096 b] by (simp add: trb_addr_def)

lemma write_ring_other:
  assumes "ring_ok r" "x \<notin> bytes_at (rbuf r) 4096"
  shows "snd (write_ring d (r, h)) x = h x"
proof -
  have pg: "ring_page (rbuf r)" and i: "0 \<le> ring_index r" "ring_index r < 255" using assms(1) by (auto simp: ring_ok_def)
  have o: "write_ring_static (rbuf r) (int k) t c m x = m x" if "k < 256" for k t c m
    using entry_bytes_page [OF pg that] assms(2) by (intro write_ring_static_other) blast
  obtain k where k: "ring_index r = int k" using i by (metis nonneg_int_cases)
  have "int k + 1 = int (Suc k)" by simp
  then show ?thesis using o [of k] o [of "Suc k"] i k by (simp only: write_ring_def Let_def prod.case) simp
qed

lemma entry_cong:
  assumes "ring_page (rbuf r)" "i < 256" "\<And>x. x \<in> bytes_at (rbuf r) 4096 \<Longrightarrow> h' x = h x"
  shows "entry r h' i = entry r h i"
  unfolding entry_def using entry_bytes_page [OF assms(1,2)] assms(3) by (intro trb_at_cong) blast

lemma ring_state_cong:
  assumes "\<And>x. x \<in> bytes_at (rbuf r) 4096 \<Longrightarrow> h' x = h x" "ring_state ci ccs r h q"
  shows "ring_state ci ccs r h' q"
proof -
  have ok: "ring_ok r" and st: "ring_state ci ccs r h q" using assms(2) by (auto simp: ring_state_def)
  then have e: "entry r h' i = entry r h i" if "i < 256" for i
    using that entry_cong [of r i h' h] assms(1) by (auto simp: ring_ok_def)
  have "nat (ring_index r) < 255" using ok unfolding ring_ok_def by linarith
  then have m: "map (\<lambda>i. payload (entry r h' i)) [a..<b] = map (\<lambda>i. payload (entry r h i)) [a..<b]"
    if "b = 255 \<or> b = nat (ring_index r)" for a b
    using that by (auto simp: e)
  show ?thesis using st unfolding ring_state_def same_lap_def lap_behind_def map_append m [OF disjI1 [OF refl]] m [OF disjI2 [OF refl]]
    by (auto simp: e)
qed

subsection \<open>The queue\<close>

definition memory_ring :: "addr \<Rightarrow> mem \<Rightarrow> bool" where
  "memory_ring p h \<longleftrightarrow> unat p + 20 \<le> 2 ^ 64 \<and> bytes_at p 20 \<inter> bytes_at (rbuf (read_ring h p)) 4096 = {}"

definition fetch_at :: "addr \<Rightarrow> trb_pos \<Rightarrow> mem \<Rightarrow> (trb \<times> trb_pos) option" where
  "fetch_at p pos h = fetch_trb pos (read_ring h p, h)"

definition holds_at :: "addr \<Rightarrow> trb_pos \<Rightarrow> mem \<Rightarrow> trb list \<Rightarrow> bool" where
  "holds_at p pos h q \<longleftrightarrow> memory_ring p h \<and> ring_holds pos (read_ring h p, h) q"

lemma write_ring_at_parts:
  assumes "memory_ring p h" "ring_ok (read_ring h p)" "write_ring d (read_ring h p, h) = (r', h')"
  shows "read_ring (write_ring_at p d h) p = r'" "memory_ring p (write_ring_at p d h)"
    "\<And>x. x \<in> bytes_at (rbuf r') 4096 \<Longrightarrow> write_ring_at p d h x = h' x"
proof -
  note ok = ring_ok_write [OF assms(2,3)]
  have m: "unat p + 20 \<le> 2 ^ 64" "bytes_at p 20 \<inter> bytes_at (rbuf r') 4096 = {}"
    using assms(1) ok by (auto simp: memory_ring_def)
  show r: "read_ring (write_ring_at p d h) p = r'"
    using read_store_ring [OF m(1) ok(1)] by (simp add: write_ring_at_def assms(3))
  show "memory_ring p (write_ring_at p d h)" using m r by (simp add: memory_ring_def)
  show "write_ring_at p d h x = h' x" if "x \<in> bytes_at (rbuf r') 4096" for x
    using that m store_ring_other [OF m(1), of x r' h'] by (auto simp: write_ring_at_def assms(3))
qed

lemma write_ring_at_other:
  assumes "memory_ring p h" "ring_ok (read_ring h p)" "x \<notin> bytes_at p 20" "x \<notin> bytes_at (rbuf (read_ring h p)) 4096"
  shows "write_ring_at p d h x = h x"
proof -
  obtain r' h' where w: "write_ring d (read_ring h p, h) = (r', h')" by (metis surj_pair)
  have "unat p + 20 \<le> 2 ^ 64" using assms(1) by (simp add: memory_ring_def)
  then show ?thesis
    using assms store_ring_other [of p x r' h'] write_ring_other [of "read_ring h p" x d h] by (simp add: write_ring_at_def w)
qed

interpretation memory_fifo: fifo "write_ring_at p" "fetch_at p" "holds_at p" trb_item 254
proof
  fix pos h q d assume h: "holds_at p pos h q" and d: "trb_item d" "length q < 254"
  obtain r' h' where w: "write_ring d (read_ring h p, h) = (r', h')" by (metis surj_pair)
  have ok: "ring_ok (read_ring h p)" using h by (auto simp: holds_at_def ring_holds_def ring_state_def)
  note parts = write_ring_at_parts [OF _ ok w]
  have "ring_holds pos (r', h') (q @ [d])"
    using ring_fifo.put_holds [of pos "(read_ring h p, h)" q d] h d w by (simp add: holds_at_def)
  then have "ring_holds pos (r', write_ring_at p d h) (q @ [d])"
    using parts(3) h ring_state_cong [of r' "write_ring_at p d h" h'] by (auto simp: ring_holds_def holds_at_def)
  then show "holds_at p pos (write_ring_at p d h) (q @ [d])"
    using parts(1,2) h by (simp add: holds_at_def)
next
  fix pos h assume "holds_at p pos h []"
  then show "fetch_at p pos h = None" using ring_fifo.get_none by (simp add: fetch_at_def holds_at_def)
next
  fix pos h t q assume "holds_at p pos h (t # q)"
  then show "\<exists>pos'. fetch_at p pos h = Some (t, pos') \<and> holds_at p pos' h q"
    using ring_fifo.get_some [of pos "(read_ring h p, h)" t q] by (auto simp: fetch_at_def holds_at_def)
qed

text \<open>An empty ring, its structure at \<open>p\<close> and its page at \<open>b\<close>.\<close>

lemma empty_ring_state:
  fixes b p :: addr and h :: mem
  defines "r \<equiv> \<lparr>rbuf = b, cycle_bit = True, ring_size = 256, ring_index = 0\<rparr>"
  assumes "ring_page b" "unat p + 20 \<le> 2 ^ 64" "bytes_at p 20 \<inter> bytes_at b 4096 = {}"
    and z: "\<And>x. x \<in> bytes_at b 4096 \<Longrightarrow> h x = 0"
  shows "read_ring (store_ring p r h) p = r" "ring_state 0 True r (store_ring p r h) []" "memory_ring p (store_ring p r h)"
proof -
  have ok: "ring_ok r" using assms(2) by (simp add: ring_ok_def r_def)
  show rd: "read_ring (store_ring p r h) p = r" using read_store_ring [OF assms(3) ok] .
  have "entry r (store_ring p r h) i = 0" if "i < 256" for i
  proof -
    have sub: "bytes_at (trb_addr b i) 16 \<subseteq> bytes_at b 4096" using entry_bytes_page [OF assms(2) that] .
    have "store_ring p r h x = 0" if "x \<in> bytes_at (trb_addr b i) 16" for x
      using that sub store_ring_other [OF assms(3), of x] z [of x] assms(4) by (metis disjoint_iff subsetD)
    then show ?thesis by (simp add: entry_def trb_at_def load_struct_def load_zero r_def)
  qed
  then show "ring_state 0 True r (store_ring p r h) []"
    using ok by (simp add: ring_state_def same_lap_def trb_cycle_def) (simp add: r_def)
  show "memory_ring p (store_ring p r h)" using rd assms(3,4) by (simp add: memory_ring_def) (simp add: r_def)
qed

lemma empty_ring_at:
  assumes "ring_page b" "unat p + 20 \<le> 2 ^ 64" "bytes_at p 20 \<inter> bytes_at b 4096 = {}"
    and "\<And>x. x \<in> bytes_at b 4096 \<Longrightarrow> h x = 0"
  shows "holds_at p (v2p b, True) (store_ring p \<lparr>rbuf = b, cycle_bit = True, ring_size = 256, ring_index = 0\<rparr> h) []"
  using empty_ring_state [OF assms] by (auto simp: holds_at_def ring_holds_def pos_of_0 intro!: exI [of _ 0])

subsection \<open>Many writes\<close>

text \<open>Writes to memory agree at every byte where the memories agreed.\<close>

lemma store_agree: "h1 x = h2 x \<Longrightarrow> store n a v h1 x = store n a v h2 x"
proof (induction n arbitrary: a v h1 h2)
  case (Suc n)
  show ?case unfolding store.simps by (rule Suc.IH) (simp add: Suc.prems)
qed simp

lemma write_ring_same_ring: "fst (write_ring d (r, h1)) = fst (write_ring d (r, h2))"
  by (simp add: write_ring_def Let_def)

lemma write_ring_agree:
  assumes "ring_ok r" "h1 x = h2 x"
  shows "snd (write_ring d (r, h1)) x = snd (write_ring d (r, h2)) x"
proof -
  have w: "write_ring_static b i t c m x = write_ring_static b i t c m' x" if "0 \<le> i" "m x = m' x" for b i t c m m'
  proof -
    obtain k where k: "i = int k" using \<open>0 \<le> i\<close> by (rule nonneg_int_cases)
    show ?thesis unfolding k write_ring_static_eq Let_def write32_def by (intro store_agree that(2))
  qed
  have i: "0 \<le> ring_index r" "0 \<le> ring_index r + 1" using assms(1) by (simp_all add: ring_ok_def)
  show ?thesis
    by (cases "ring_index r + 1 = ring_size r - 1") (simp_all add: write_ring_def Let_def, (intro w i assms)+)
qed

text \<open>\<open>write_ring_at\<close> does in the ring's page what \<open>write_ring\<close> does.\<close>

lemma writes_at:
  assumes "memory_ring p h" "ring_ok (read_ring h p)"
  shows "\<exists>r h'. fold write_ring ts (read_ring h p, h) = (r, h') \<and> ring_ok r \<and> rbuf r = rbuf (read_ring h p) \<and>
    read_ring (fold (write_ring_at p) ts h) p = r \<and> memory_ring p (fold (write_ring_at p) ts h) \<and>
    (\<forall>x \<in> bytes_at (rbuf r) 4096. fold (write_ring_at p) ts h x = h' x)"
proof (induction ts rule: rev_induct)
  case (snoc t ts)
  let ?H = "fold (write_ring_at p) ts h"
  obtain r1 h1 where IH: "fold write_ring ts (read_ring h p, h) = (r1, h1)" "ring_ok r1" "rbuf r1 = rbuf (read_ring h p)"
    "read_ring ?H p = r1" "memory_ring p ?H" "\<forall>x \<in> bytes_at (rbuf r1) 4096. ?H x = h1 x"
    using snoc by blast
  obtain r2 h2 where w: "write_ring t (r1, h1) = (r2, h2)" by (metis surj_pair)
  obtain r3 h3 where w': "write_ring t (read_ring ?H p, ?H) = (r3, h3)" by (metis surj_pair)
  have r3: "r3 = r2" using write_ring_same_ring [of t r1 ?H h1] w w' IH(4) by simp
  note parts = write_ring_at_parts [OF IH(5) IH(2) [folded IH(4)] w']
  have ok: "ring_ok r2" "rbuf r2 = rbuf r1" using ring_ok_write [OF IH(2) w] by simp_all
  have "h3 x = h2 x" if "x \<in> bytes_at (rbuf r2) 4096" for x
    using write_ring_agree [OF IH(2), of ?H x h1 t] that IH(4,6) ok w w' by simp
  then show ?case using IH(1,3) w ok parts r3 by simp
qed (use assms in simp)

text \<open>
  A ring in memory that nobody reads: after 255 writes the first entry is still fetched first, the
  next write hides everything from a controller that has fetched nothing.
\<close>

lemma memory_overrun:
  assumes "memory_ring p h" "read_ring h p = r" "ring_state 0 True r h []" "ring_index r = 0" "cycle_bit r"
    and "length ts = 255" "list_all trb_item (ts @ [t])"
  shows "fetch_at p (v2p (rbuf r), True) (fold (write_ring_at p) (ts @ [t]) h) = None"
proof -
  let ?H = "fold (write_ring_at p) (ts @ [t]) h"
  obtain r1 h1 r2 h2 where f: "fold write_ring ts (r, h) = (r1, h1)" "write_ring t (r1, h1) = (r2, h2)"
    and r2: "rbuf r2 = rbuf r" "ring_page (rbuf r2)" "\<not> trb_cycle (entry r2 h2 0)"
    using ring_overrun [OF assms(3-7)] by metis
  have ok: "ring_ok (read_ring h p)" using assms(2,3) by (simp add: ring_state_def)
  from writes_at [OF assms(1) ok, of "ts @ [t]"] f
  have H: "read_ring ?H p = r2" "\<forall>x \<in> bytes_at (rbuf r2) 4096. ?H x = h2 x" by (auto simp: assms(2))
  then have "entry r2 ?H 0 = entry r2 h2 0" by (intro entry_cong r2) auto
  then show ?thesis using fetch_other_lap [OF r2(2), of ?H] r2(1,3) H(1) by (simp add: fetch_at_def)
qed

end
