(* ===== verification/Xhci_Start.thy ===== *)
theory Xhci_Start
  imports Xhci_Capabilities Ring_Memory
begin

unbundle bit_operations_syntax

text \<open>
  \<open>init_xhci\<close> on a controller that resets, starts and stops as the xHCI specification says: what is in
  memory and in the registers when the controller runs.
\<close>

subsection \<open>A controller\<close>

text \<open>
  Its registers keep what is written, but the command register (at \<open>op\<close>, the beginning of the
  operational registers): a reset request (bit 1) changes the registers by \<open>rst\<close>, and any other
  write starts or stops the controller, which the status register shows in its bit 0.
\<close>

definition hc_write :: "addr \<Rightarrow> ((addr \<Rightarrow> u32) \<Rightarrow> addr \<Rightarrow> u32) \<Rightarrow> addr \<Rightarrow> u32 \<Rightarrow> (addr \<Rightarrow> u32) \<Rightarrow> addr \<Rightarrow> u32" where
  "hc_write op rst a v d =
     (if a \<noteq> op then d(a := v)
      else if bit v 1 then rst d
      else d(op := v, op + 4 := (if bit v 0 then unset_bit 0 (d (op + 4)) else set_bit 0 (d (op + 4)))))"

definition controller_file :: "addr \<Rightarrow> ((addr \<Rightarrow> u32) \<Rightarrow> addr \<Rightarrow> u32) \<Rightarrow> (addr \<Rightarrow> u32) hw" where
  "controller_file op rst = register_file\<lparr>mmio_write := \<lambda>a v. apsnd (hc_write op rst a v)\<rparr>"

text \<open>After a reset the controller is ready and stopped, and the capability registers are the same.\<close>

definition resets :: "addr \<Rightarrow> addr \<Rightarrow> ((addr \<Rightarrow> u32) \<Rightarrow> addr \<Rightarrow> u32) \<Rightarrow> bool" where
  "resets base op rst \<longleftrightarrow> (\<forall>d. \<not> bit (rst d op) 1 \<and> \<not> bit (rst d (op + 4)) 11 \<and>
     (\<forall>i. unat i < 0x20 \<longrightarrow> rst d (base + i) = d (base + i)))"

lemma hc_regs [simp]:
  "mmio_get (controller_file op rst) a s = (snd (world s) a, s)"
  "mmio_put (controller_file op rst) a v s = s\<lparr>world := apsnd (hc_write op rst a v) (world s)\<rparr>"
  "print_run (controller_file op rst) f x s = s" "xhci_debug (controller_file op rst) f x s = s"
  "scroll_screen_to (controller_file op rst) w = w"
  by (cases "world s"; simp add: mmio_get_def mmio_put_def controller_file_def register_file_def print_run_def xhci_debug_def)+

subsection \<open>Runs that end\<close>

text \<open>
  A run ends in the panic of the allocator, with no free block of two pages left, or returns a
  result and a state with \<open>Q\<close>.
\<close>

definition starved :: "'d xhci \<Rightarrow> bool" where
  "starved s \<longleftrightarrow> (\<exists>bs. alloc_inv (fst (world s)) bs \<and> (\<forall>(a, n) \<in> set bs. n < 2))"

definition ends :: "('a, 'd) run \<Rightarrow> 'd xhci \<Rightarrow> ('a \<Rightarrow> 'd xhci \<Rightarrow> bool) \<Rightarrow> bool" where
  "ends m s Q \<longleftrightarrow> (\<exists>s'. m s = Some (Inl (Panic ''alloc_mem failed!''), s') \<and> starved s') \<or> (\<exists>x s'. m s = Some (Inr x, s') \<and> Q x s')"

lemma ends_seq: "ends m s P \<Longrightarrow> (\<And>x s1. P x s1 \<Longrightarrow> ends (f x) s1 Q) \<Longrightarrow> ends (seq m f) s Q"
  by (fastforce simp: ends_def seq_def)

lemma ends_mono: "ends m s P \<Longrightarrow> (\<And>x s1. P x s1 \<Longrightarrow> Q x s1) \<Longrightarrow> ends m s Q"
  by (auto simp: ends_def)

lemma ends_step [simp]:
  "ends (act f) s Q \<longleftrightarrow> Q () (f s)" "ends (ret x) s Q \<longleftrightarrow> Q x s"
  "ends (seq (act f) g) s Q \<longleftrightarrow> ends (g ()) (f s) Q"
  "ends (seq (calc c) h) s Q \<longleftrightarrow> ends (h (fst (c s))) (snd (c s)) Q"
  by (simp_all add: ends_def act_def ret_def calc_def seq_def split: prod.split)

lemma ends_alloc:
  assumes o: "owns (fst (world s)) F" and p: "unat p \<le> 2"
    and Q: "\<And>r k. r \<noteq> 0 \<Longrightarrow> bytes_at r (4096 * unat p) \<subseteq> F \<Longrightarrow> unat r + 4096 * unat p < 2 ^ 64 \<Longrightarrow>
      owns k (F - bytes_at r (4096 * unat p)) \<Longrightarrow>
      (\<And>x. x \<notin> F \<Longrightarrow> heap k x = heap (fst (world s)) x) \<Longrightarrow> (p = 0 \<Longrightarrow> r = ml_next k) \<Longrightarrow>
      ends (f r) (s\<lparr>world := (k, snd (world s))\<rparr>) Q"
  shows "ends (seq (alloc_or_panic p) f) s Q"
proof -
  obtain r k where a: "alloc_mem p (fst (world s)) = Some (r, k)" "r \<noteq> 0 \<Longrightarrow> bytes_at r (4096 * unat p) \<subseteq> F \<and>
      unat r + 4096 * unat p < 2 ^ 64 \<and> owns k (F - bytes_at r (4096 * unat p)) \<and>
      (\<forall>x. x \<notin> F \<longrightarrow> heap k x = heap (fst (world s)) x) \<and> (p = 0 \<longrightarrow> r = ml_next k)"
  proof (cases "p = 0")
    case True
    obtain k where k: "alloc_mem 0 (fst (world s)) = Some (ml_next k, k)" "owns k F" "\<forall>x. x \<notin> F \<longrightarrow> heap k x = heap (fst (world s)) x"
      using owns_alloc_zero [OF o] by blast
    show thesis by (rule that [of "ml_next k" k]) (use True k unat_lt_pow [of "ml_next k"] in auto)
  next
    case False
    have small: "unat p < 2 ^ 20" using p by simp
    from pages.alloc_returns [OF o False small] obtain r k where a: "alloc_mem p (fst (world s)) = Some (r, k)" by blast
    show thesis by (rule that [OF a]) (use pages.alloc_block [OF o False small a] False in auto)
  qed
  show ?thesis
  proof (cases "r = 0")
    case True
    then have "starved (s\<lparr>world := (k, snd (world s))\<rparr>)" using owns_alloc_fails [OF o p] a(1) by (simp add: starved_def)
    then show ?thesis using a(1) True by (auto simp: ends_def seq_def alloc_or_panic_def panics_def Let_def)
  next
    case False
    then have "ends (f r) (s\<lparr>world := (k, snd (world s))\<rparr>) Q" using a(2) by (intro Q) auto
    moreover have "alloc_or_panic p s = Some (Inr r, s\<lparr>world := (k, snd (world s))\<rparr>)"
      using a(1) False by (simp add: alloc_or_panic_def ret_def Let_def)
    ultimately show ?thesis by (simp add: ends_def seq_def)
  qed
qed

lemma ends_new_ring:
  assumes o: "owns (fst (world s)) F" and F: "direct F"
    and Q: "\<And>r k. ring_holds (v2p (rbuf r), True) (r, heap k) [] \<Longrightarrow> ring_ok r \<Longrightarrow> bytes_at (rbuf r) 4096 \<subseteq> F \<Longrightarrow>
      owns k (F - bytes_at (rbuf r) 4096) \<Longrightarrow> (\<And>x. x \<notin> F \<Longrightarrow> heap k x = heap (fst (world s)) x) \<Longrightarrow>
      rbuf r = ml_next (fst (world s)) \<Longrightarrow> cycle_bit r \<Longrightarrow> ring_size r = 256 \<Longrightarrow>
      (\<And>x. x \<in> bytes_at (rbuf r) 4096 \<Longrightarrow> heap k x = 0) \<Longrightarrow>
      ends (f r) (s\<lparr>world := (k, snd (world s))\<rparr>) Q"
  shows "ends (seq new_ring_run f) s Q"
proof -
  from pages.alloc_returns [OF o, of 1] obtain b k1 where a: "alloc_mem 1 (fst (world s)) = Some (b, k1)" by auto
  show ?thesis
  proof (cases "b = 0")
    case True
    then have "starved (s\<lparr>world := (k1, snd (world s))\<rparr>)" using owns_alloc_fails [OF o, of 1] a by (simp add: starved_def)
    then show ?thesis using a True by (simp add: ends_def seq_def new_ring_run_def new_ring_def)
  next
    case False
    let ?r = "\<lparr>rbuf = b, cycle_bit = True, ring_size = 256, ring_index = 0\<rparr>"
      and ?k = "k1\<lparr>heap := memset b 0 4096 (heap k1)\<rparr>"
    have n: "new_ring (fst (world s)) = Some (Inr ?r, ?k)" using a False by (simp add: new_ring_def)
    note e = new_ring_empty [OF o F n]
    have "b = ml_next (fst (world s))" by (rule owns_alloc_first [OF o a])
    moreover have "heap ?k x = 0" if "x \<in> bytes_at b 4096" for x
      using that by (simp add: memset_apply)
    ultimately have "ends (f ?r) (s\<lparr>world := (?k, snd (world s))\<rparr>) Q" using e by (intro Q) auto
    then show ?thesis using n by (simp add: ends_def seq_def new_ring_run_def)
  qed
qed

subsection \<open>Reset and start\<close>

lemma and_bit: "v AND 1 = 0 \<longleftrightarrow> \<not> bit v 0" "v AND 2 = 0 \<longleftrightarrow> \<not> bit v 1" "v AND 0x800 = 0 \<longleftrightarrow> \<not> bit v 11" for v :: u32
  using and_exp_eq_0_iff_not_bit [of v 0] and_exp_eq_0_iff_not_bit [of v 1] and_exp_eq_0_iff_not_bit [of v 11] by simp_all

lemma seq_lift: "seq (lift g) f s = (case g s of None \<Rightarrow> None | Some s' \<Rightarrow> f () s')"
  by (simp add: seq_def lift_def ret_def split: option.split)

lemma reset_controller_ends:
  assumes "resets base op rst" and "mmio_base s + ucast (xhci_caplength s) = op" and "bit (snd (world s) (op + 4)) 0"
  shows "reset_controller (controller_file op rst) s = Some (Inr (), s\<lparr>world := apsnd rst (world s)\<rparr>)"
proof -
  have w: "bit (v OR 2) 1" for v :: u32 by (simp add: bit_simps bit_numeral_rec)
  have "\<not> bit (rst d op) 1" "\<not> bit (rst d (op + 4)) 11" for d using assms(1) by (simp_all add: resets_def)
  then show ?thesis using assms(2,3) w
    by (cases "world s") (simp add: reset_controller_def seq_calc read_xhci_operation_def write_xhci_operation_def USBSTS_def USBCMD_def
      and_bit hc_write_def seq_lift lift_def wait_clear.simps ret_def)
qed

lemma run_controller_ends:
  assumes "mmio_base s + ucast (xhci_caplength s) = op" and "\<not> bit (snd (world s) op) 1"
  shows "\<exists>d. run_controller (controller_file op rst) s = Some (Inr (), s\<lparr>world := (fst (world s), d)\<rparr>) \<and>
    bit (d op) 0 \<and> \<not> bit (d op) 1 \<and> \<not> bit (d (op + 4)) 0 \<and> (\<forall>a. a \<noteq> op \<and> a \<noteq> op + 4 \<longrightarrow> d a = snd (world s) a)"
proof -
  have b: "bit (v OR 1) 0" "bit (v OR 1) 1 = bit v 1" "\<not> bit (unset_bit 0 v) 0" for v :: u32 by (simp_all add: bit_simps bit_1_iff)
  let ?d = "hc_write op rst op (snd (world s) op OR 1) (snd (world s))"
  have "run_controller (controller_file op rst) s = Some (Inr (), s\<lparr>world := (fst (world s), ?d)\<rparr>)"
    using assms b by (cases "world s") (simp add: run_controller_def seq_calc read_xhci_operation_def write_xhci_operation_def USBSTS_def
      USBCMD_def and_bit hc_write_def seq_lift lift_def wait_clear.simps ret_def)
  then show ?thesis using assms(2) b by (intro exI [of _ ?d]) (auto simp: hc_write_def)
qed

subsection \<open>Contexts and scratchpads\<close>

lemma world_map_mem: "world (map_mem f s) = ((fst (world s))\<lparr>heap := f (heap (fst (world s)))\<rparr>, snd (world s))"
  "map_mem f s = s\<lparr>world := ((fst (world s))\<lparr>heap := f (heap (fst (world s)))\<rparr>, snd (world s))\<rparr>"
  by (cases "world s"; simp add: map_mem_def)+

text \<open>Every entry leads to a page of \<open>F\<close> of its own.\<close>

fun pages_in :: "mem \<Rightarrow> addr \<Rightarrow> nat \<Rightarrow> addr set \<Rightarrow> bool" where
  "pages_in h arr 0 F \<longleftrightarrow> True"
| "pages_in h arr (Suc n) F \<longleftrightarrow>
     (\<exists>b. read64 h arr = v2p b \<and> bytes_at b 4096 \<subseteq> F \<and> pages_in h (arr + 8) n (F - bytes_at b 4096))"

lemma pages_in_mono: "pages_in h arr n F \<Longrightarrow> F \<subseteq> G \<Longrightarrow> pages_in h arr n G"
proof (induction n arbitrary: arr F G)
  case (Suc n)
  then obtain b where b: "read64 h arr = v2p b" "bytes_at b 4096 \<subseteq> F" "pages_in h (arr + 8) n (F - bytes_at b 4096)" by auto
  then have "pages_in h (arr + 8) n (G - bytes_at b 4096)" using Suc.prems(2) by (intro Suc.IH [OF b(3)]) blast
  then show ?case using b Suc.prems(2) by auto
qed simp

lemma pages_in_cong: "pages_in h arr n F \<Longrightarrow> (\<And>x. x \<in> bytes_at arr (8 * n) \<Longrightarrow> h' x = h x) \<Longrightarrow> pages_in h' arr n F"
proof (induction n arbitrary: arr F)
  case (Suc n)
  have split: "bytes_at arr (8 * Suc n) = bytes_at arr 8 \<union> bytes_at (arr + 8) (8 * n)" using bytes_at_add [of arr 8 "8 * n"] by simp
  then have "read64 h' arr = read64 h arr" using Suc.prems(2) by (intro read64_cong) simp
  moreover have "pages_in h (arr + 8) n G \<Longrightarrow> pages_in h' (arr + 8) n G" for G
    using Suc.IH [of "arr + 8" G] Suc.prems(2) split by simp
  ultimately show ?case using Suc.prems(1) by auto
qed simp

lemma fill_scratchpads_ends:
  assumes "owns (fst (world s)) F" and "bytes_at (arr + 8 * word_of_nat i) (8 * n) \<inter> F = {}" and "8 * n < 2 ^ 64"
  shows "ends (fill_scratchpads 1 arr i n) s (\<lambda>_ s'. \<exists>k F'. s' = s\<lparr>world := (k, snd (world s))\<rparr> \<and> owns k F' \<and> F' \<subseteq> F \<and>
    (\<forall>x. x \<notin> F \<union> bytes_at (arr + 8 * word_of_nat i) (8 * n) \<longrightarrow> heap k x = heap (fst (world s)) x) \<and>
    pages_in (heap k) (arr + 8 * word_of_nat i) n (F - F'))"
  using assms
proof (induction n arbitrary: s F i)
  case 0
  then have "s = s\<lparr>world := (fst (world s), snd (world s))\<rparr> \<and> owns (fst (world s)) F" by simp
  then show ?case by (simp only: fill_scratchpads.simps ends_step pages_in.simps) blast
next
  case (Suc n)
  let ?a = "arr + 8 * word_of_nat i"
  have split: "bytes_at ?a (8 * Suc n) = bytes_at ?a 8 \<union> bytes_at (?a + 8) (8 * n)"
    using bytes_at_add [of ?a 8 "8 * n"] by simp
  have apart: "bytes_at ?a 8 \<inter> bytes_at (?a + 8) (8 * n) = {}" using bytes_apart [of 8 "8 * n" ?a] Suc.prems(3) by simp
  have next_a: "arr + 8 * word_of_nat (Suc i) = ?a + 8" by (simp add: algebra_simps)
  show ?case
    unfolding fill_scratchpads.simps if_P [OF refl]
  proof (rule ends_alloc [OF Suc.prems(1)])
    fix b k assume b: "bytes_at b (4096 * unat (1 :: u32)) \<subseteq> F" and k: "owns k (F - bytes_at b (4096 * unat (1 :: u32)))"
      "\<And>x. x \<notin> F \<Longrightarrow> heap k x = heap (fst (world s)) x"
    let ?F = "F - bytes_at b 4096" and ?k = "k\<lparr>heap := write64 ?a (v2p b) (heap k)\<rparr>"
    have "owns ?k ?F"
      using k(1) Suc.prems(2) split by (intro owns_put) (auto intro!: write64_other)
    then have "ends (fill_scratchpads 1 arr (Suc i) n) (s\<lparr>world := (?k, snd (world s))\<rparr>)
      (\<lambda>_ s'. \<exists>k F'. s' = s\<lparr>world := (k, snd (world s))\<rparr> \<and> owns k F' \<and> F' \<subseteq> ?F \<and>
        (\<forall>x. x \<notin> ?F \<union> bytes_at (?a + 8) (8 * n) \<longrightarrow> heap k x = heap ?k x) \<and> pages_in (heap k) (?a + 8) n (?F - F'))"
      using Suc.IH [of "s\<lparr>world := (?k, snd (world s))\<rparr>" ?F "Suc i"] Suc.prems(2,3) split
      unfolding next_a by fastforce
    then have "ends (fill_scratchpads 1 arr (Suc i) n) (s\<lparr>world := (?k, snd (world s))\<rparr>)
      (\<lambda>_ s'. \<exists>k F'. s' = s\<lparr>world := (k, snd (world s))\<rparr> \<and> owns k F' \<and> F' \<subseteq> F \<and>
        (\<forall>x. x \<notin> F \<union> bytes_at ?a (8 * Suc n) \<longrightarrow> heap k x = heap (fst (world s)) x) \<and> pages_in (heap k) ?a (Suc n) (F - F'))"
    proof (rule ends_mono, elim exE conjE)
      fix x s1 k1 F1 assume s1: "s1 = s\<lparr>world := (k1, snd (world s))\<rparr>" "owns k1 F1" "F1 \<subseteq> ?F"
        "\<forall>x. x \<notin> ?F \<union> bytes_at (?a + 8) (8 * n) \<longrightarrow> heap k1 x = heap ?k x" "pages_in (heap k1) (?a + 8) n (?F - F1)"
      have "heap k1 x = heap ?k x" if "x \<in> bytes_at ?a 8" for x
        using that s1(4) Suc.prems(2) split apart by blast
      then have "read64 (heap k1) ?a = read64 (heap ?k) ?a" by (rule read64_cong)
      then have "read64 (heap k1) ?a = v2p b" by simp
      moreover have "?F - F1 = F - F1 - bytes_at b 4096" by blast
      ultimately have "pages_in (heap k1) ?a (Suc n) (F - F1)" using s1(3,5) b by auto
      moreover have "heap k1 x = heap (fst (world s)) x" if "x \<notin> F \<union> bytes_at ?a (8 * Suc n)" for x
        using that s1(4) k(2) split by (auto simp: write64_other)
      ultimately show "\<exists>k F'. s1 = s\<lparr>world := (k, snd (world s))\<rparr> \<and> owns k F' \<and> F' \<subseteq> F \<and>
        (\<forall>x. x \<notin> F \<union> bytes_at ?a (8 * Suc n) \<longrightarrow> heap k x = heap (fst (world s)) x) \<and> pages_in (heap k) ?a (Suc n) (F - F')"
        using s1(1-3) by blast
    qed
    then show "ends (seq (act (map_mem (write64 ?a (v2p b)))) (\<lambda>_. fill_scratchpads 1 arr (Suc i) n)) (s\<lparr>world := (k, snd (world s))\<rparr>)
      (\<lambda>_ s'. \<exists>k F'. s' = s\<lparr>world := (k, snd (world s))\<rparr> \<and> owns k F' \<and> F' \<subseteq> F \<and>
        (\<forall>x. x \<notin> F \<union> bytes_at ?a (8 * Suc n) \<longrightarrow> heap k x = heap (fst (world s)) x) \<and> pages_in (heap k) ?a (Suc n) (F - F'))"
      by (simp add: world_map_mem)
  qed simp
qed

text \<open>The number of scratchpads: five low and five high bits.\<close>

definition scratchpad_count :: "u32 \<Rightarrow> u32" where
  "scratchpad_count v = (drop_bit 27 v AND 0x1f) OR push_bit 5 (drop_bit 21 v AND 0x1f)"

lemma scratchpad_bound: "unat (scratchpad_count v) < 1024"
proof -
  have m: "0x1f = (mask 5 :: u32)" by (simp add: mask_eq_exp_minus_1)
  have "scratchpad_count v = take_bit 10 (scratchpad_count v)"
    unfolding scratchpad_count_def m by (rule bit_word_eqI) (auto simp: bit_simps)
  then have "unat (scratchpad_count v) = take_bit 10 (unat (scratchpad_count v))" by (metis unsigned_take_bit_eq)
  then show ?thesis by (simp add: take_bit_eq_mod)
qed

lemma scratchpad_pages:
  assumes "unat n < 1024"
  shows "unat ((n * 8 + 4095) div 4096 :: u32) = (unat n * 8 + 4095) div 4096"
proof -
  have "unat (n * 8) = unat n * 8" using assms by (intro unat_mult_exact [THEN trans]) simp_all
  moreover from this have "unat (n * 8 + 4095) = unat n * 8 + 4095" using assms by (subst unat_add_exact) simp_all
  ultimately show ?thesis by (simp add: unat_div)
qed

text \<open>The registers do not overlap: capabilities at \<open>base\<close>, operational at \<open>op\<close>, runtime at \<open>rt\<close>.\<close>

definition layout :: "addr \<Rightarrow> addr \<Rightarrow> addr \<Rightarrow> bool" where
  "layout base op rt \<longleftrightarrow> (\<forall>i j. unat i < 0x40 \<longrightarrow> unat j < 0x40 \<longrightarrow> op + i \<noteq> rt + j \<and> (unat i < 0x20 \<longrightarrow> base + i \<noteq> op + j))"

lemma layout_apart:
  assumes "layout base op rt"
  shows "unat i < 0x40 \<Longrightarrow> unat j < 0x40 \<Longrightarrow> op + i \<noteq> rt + j" "unat j < 0x40 \<Longrightarrow> op \<noteq> rt + j"
    "unat i < 0x20 \<Longrightarrow> unat j < 0x40 \<Longrightarrow> base + i \<noteq> op + j"  "unat i < 0x20 \<Longrightarrow> base + i \<noteq> op"
proof -
  show "unat i < 0x40 \<Longrightarrow> unat j < 0x40 \<Longrightarrow> op + i \<noteq> rt + j" for i j using assms by (simp add: layout_def)
  from this [of 0 j] show "unat j < 0x40 \<Longrightarrow> op \<noteq> rt + j" by simp
  show "unat i < 0x20 \<Longrightarrow> unat j < 0x40 \<Longrightarrow> base + i \<noteq> op + j" for i j using assms by (simp add: layout_def)
  from this [of i 0] show "unat i < 0x20 \<Longrightarrow> base + i \<noteq> op" by simp
qed

text \<open>The context array: its first entry leads to the scratchpad array, the others are 0.\<close>

definition context_array :: "mem \<Rightarrow> addr \<Rightarrow> addr \<Rightarrow> u32 \<Rightarrow> addr set \<Rightarrow> bool" where
  "context_array h cx arr n F \<longleftrightarrow> bytes_at cx 4096 \<subseteq> F \<and> (\<forall>x \<in> bytes_at (cx + 8) 4088. h x = 0) \<and>
     read64 h cx = v2p arr \<and> bytes_at arr (8 * unat n) \<subseteq> F \<and> pages_in h arr (unat n) F"

lemma context_array_cong:
  assumes "context_array h cx arr n F" and "\<And>x. x \<in> F \<Longrightarrow> h' x = h x"
  shows "context_array h' cx arr n F"
proof -
  have "bytes_at cx 4096 = bytes_at cx 8 \<union> bytes_at (cx + 8) 4088" using bytes_at_add [of cx 8 4088] by simp
  then have s: "bytes_at cx 8 \<subseteq> F" "bytes_at (cx + 8) 4088 \<subseteq> F" using assms(1) unfolding context_array_def by blast+
  then have "read64 h' cx = read64 h cx" using assms(2) by (intro read64_cong) blast
  moreover have "h' x = h x" if "x \<in> bytes_at (cx + 8) 4088" for x using that s(2) assms(2) by blast
  moreover have "pages_in h' arr (unat n) F"
  proof (rule pages_in_cong [of h])
    fix x assume "x \<in> bytes_at arr (8 * unat n)"
    then have "x \<in> F" using assms(1) unfolding context_array_def by blast
    then show "h' x = h x" by (rule assms(2))
  qed (use assms(1) in \<open>simp add: context_array_def\<close>)
  ultimately show ?thesis using assms(1) unfolding context_array_def by metis
qed

definition contexts_ok :: "mem_state \<Rightarrow> addr \<Rightarrow> u32 \<Rightarrow> addr set \<Rightarrow> bool" where
  "contexts_ok k cx n F \<longleftrightarrow> (\<exists>arr. context_array (heap k) cx arr n F \<and> (n = 0 \<longrightarrow> arr = ml_next k))"

definition context_regs :: "addr \<Rightarrow> addr \<Rightarrow> addr \<Rightarrow> (addr \<Rightarrow> u32) \<Rightarrow> addr \<Rightarrow> u32" where
  "context_regs base op cx d = d(op + 0x38 := d (op + 0x38) AND NOT 0xff OR (d (base + 4) AND 0xff),
     op + 0x30 := ucast (v2p cx AND 0xffffffff), op + 0x34 := ucast (drop_bit 32 (v2p cx) AND 0xffffffff))"

text \<open>Behind the two allocations: the scratchpads and the entry.\<close>

lemma scratchpads_stored:
  assumes o: "owns (fst (world s)) F1" and F1: "F1 \<subseteq> F" and cx: "bytes_at cx 4096 \<subseteq> F - F1"
    and z: "\<And>x. x \<in> bytes_at cx 4096 \<Longrightarrow> heap (fst (world s)) x = 0"
    and arr: "bytes_at arr (8 * unat n) \<subseteq> F - F1 - bytes_at cx 4096" and n: "unat n < 1024"
    and first: "n = 0 \<longrightarrow> arr = ml_next (fst (world s))"
  shows "ends (seq (fill_scratchpads 1 arr 0 (unat n)) (\<lambda>_. act (map_mem (write64 cx (v2p arr))))) s
    (\<lambda>_ s'. \<exists>k F'. s' = s\<lparr>world := (k, snd (world s))\<rparr> \<and> owns k F' \<and> F' \<subseteq> F \<and>
      (\<forall>x. x \<notin> F \<longrightarrow> heap k x = heap (fst (world s)) x) \<and> contexts_ok k cx n (F - F'))"
proof -
  have split: "bytes_at cx 4096 = bytes_at cx 8 \<union> bytes_at (cx + 8) 4088" "bytes_at cx 8 \<inter> bytes_at (cx + 8) 4088 = {}"
    using bytes_at_add [of cx 8 4088] bytes_apart [of 8 4088 cx] by simp_all
  have stored: "\<exists>k' F'. map_mem (write64 cx (v2p arr)) (s\<lparr>world := (k, snd (world s))\<rparr>) = s\<lparr>world := (k', snd (world s))\<rparr> \<and>
      owns k' F' \<and> F' \<subseteq> F \<and> (\<forall>x. x \<notin> F \<longrightarrow> heap k' x = heap (fst (world s)) x) \<and> contexts_ok k' cx n (F - F')"
    if k: "owns k F2" "F2 \<subseteq> F1" "\<forall>x. x \<notin> F1 \<union> bytes_at arr (8 * unat n) \<longrightarrow> heap k x = heap (fst (world s)) x"
      "pages_in (heap k) arr (unat n) (F1 - F2)" "n = 0 \<longrightarrow> arr = ml_next k" for k F2
  proof -
    let ?k = "k\<lparr>heap := write64 cx (v2p arr) (heap k)\<rparr>"
    have "owns ?k F2" using k(1,2) cx split(1) by (intro owns_put) (auto intro!: write64_other)
    moreover have "contexts_ok ?k cx n (F - F2)"
      unfolding contexts_ok_def context_array_def
    proof (intro conjI exI [of _ arr] ballI)
      have "heap ?k x = heap k x" if "x \<in> bytes_at arr (8 * unat n)" for x
      proof -
        have "x \<notin> bytes_at cx 8" using that arr split(1) by blast
        then show ?thesis by (simp add: write64_other)
      qed
      with k(4) have "pages_in (heap ?k) arr (unat n) (F1 - F2)" by (rule pages_in_cong)
      then show "pages_in (heap ?k) arr (unat n) (F - F2)" by (rule pages_in_mono) (use F1 in blast)
      show "bytes_at cx 4096 \<subseteq> F - F2" using cx k(2) by blast
      show "bytes_at arr (8 * unat n) \<subseteq> F - F2" using arr k(2) by blast
      fix x assume x: "x \<in> bytes_at (cx + 8) 4088"
      then have "x \<notin> F1 \<union> bytes_at arr (8 * unat n)" using split(1) cx arr by blast
      then have "heap k x = 0" using k(3) z [of x] x split(1) by simp
      moreover have "x \<notin> bytes_at cx 8" using x split(2) by blast
      ultimately show "heap ?k x = 0" by (simp add: write64_other)
    qed (use k(5) in simp_all)
    moreover have "heap ?k x = heap (fst (world s)) x" if "x \<notin> F" for x
    proof -
      have "x \<notin> bytes_at cx 8" "x \<notin> F1 \<union> bytes_at arr (8 * unat n)" using that split(1) cx arr F1 by blast+
      then show ?thesis using k(3) by (simp add: write64_other)
    qed
    ultimately show ?thesis using k(2) F1 by (intro exI [of _ ?k] exI [of _ F2]) (auto simp: world_map_mem)
  qed
  show ?thesis
  proof (cases "n = 0")
    case True
    have "s = s\<lparr>world := (fst (world s), snd (world s))\<rparr>" by simp
    moreover have "pages_in (heap (fst (world s))) arr (unat n) (F1 - F1)" using True by simp
    ultimately show ?thesis
      using stored [OF o subset_refl _ _ first] True by (simp add: ends_def seq_def ret_def act_def)
  next
    case False
    have "bytes_at (arr + 8 * word_of_nat 0) (8 * unat n) \<inter> F1 = {}" using arr by auto
    then show ?thesis
      by (rule ends_seq [OF fill_scratchpads_ends [OF o]])
        (use n stored False in \<open>auto 0 3\<close>)
  qed
qed

definition contexts_tail :: "(addr \<Rightarrow> u32) hw \<Rightarrow> addr \<Rightarrow> u32 \<Rightarrow> (unit, addr \<Rightarrow> u32) run" where
  "contexts_tail hw cx n =
     seq (alloc_or_panic ((n * 8 + 4095) div 4096)) (\<lambda>arr.
     seq (seq (fill_scratchpads 1 arr 0 (unat n)) (\<lambda>_. act (map_mem (write64 cx (v2p arr))))) (\<lambda>_.
     seq (act (write_xhci_operation hw (DCBAAP + 0) (ucast (v2p cx AND 0xffffffff)))) (\<lambda>_.
     act (write_xhci_operation hw (DCBAAP + 4) (ucast (drop_bit 32 (v2p cx) AND 0xffffffff))))))"

lemma contexts_tail_ends:
  assumes o: "owns (fst (world s)) (F - bytes_at cx 4096)" and cx: "bytes_at cx 4096 \<subseteq> F"
    and z: "\<And>x. x \<in> bytes_at cx 4096 \<Longrightarrow> heap (fst (world s)) x = 0" and n: "unat n < 1024"
    and b: "mmio_base s + ucast (xhci_caplength s) = op"
  shows "ends (contexts_tail (controller_file op rst) cx n) s (\<lambda>_ s'. \<exists>k F'.
    s' = s\<lparr>world := (k, (snd (world s))(op + 0x30 := ucast (v2p cx AND 0xffffffff), op + 0x34 := ucast (drop_bit 32 (v2p cx) AND 0xffffffff)))\<rparr> \<and>
    owns k F' \<and> F' \<subseteq> F \<and> (\<forall>x. x \<notin> F \<longrightarrow> heap k x = heap (fst (world s)) x) \<and> contexts_ok k cx n (F - F'))"
    (is "ends _ _ ?Q")
  unfolding contexts_tail_def
proof (rule ends_alloc [OF o])
  let ?p = "(n * 8 + 4095) div 4096" and ?F = "F - bytes_at cx 4096"
  have p: "unat ?p = (unat n * 8 + 4095) div 4096" by (rule scratchpad_pages [OF n])
  then show "unat ?p \<le> 2" using n by simp
  fix arr k
  assume arr: "bytes_at arr (4096 * unat ?p) \<subseteq> ?F" and k: "owns k (?F - bytes_at arr (4096 * unat ?p))"
    "\<And>x. x \<notin> ?F \<Longrightarrow> heap k x = heap (fst (world s)) x" "?p = 0 \<Longrightarrow> arr = ml_next k"
  have "8 * unat n \<le> 4096 * unat ?p" unfolding p by linarith
  then have sub: "bytes_at arr (8 * unat n) \<subseteq> bytes_at arr (4096 * unat ?p)" by (rule bytes_at_mono)
  let ?s = "s\<lparr>world := (k, snd (world s))\<rparr>"
  have "ends (seq (fill_scratchpads 1 arr 0 (unat n)) (\<lambda>_. act (map_mem (write64 cx (v2p arr))))) ?s
    (\<lambda>_ s'. \<exists>k' F'. s' = ?s\<lparr>world := (k', snd (world ?s))\<rparr> \<and> owns k' F' \<and> F' \<subseteq> F \<and>
      (\<forall>x. x \<notin> F \<longrightarrow> heap k' x = heap (fst (world ?s)) x) \<and> contexts_ok k' cx n (F - F'))"
    using k(3) by (intro scratchpads_stored [of ?s "?F - bytes_at arr (4096 * unat ?p)"])
      (use arr k cx sub z n in \<open>auto\<close>)
  then show "ends (seq (seq (fill_scratchpads 1 arr 0 (unat n)) (\<lambda>_. act (map_mem (write64 cx (v2p arr))))) (\<lambda>_.
     seq (act (write_xhci_operation (controller_file op rst) (DCBAAP + 0) (ucast (v2p cx AND 0xffffffff)))) (\<lambda>_.
     act (write_xhci_operation (controller_file op rst) (DCBAAP + 4) (ucast (drop_bit 32 (v2p cx) AND 0xffffffff)))))) ?s ?Q"
  proof (rule ends_seq, elim exE conjE)
    fix x s1 k' F'
    assume s1: "s1 = ?s\<lparr>world := (k', snd (world ?s))\<rparr>" "owns k' F'" "F' \<subseteq> F"
      "\<forall>x. x \<notin> F \<longrightarrow> heap k' x = heap (fst (world ?s)) x" "contexts_ok k' cx n (F - F')"
    have "?Q () (s\<lparr>world := (k', (snd (world s))(op + 0x30 := ucast (v2p cx AND 0xffffffff),
        op + 0x34 := ucast (drop_bit 32 (v2p cx) AND 0xffffffff)))\<rparr>)"
      using s1 k(2) by (intro exI [of _ k'] exI [of _ F']) auto
    then show "ends (seq (act (write_xhci_operation (controller_file op rst) (DCBAAP + 0) (ucast (v2p cx AND 0xffffffff)))) (\<lambda>_.
     act (write_xhci_operation (controller_file op rst) (DCBAAP + 4) (ucast (drop_bit 32 (v2p cx) AND 0xffffffff))))) s1 ?Q"
      using s1(1) b by (simp add: write_xhci_operation_def DCBAAP_def hc_write_def)
  qed
qed

lemma setup_contexts_tail:
  "setup_contexts hw 1 =
     seq (calc (read_xhci hw HCSPARAMS1)) (\<lambda>hcsparams1.
     seq (calc (read_xhci_operation hw CONFIG)) (\<lambda>config.
     seq (act (write_xhci_operation hw CONFIG (config AND NOT 0xff OR (hcsparams1 AND 0xff)))) (\<lambda>_.
     seq (alloc_or_panic 1) (\<lambda>cx.
     seq (act (\<lambda>s. map_mem (memset cx 0 4096) (s\<lparr>device_contexts := cx\<rparr>))) (\<lambda>_.
     seq (calc (read_xhci hw HCSPARAMS2)) (\<lambda>params2. contexts_tail hw cx (scratchpad_count params2)))))))"
  unfolding setup_contexts_def contexts_tail_def seq_assoc [symmetric] scratchpad_count_def Let_def ..

lemma setup_contexts_ends:
  assumes o: "owns (fst (world s)) F" and b: "mmio_base s = base" "base + ucast (xhci_caplength s) = op" and l: "layout base op rt"
  shows "ends (setup_contexts (controller_file op rst) 1) s (\<lambda>_ s'. \<exists>cx k F'.
    s' = s\<lparr>device_contexts := cx, world := (k, context_regs base op cx (snd (world s)))\<rparr> \<and> owns k F' \<and> F' \<subseteq> F \<and>
    (\<forall>x. x \<notin> F \<longrightarrow> heap k x = heap (fst (world s)) x) \<and> contexts_ok k cx (scratchpad_count (snd (world s) (base + 8))) (F - F'))"
    (is "ends _ _ ?Q")
proof -
  let ?hw = "controller_file op rst" and ?d = "snd (world s)" and ?n = "scratchpad_count (snd (world s) (base + 8))"
  let ?d1 = "?d(op + 0x38 := ?d (op + 0x38) AND NOT 0xff OR (?d (base + 4) AND 0xff))"
  let ?s = "s\<lparr>world := (fst (world s), ?d1)\<rparr>"
  have regs: "?d1 (base + 8) = ?d (base + 8)" using layout_apart(3) [OF l, of 8 "0x38"] by simp
  have "ends (seq (alloc_or_panic 1) (\<lambda>cx. seq (act (\<lambda>s. map_mem (memset cx 0 4096) (s\<lparr>device_contexts := cx\<rparr>))) (\<lambda>_.
     seq (calc (read_xhci ?hw HCSPARAMS2)) (\<lambda>params2. contexts_tail ?hw cx (scratchpad_count params2))))) ?s ?Q"
  proof (rule ends_alloc [where F = F])
    fix cx k assume cx: "bytes_at cx (4096 * unat (1 :: u32)) \<subseteq> F" and k: "owns k (F - bytes_at cx (4096 * unat (1 :: u32)))"
      "\<And>x. x \<notin> F \<Longrightarrow> heap k x = heap (fst (world ?s)) x"
    let ?k = "k\<lparr>heap := memset cx 0 4096 (heap k)\<rparr>"
    let ?t = "s\<lparr>device_contexts := cx, world := (?k, ?d1)\<rparr>"
    have "ends (contexts_tail ?hw cx ?n) ?t (\<lambda>_ s'. \<exists>k F'.
      s' = ?t\<lparr>world := (k, (snd (world ?t))(op + 0x30 := ucast (v2p cx AND 0xffffffff), op + 0x34 := ucast (drop_bit 32 (v2p cx) AND 0xffffffff)))\<rparr> \<and>
      owns k F' \<and> F' \<subseteq> F \<and> (\<forall>x. x \<notin> F \<longrightarrow> heap k x = heap (fst (world ?t)) x) \<and> contexts_ok k cx ?n (F - F'))"
    proof (rule contexts_tail_ends)
      show "owns (fst (world ?t)) (F - bytes_at cx 4096)"
        using k(1) by (simp, intro owns_put) (simp_all add: memset_apply)
    qed (use cx b scratchpad_bound in \<open>simp_all add: memset_apply\<close>)
    then have "ends (contexts_tail ?hw cx ?n) ?t ?Q"
    proof (rule ends_mono, elim exE conjE)
      fix x s1 k1 F' assume s1: "s1 = ?t\<lparr>world := (k1, (snd (world ?t))(op + 0x30 := ucast (v2p cx AND 0xffffffff),
          op + 0x34 := ucast (drop_bit 32 (v2p cx) AND 0xffffffff)))\<rparr>"
        "owns k1 F'" "F' \<subseteq> F" "\<forall>x. x \<notin> F \<longrightarrow> heap k1 x = heap (fst (world ?t)) x" "contexts_ok k1 cx ?n (F - F')"
      have "x \<notin> F \<Longrightarrow> heap k1 x = heap (fst (world s)) x" for x
        using s1(4) cx k(2) by (auto simp: memset_apply)
      then show "?Q x s1"
        by (intro exI [of _ cx] exI [of _ k1] exI [of _ F']) (use s1 in \<open>simp add: context_regs_def\<close>)
    qed
    then show "ends (seq (act (\<lambda>s. map_mem (memset cx 0 4096) (s\<lparr>device_contexts := cx\<rparr>))) (\<lambda>_.
     seq (calc (read_xhci ?hw HCSPARAMS2)) (\<lambda>params2. contexts_tail ?hw cx (scratchpad_count params2)))) (?s\<lparr>world := (k, snd (world ?s))\<rparr>) ?Q"
      using b regs by (simp add: world_map_mem read_xhci_def HCSPARAMS2_def)
  qed (use o in simp_all)
  then show ?thesis
    using b by (cases "world s") (simp add: setup_contexts_tail read_xhci_def read_xhci_operation_def write_xhci_operation_def CONFIG_def
      HCSPARAMS1_def hc_write_def)
qed

subsection \<open>Rings\<close>

definition command_regs :: "addr \<Rightarrow> addr \<Rightarrow> (addr \<Rightarrow> u32) \<Rightarrow> addr \<Rightarrow> u32" where
  "command_regs op a d = d(op + 0x18 := ucast (v2p a AND 0xffffffff) OR 1, op + 0x1c := ucast (drop_bit 32 (v2p a) AND 0xffffffff))"

lemma setup_command_ring_ends:
  assumes o: "owns (fst (world s)) F" and F: "direct F" and b: "mmio_base s + ucast (xhci_caplength s) = op"
  shows "ends (setup_command_ring (controller_file op rst)) s (\<lambda>_ s'. \<exists>r k.
    s' = s\<lparr>cmd_ring := r, world := (k, command_regs op (rbuf r) (snd (world s)))\<rparr> \<and> owns k (F - bytes_at (rbuf r) 4096) \<and>
    bytes_at (rbuf r) 4096 \<subseteq> F \<and> ring_holds (v2p (rbuf r), True) (r, heap k) [] \<and> ring_ok r \<and>
    (\<forall>x. x \<notin> F \<longrightarrow> heap k x = heap (fst (world s)) x) \<and> rbuf r = ml_next (fst (world s)))"
    (is "ends _ _ ?Q")
  unfolding setup_command_ring_def
proof (rule ends_new_ring [OF o F])
  fix r k
  let ?s = "s\<lparr>cmd_ring := r, world := (k, command_regs op (rbuf r) (snd (world s)))\<rparr>"
  assume r: "ring_holds (v2p (rbuf r), True) (r, heap k) []" "ring_ok r" "bytes_at (rbuf r) 4096 \<subseteq> F"
    "owns k (F - bytes_at (rbuf r) 4096)" "\<And>x. x \<notin> F \<Longrightarrow> heap k x = heap (fst (world s)) x" "rbuf r = ml_next (fst (world s))"
    and c: "cycle_bit r"
  have Q: "?Q () ?s" using r by (intro exI [of _ r] exI [of _ k]) simp
  show "ends (seq (act (\<lambda>s. s\<lparr>cmd_ring := r\<rparr>)) (\<lambda>_.
      seq (act (write_xhci_operation (controller_file op rst) (CRCR + 0) (ucast (v2p (rbuf r) AND 0xffffffff) OR of_bool (cycle_bit r)))) (\<lambda>_.
      act (write_xhci_operation (controller_file op rst) (CRCR + 4) (ucast (drop_bit 32 (v2p (rbuf r)) AND 0xffffffff))))))
    (s\<lparr>world := (k, snd (world s))\<rparr>) ?Q"
    using Q b c unfolding ends_step
    by (simp add: write_xhci_operation_def CRCR_def hc_write_def command_regs_def)
qed

definition event_regs :: "addr \<Rightarrow> addr \<Rightarrow> addr \<Rightarrow> (addr \<Rightarrow> u32) \<Rightarrow> addr \<Rightarrow> u32" where
  "event_regs rt erst a d = d(rt + 0x28 := 1, rt + 0x38 := ucast (v2p a), rt + 0x3c := ucast (drop_bit 32 (v2p a)),
     rt + 0x30 := ucast (v2p erst), rt + 0x34 := ucast (drop_bit 32 (v2p erst)))"

definition event_mem :: "addr \<Rightarrow> addr \<Rightarrow> mem \<Rightarrow> mem" where
  "event_mem erst a h = store_struct (erst + 8) (256 :: u16) (write64 erst (v2p a) h)"

lemma event_mem_facts:
  "read64 (event_mem erst a h) erst = v2p a" "load_struct (event_mem erst a h) (erst + 8) = (256 :: u16)"
  "x \<notin> bytes_at erst 10 \<Longrightarrow> event_mem erst a h x = h x"
proof -
  have s: "bytes_at erst 10 = bytes_at erst 8 \<union> bytes_at (erst + 8) 2" "bytes_at erst 8 \<inter> bytes_at (erst + 8) 2 = {}"
    using bytes_at_add [of erst 8 2] bytes_apart [of 8 2 erst] by simp_all
  have o: "store_struct (erst + 8) (v :: u16) g y = g y" if "y \<notin> bytes_at (erst + 8) 2" for v g y
    using that by (simp add: store_struct_def store_other)
  show "x \<notin> bytes_at erst 10 \<Longrightarrow> event_mem erst a h x = h x"
    using s(1) by (simp add: event_mem_def o write64_other)
  have "read64 (event_mem erst a h) erst = read64 (write64 erst (v2p a) h) erst"
    unfolding event_mem_def using s(2) by (intro read64_cong o) blast
  then show "read64 (event_mem erst a h) erst = v2p a" by simp
  show "load_struct (event_mem erst a h) (erst + 8) = (256 :: u16)"
    by (simp add: event_mem_def load_struct_def store_struct_def load_store_same)
qed

lemma setup_event_ring_ends:
  assumes o: "owns (fst (world s)) F" and F: "direct F" and b: "mmio_base s + ucast (xhci_runtime_space s) = rt"
    and e: "bytes_at (erst_addr st) 10 \<inter> F = {}" and op: "layout base op rt"
  shows "ends (setup_event_ring (controller_file op rst) st) s (\<lambda>_ s'. \<exists>r k.
    s' = s\<lparr>event_ring := r, world := (k, event_regs rt (erst_addr st) (rbuf r) (snd (world s)))\<rparr> \<and> owns k (F - bytes_at (rbuf r) 4096) \<and>
    bytes_at (rbuf r) 4096 \<subseteq> F \<and> ring_ok r \<and> cycle_bit r \<and> (\<forall>x \<in> bytes_at (rbuf r) 4096. heap k x = 0) \<and>
    read64 (heap k) (erst_addr st) = v2p (rbuf r) \<and> load_struct (heap k) (erst_addr st + 8) = (256 :: u16) \<and>
    (\<forall>x. x \<notin> F \<union> bytes_at (erst_addr st) 10 \<longrightarrow> heap k x = heap (fst (world s)) x))"
    (is "ends _ _ ?Q")
  unfolding setup_event_ring_def
proof (rule ends_new_ring [OF o F])
  let ?hw = "controller_file op rst"
  fix r :: ring and k :: mem_state
  let ?k = "k\<lparr>heap := event_mem (erst_addr st) (rbuf r) (heap k)\<rparr>"
  let ?s = "s\<lparr>event_ring := r, world := (?k, event_regs rt (erst_addr st) (rbuf r) (snd (world s)))\<rparr>"
  assume r: "ring_ok r" "bytes_at (rbuf r) 4096 \<subseteq> F" "owns k (F - bytes_at (rbuf r) 4096)"
    "\<And>x. x \<notin> F \<Longrightarrow> heap k x = heap (fst (world s)) x" "cycle_bit r" "ring_size r = 256"
    "\<And>x. x \<in> bytes_at (rbuf r) 4096 \<Longrightarrow> heap k x = 0"
  have ow: "owns ?k (F - bytes_at (rbuf r) 4096)"
    using r(3) e by (intro owns_put) (auto intro!: event_mem_facts(3))
  have z: "heap ?k x = 0" if "x \<in> bytes_at (rbuf r) 4096" for x
  proof -
    have "x \<notin> bytes_at (erst_addr st) 10" using that r(2) e by blast
    then show ?thesis using r(7) [OF that] by (simp add: event_mem_facts(3))
  qed
  have Q: "?Q () ?s"
    by (intro exI [of _ r] exI [of _ ?k]) (use r ow z in \<open>simp add: event_mem_facts\<close>)
  have rt: "rt + j \<noteq> op" if "unat j < 0x40" for j using layout_apart(2) [OF op that] by simp
  show "ends (seq (act (\<lambda>s. map_mem (\<lambda>h. store_struct (erst_addr st + 8) (word_of_int (ring_size r) :: u16)
       (write64 (erst_addr st) (v2p (rbuf r)) h)) (s\<lparr>event_ring := r\<rparr>))) (\<lambda>_.
     seq (act (write_xhci_runtime ?hw (ERSTSZ 0) 1)) (\<lambda>_.
     seq (act (\<lambda>s. write_xhci_runtime ?hw (ERDP 0 + 0) (ucast (read64 (mem_of s) (erst_addr st))) s)) (\<lambda>_.
     seq (act (\<lambda>s. write_xhci_runtime ?hw (ERDP 0 + 4) (ucast (drop_bit 32 (read64 (mem_of s) (erst_addr st)))) s)) (\<lambda>_.
     seq (act (write_xhci_runtime ?hw (ERSTBA 0 + 0) (ucast (v2p (erst_addr st))))) (\<lambda>_.
     act (write_xhci_runtime ?hw (ERSTBA 0 + 4) (ucast (drop_bit 32 (v2p (erst_addr st)))))))))))
    (s\<lparr>world := (k, snd (world s))\<rparr>) ?Q"
    using Q b r(6) unfolding ends_step
    by (simp add: write_xhci_runtime_def ERSTSZ_def ERDP_def ERSTBA_def hc_write_def rt event_regs_def world_map_mem mem_of_def
        event_mem_def [symmetric] event_mem_facts)
qed

subsection \<open>\<open>init_xhci\<close>\<close>

lemma find_registers_ends:
  assumes "drop_bit 8 (snd (world s) (first_capability dev (snd (world s)))) AND 0xffff = 0"
    and "first_capability dev (snd (world s)) \<noteq> op"
  shows "\<exists>s1. find_registers (controller_file op rst) dev s = Some (Inr (), s1) \<and> mmio_base s1 = bar_base dev \<and>
    xhci_caplength s1 = snd (world s) (bar_base dev) AND 0xff \<and> xhci_runtime_space s1 = snd (world s) (bar_base dev + 0x18) \<and>
    fst (world s1) = fst (world s) \<and> (\<forall>a. a \<noteq> first_capability dev (snd (world s)) \<longrightarrow> snd (world s1) a = snd (world s) a)"
proof -
  let ?hw = "controller_file op rst" and ?d = "snd (world s)"
  let ?ca = "first_capability dev ?d"
  have scan: "\<exists>s2. lift (scan_capabilities ?hw 0) s1 = Some (Inr (), s2) \<and> mmio_base s2 = mmio_base s1 \<and>
      xhci_caplength s2 = xhci_caplength s1 \<and> xhci_runtime_space s2 = xhci_runtime_space s1 \<and>
      fst (world s2) = fst (world s1) \<and> (\<forall>a. a \<noteq> ?ca \<longrightarrow> snd (world s2) a = snd (world s1) a)"
    if "capability_addr 0 s1 = ?ca" "snd (world s1) = ?d" for s1
  proof -
    have "next_off (?d ?ca) = 0" using assms(1) by (simp add: next_off_def)
    then have "fst (scan_capability ?hw 0 s1) = 0"
      unfolding scan_capability_def Let_def next_off_def [symmetric] using that
      by (auto simp: next_off_claimed [simplified] capability_addr_def)
    then have "lift (scan_capabilities ?hw 0) s1 = Some (Inr (), snd (scan_capability ?hw 0 s1))"
      unfolding lift_def by (subst scan_capabilities.simps) (cases "scan_capability ?hw 0 s1"; simp add: ret_def)
    then show ?thesis
      using that assms(2) by (auto simp: scan_capability_def Let_def hc_write_def capability_addr_def)
  qed
  let ?s1 = "s\<lparr>mmio_base := bar_base dev, xhci_caplength := ?d (bar_base dev) AND 0xff, xhci_runtime_space := ?d (bar_base dev + 0x18),
    xhci_doorbell := ?d (bar_base dev + 0x14), xhci_extend_capability := push_bit 2 (drop_bit 16 (?d (bar_base dev + 0x10)) AND 0xffff)\<rparr>"
  obtain s2 where "lift (scan_capabilities ?hw 0) ?s1 = Some (Inr (), s2)" "mmio_base s2 = mmio_base ?s1"
      "xhci_caplength s2 = xhci_caplength ?s1" "xhci_runtime_space s2 = xhci_runtime_space ?s1"
      "fst (world s2) = fst (world ?s1)" "\<forall>a. a \<noteq> ?ca \<longrightarrow> snd (world s2) a = snd (world ?s1) a"
    using scan [of ?s1] by (auto simp: capability_addr_def first_capability_def)
  then show ?thesis
    unfolding find_registers_def Let_def bar_base_def [symmetric]
    by (simp add: seq_calc read_xhci_def CAPLENGTH_def RTSOFF_def DBOFF_def HCCPARAMS1_def) (simp add: seq_def act_def ret_def)
qed

text \<open>A register of eight bytes.\<close>

definition reg64 :: "(addr \<Rightarrow> u32) \<Rightarrow> addr \<Rightarrow> u64" where
  "reg64 d a = ucast (d a) OR push_bit 32 (ucast (d (a + 4)))"

lemma reg64_halves:
  "ucast (ucast v :: u32) OR push_bit 32 (ucast (ucast (drop_bit 32 v) :: u32)) = v"
  "ucast (ucast (v AND 0xffffffff) :: u32) OR push_bit 32 (ucast (ucast (drop_bit 32 v AND 0xffffffff) :: u32)) = v" for v :: u64
proof -
  have m: "0xffffffff = (mask 32 :: u64)" by (simp add: mask_eq_exp_minus_1)
  show "ucast (ucast v :: u32) OR push_bit 32 (ucast (ucast (drop_bit 32 v) :: u32)) = v"
    by (rule bit_word_eqI) (auto simp: bit_simps)
  show "ucast (ucast (v AND 0xffffffff) :: u32) OR push_bit 32 (ucast (ucast (drop_bit 32 v AND 0xffffffff) :: u32)) = v"
    unfolding m by (rule bit_word_eqI) (auto simp: bit_simps)
qed

lemma reg64_or_1: "ucast (v OR 1 :: u32) OR w = (ucast v OR w) OR (1 :: u64)"
  by (rule bit_word_eqI) (auto simp: bit_simps bit_1_iff)

text \<open>The driver finds no event in a cleared segment.\<close>

lemma v2p_page:
  assumes "ring_page b"
  shows "v2p b AND NOT 0x0f = v2p b"
proof -
  have m: "0x0f = (mask 4 :: u64)" by (simp add: mask_eq_exp_minus_1)
  have "unat PAGE_OFFSET mod 16 = 0" by (simp add: PAGE_OFFSET_def)
  moreover have "unat b mod 16 = 0" using assms by (auto simp: ring_page_def elim!: dvdE)
  moreover have "unat (v2p b) + unat PAGE_OFFSET = unat b"
    using assms by (simp add: v2p_direct ring_page_def unat_sub word_le_nat_alt)
  ultimately have "unat (v2p b) mod 16 = 0" by presburger
  then have "unat (take_bit 4 (v2p b)) = 0" unfolding unsigned_take_bit_eq by (simp add: take_bit_eq_mod)
  then have "take_bit 4 (v2p b) = 0" by (simp only: unat_eq_0)
  then have "\<not> bit (v2p b) n" if "n < 4" for n using that by (metis bit_take_bit_iff bit_0_eq bot_apply bot_bool_def)
  then show ?thesis unfolding m by (intro bit_word_eqI) (auto simp: bit_simps)
qed

lemma event_ring_idle:
  assumes "mmio_base s + ucast (xhci_runtime_space s) = rt" and "reg64 (snd (world s)) (rt + 0x38) = v2p (rbuf (event_ring s))"
    and "ring_ok (event_ring s)" and "cycle_bit (event_ring s)" and "\<forall>x \<in> bytes_at (rbuf (event_ring s)) 4096. heap (fst (world s)) x = 0"
  shows "er_isQueued (controller_file op rst) s = (False, s)"
proof -
  have pg: "ring_page (rbuf (event_ring s))" using assms(3) by (simp add: ring_ok_def)
  then have "P2V (v2p (rbuf (event_ring s)) AND NOT 0x0f) = rbuf (event_ring s)"
    unfolding v2p_page [OF pg] by (intro P2V_v2p) (simp add: ring_page_def)
  moreover have "getTRB (controller_file op rst) s = (P2V (reg64 (snd (world s)) (rt + 0x38) AND NOT 0x0f), s)"
    unfolding assms(1) [symmetric] by (simp add: getTRB_def read_xhci_runtime_def ERDP_def reg64_def add.assoc)
  moreover have "load_struct (mem_of s) (rbuf (event_ring s)) = (0 :: trb)"
    using assms(5) bytes_at_mono [of 16 4096 "rbuf (event_ring s)"]
    by (simp add: load_struct_def mem_of_def) (subst load_zero; auto)
  ultimately show ?thesis using assms(2,4) by (simp add: er_isQueued_def get_f_def)
qed

text \<open>
  The running controller: \<open>F\<close> are the bytes that were free before and \<open>F'\<close> the bytes that still
  are. The rings, the contexts and the scratchpads are apart in the bytes taken from \<open>F\<close>.
\<close>

definition controller_runs :: "addr \<Rightarrow> addr \<Rightarrow> addr \<Rightarrow> u32 \<Rightarrow> u32 \<Rightarrow> addr set \<Rightarrow> (addr \<Rightarrow> u32) xhci \<Rightarrow> bool" where
  "controller_runs op rt erst params1 params2 F s \<longleftrightarrow>
     (let k = fst (world s); d = snd (world s); c = cmd_ring s; e = event_ring s in
      bit (d op) 0 \<and> \<not> bit (d (op + 4)) 0 \<and> d (op + 0x38) AND 0xff = params1 AND 0xff \<and>
      reg64 d (op + 0x30) = v2p (device_contexts s) \<and> reg64 d (op + 0x18) = v2p (rbuf c) OR 1 \<and>
      d (rt + 0x28) = 1 \<and> reg64 d (rt + 0x30) = v2p erst \<and> reg64 d (rt + 0x38) = v2p (rbuf e) \<and>
      read64 (heap k) erst = v2p (rbuf e) \<and> load_struct (heap k) (erst + 8) = (256 :: u16) \<and>
      ring_holds (v2p (rbuf c), True) (c, heap k) [] \<and> ring_ok c \<and> ring_ok e \<and> cycle_bit e \<and>
      (\<forall>x \<in> bytes_at (rbuf e) 4096. heap k x = 0) \<and> (\<forall>rst. er_isQueued (controller_file op rst) s = (False, s)) \<and>
      (\<exists>G F' arr. context_array (heap k) (device_contexts s) arr (scratchpad_count params2) (F - G) \<and>
         bytes_at (rbuf c) 4096 \<subseteq> G \<and> bytes_at (rbuf e) 4096 \<subseteq> G - bytes_at (rbuf c) 4096 \<and>
         F' = G - bytes_at (rbuf c) 4096 - bytes_at (rbuf e) 4096 \<and> G \<subseteq> F \<and> owns k F' \<and>
         (scratchpad_count params2 = 0 \<longrightarrow> arr = rbuf c)))"

lemma ends_run: "m s = Some (Inr x, s1) \<Longrightarrow> ends (seq m f) s Q \<longleftrightarrow> ends (f x) s1 Q"
  by (simp add: ends_def seq_def)

lemma ring_holds_cong:
  assumes "ring_holds pos (r, h) q" and "\<And>x. x \<in> bytes_at (rbuf r) 4096 \<Longrightarrow> h' x = h x"
  shows "ring_holds pos (r, h') q"
proof -
  obtain ci where "fst pos = pos_of (rbuf r) ci" "ring_state ci (snd pos) r h q" using assms(1) by (auto simp: ring_holds_def)
  then show ?thesis using ring_state_cong [OF assms(2)] unfolding ring_holds_def by fastforce
qed

lemma registers_set:
  assumes l: "layout base op rt"
    and d': "d' = event_regs rt erst a4 (command_regs op a3 (context_regs base op cx d))"
  shows "d' op = d op" "d' (op + 0x38) AND 0xff = d (base + 4) AND 0xff" "reg64 d' (op + 0x30) = v2p cx"
    "reg64 d' (op + 0x18) = v2p a3 OR 1" "d' (rt + 0x28) = 1" "reg64 d' (rt + 0x30) = v2p erst" "reg64 d' (rt + 0x38) = v2p a4"
proof -
  have rt: "op + i \<noteq> rt + j" "rt + j \<noteq> op + i" if "unat i < 0x40" "unat j < 0x40" for i j
    using layout_apart(1) [OF l that] by metis+
  have rt0: "op \<noteq> rt + j" "rt + j \<noteq> op" if "unat j < 0x40" for j using layout_apart(2) [OF l that] by metis+
  have slots: "(v AND NOT 0xff OR (p AND 0xff)) AND 0xff = p AND 0xff" for v p :: u32
  proof -
    have m: "0xff = (mask 8 :: u32)" by (simp add: mask_eq_exp_minus_1)
    show ?thesis unfolding m by (rule bit_word_eqI) (auto simp: bit_simps)
  qed
  have e: "event_regs rt erst a4 g (op + i) = g (op + i)" if "unat i < 0x40" for g i
    using rt(1) [OF that] by (simp add: event_regs_def)
  have c: "command_regs op a3 g (op + 0x30) = g (op + 0x30)" "command_regs op a3 g (op + 0x34) = g (op + 0x34)"
    "command_regs op a3 g (op + 0x38) = g (op + 0x38)" "command_regs op a3 g op = g op"
    "command_regs op a3 g (op + 0x18) = ucast (v2p a3 AND 0xffffffff) OR 1"
    "command_regs op a3 g (op + 0x1c) = ucast (drop_bit 32 (v2p a3) AND 0xffffffff)" for g
    by (simp_all add: command_regs_def)
  show "d' op = d op" using e [of 0] c(4) by (simp add: d' context_regs_def)
  show "d' (op + 0x38) AND 0xff = d (base + 4) AND 0xff" unfolding d' using slots by (simp add: e c(3)) (simp add: context_regs_def)
  show "reg64 d' (op + 0x30) = v2p cx"
    unfolding d' reg64_def using reg64_halves(2) [of "v2p cx"] by (simp add: e c add.assoc) (simp add: context_regs_def)
  show "reg64 d' (op + 0x18) = v2p a3 OR 1"
    unfolding d' reg64_def add.assoc using reg64_halves(2) [of "v2p a3"] by (simp add: e c reg64_or_1)
  show "d' (rt + 0x28) = 1" "reg64 d' (rt + 0x30) = v2p erst" "reg64 d' (rt + 0x38) = v2p a4"
    unfolding d' reg64_def add.assoc using reg64_halves(1) by (simp_all add: event_regs_def)
qed

text \<open>From the contexts on: the registers are those after the reset, \<open>d\<close>.\<close>

lemma starts_after_reset:
  assumes o: "owns (fst (world s)) F" "direct F" and e: "bytes_at (erst_addr st) 10 \<inter> F = {}"
    and b: "mmio_base s = base" "base + ucast (xhci_caplength s) = op" "base + ucast (xhci_runtime_space s) = rt"
    and l: "layout base op rt" and r: "\<not> bit (snd (world s) op) 1"
  shows "ends (seq (setup_contexts (controller_file op rst) 1) (\<lambda>_.
     seq (setup_command_ring (controller_file op rst)) (\<lambda>_.
     seq (setup_event_ring (controller_file op rst) st) (\<lambda>_. run_controller (controller_file op rst))))) s
    (\<lambda>_. controller_runs op rt (erst_addr st) (snd (world s) (base + 4)) (snd (world s) (base + 8)) F)"
proof (rule ends_seq [OF setup_contexts_ends [OF o(1) b(1,2) l]], elim exE conjE)
  fix x s2 cx k F2 let ?hw = "controller_file op rst" and ?d = "snd (world s)" and ?E = "bytes_at (erst_addr st) 10"
  let ?n = "scratchpad_count (?d (base + 8))"
  assume s2: "s2 = s\<lparr>device_contexts := cx, world := (k, context_regs base op cx ?d)\<rparr>" and k: "owns k F2" "F2 \<subseteq> F"
    and contexts: "contexts_ok k cx ?n (F - F2)"
  have F2: "direct F2" using o(2) k(2) by (auto simp: direct_def)
  have b2: "mmio_base s2 + ucast (xhci_caplength s2) = op" "owns (fst (world s2)) F2" using b k s2 by simp_all
  show "ends (seq (setup_command_ring ?hw) (\<lambda>_. seq (setup_event_ring ?hw st) (\<lambda>_. run_controller ?hw))) s2
    (\<lambda>_. controller_runs op rt (erst_addr st) (?d (base + 4)) (?d (base + 8)) F)"
  proof (rule ends_seq [OF setup_command_ring_ends [OF b2(2) F2 b2(1)]], elim exE conjE)
    fix x s3 r3 k3
    assume s3: "s3 = s2\<lparr>cmd_ring := r3, world := (k3, command_regs op (rbuf r3) (snd (world s2)))\<rparr>"
      and k3: "owns k3 (F2 - bytes_at (rbuf r3) 4096)" "bytes_at (rbuf r3) 4096 \<subseteq> F2"
      and r3: "ring_holds (v2p (rbuf r3), True) (r3, heap k3) []" "ring_ok r3" "rbuf r3 = ml_next (fst (world s2))"
      and h3: "\<forall>x. x \<notin> F2 \<longrightarrow> heap k3 x = heap (fst (world s2)) x"
    let ?F3 = "F2 - bytes_at (rbuf r3) 4096"
    have F3: "direct ?F3" using F2 by (auto simp: direct_def)
    have b3: "mmio_base s3 + ucast (xhci_runtime_space s3) = rt" "owns (fst (world s3)) ?F3" "?E \<inter> ?F3 = {}"
      using b k3 s2 s3 e k(2) by auto
    show "ends (seq (setup_event_ring ?hw st) (\<lambda>_. run_controller ?hw)) s3
      (\<lambda>_. controller_runs op rt (erst_addr st) (?d (base + 4)) (?d (base + 8)) F)"
    proof (rule ends_seq [OF setup_event_ring_ends [OF b3(2) F3 b3(1,3) l]], elim exE conjE)
      fix x s4 r4 k4
      assume s4: "s4 = s3\<lparr>event_ring := r4, world := (k4, event_regs rt (erst_addr st) (rbuf r4) (snd (world s3)))\<rparr>"
        and k4: "owns k4 (?F3 - bytes_at (rbuf r4) 4096)" "bytes_at (rbuf r4) 4096 \<subseteq> ?F3"
        and r4: "ring_ok r4" "cycle_bit r4" "\<forall>x \<in> bytes_at (rbuf r4) 4096. heap k4 x = 0"
          "read64 (heap k4) (erst_addr st) = v2p (rbuf r4)" "load_struct (heap k4) (erst_addr st + 8) = (256 :: u16)"
        and h4: "\<forall>x. x \<notin> ?F3 \<union> ?E \<longrightarrow> heap k4 x = heap (fst (world s3)) x"
      let ?d4 = "snd (world s4)"
      have "?d4 = event_regs rt (erst_addr st) (rbuf r4) (command_regs op (rbuf r3) (context_regs base op cx ?d))"
        using s2 s3 s4 by simp
      note d4 = registers_set [OF l this]
      show "ends (run_controller ?hw) s4 (\<lambda>_. controller_runs op rt (erst_addr st) (?d (base + 4)) (?d (base + 8)) F)"
      proof -
        have "\<not> bit (?d4 op) 1" "mmio_base s4 + ucast (xhci_caplength s4) = op" using d4(1) r b s2 s3 s4 by simp_all
        from run_controller_ends [OF this(2,1), of rst] obtain d where run: "run_controller ?hw s4 = Some (Inr (), s4\<lparr>world := (fst (world s4), d)\<rparr>)"
          and d: "bit (d op) 0" "\<not> bit (d (op + 4)) 0" "\<And>a. a \<noteq> op \<Longrightarrow> a \<noteq> op + 4 \<Longrightarrow> d a = ?d4 a" by blast
        have rt: "op \<noteq> rt + j" "rt + j \<noteq> op" "rt + j \<noteq> op + 4" if "unat j < 0x40" for j
          using layout_apart(2) [OF l that] layout_apart(1) [OF l _ that, of 4] by auto
        have c: "device_contexts s4 = cx" "cmd_ring s4 = r3" "event_ring s4 = r4" "fst (world s4) = k4" using s3 s2 s4 by simp_all
        obtain arr where arr: "context_array (heap k) cx arr ?n (F - F2)" "?n = 0 \<longrightarrow> arr = ml_next k"
          using contexts unfolding contexts_ok_def by blast
        have keep: "heap k4 x = heap k x" if "x \<in> F - F2" for x using h3 h4 e that s2 s3 by auto
        have "context_array (heap k4) cx arr ?n (F - F2)" by (rule context_array_cong [OF arr(1) keep])
        moreover have "ring_holds (v2p (rbuf r3), True) (r3, heap k4) []"
        proof (rule ring_holds_cong [OF r3(1)])
          fix x assume "x \<in> bytes_at (rbuf r3) 4096"
          then show "heap k4 x = heap k3 x" using k3(2) k(2) e h4 s3 by auto
        qed
        moreover have "er_isQueued (controller_file op rst) (s4\<lparr>world := (k4, d)\<rparr>) = (False, s4\<lparr>world := (k4, d)\<rparr>)" for rst
          by (rule event_ring_idle [of _ rt]) (use b3(1) s4 d4 d rt r4 c in \<open>simp_all add: reg64_def add.assoc\<close>)
        ultimately have "controller_runs op rt (erst_addr st) (?d (base + 4)) (?d (base + 8)) F (s4\<lparr>world := (fst (world s4), d)\<rparr>)"
          unfolding controller_runs_def Let_def
          using d d4 rt r3 r4 k k3 k4 arr(2) s2 by (simp add: c reg64_def add.assoc) (intro exI [of _ F2] exI [of _ arr]; simp)
        then show ?thesis using run by (simp add: ends_def)
      qed
    qed
  qed
qed

lemma layout_offsets:
  assumes "0x20 \<le> unat a" "unat a + 0x40 \<le> unat b" "unat b + 0x40 < 2 ^ 64"
  shows "layout base (base + a) (base + b)"
  unfolding layout_def add.assoc add_left_cancel
proof (intro allI impI conjI)
  fix i j :: addr assume ij: "unat i < 0x40" "unat j < 0x40"
  have s: "unat (a + i) = unat a + unat i" "unat (a + j) = unat a + unat j" "unat (b + j) = unat b + unat j"
    using assms ij by (simp_all add: unat_add_exact)
  show "a + i \<noteq> b + j"
  proof
    assume "a + i = b + j"
    then have "unat a + unat i = unat b + unat j" using s by metis
    then show False using assms ij by linarith
  qed
  show "i \<noteq> a + j" if "unat i < 0x20"
  proof
    assume "i = a + j"
    then have "unat i = unat a + unat j" using s by metis
    then show False using assms that by linarith
  qed
qed


text \<open>A stopped controller whose reset clears its command register and sets its status register, without scratchpads.\<close>

definition demo_registers :: "addr \<Rightarrow> u32" where
  "demo_registers = (\<lambda>_. 0)(PAGE_OFFSET := 0x20, PAGE_OFFSET + 4 := 0x04000840, PAGE_OFFSET + 0x10 := 0x00400000,
     PAGE_OFFSET + 0x14 := 0x2000, PAGE_OFFSET + 0x18 := 0x1000, PAGE_OFFSET + 0x24 := 1, PAGE_OFFSET + 0x28 := 1, PAGE_OFFSET + 0x100 := 1)"

definition demo_reset :: "(addr \<Rightarrow> u32) \<Rightarrow> addr \<Rightarrow> u32" where
  "demo_reset d = d(PAGE_OFFSET + 0x20 := 0, PAGE_OFFSET + 0x24 := 1)"

definition demo_controller :: pci_device where
  "demo_controller = \<lparr>vendor = 0x8086, device = 0, bar0 = 0, bar1 = 0, bar2 = 0, bar3 = 0, bar4 = 0, bar5 = 0\<rparr>"


end
