(* ===== verification/Usb_Requests.thy ===== *)
theory Usb_Requests
  imports Ring_Memory Register_File
begin

unbundle bit_operations_syntax

text \<open>
  The control transfers of kernel/xhci.c as the controller and the device see them: the entries of
  a transfer ring are decoded at the bit positions the xHCI specification gives, and a setup stage
  carries the eight bytes of a USB request.
\<close>

subsection \<open>Decoding\<close>

record usb_request =
  bmRequestType :: u64
  bRequest :: u64
  wValue :: u64
  wIndex :: u64
  wLength :: u64

definition slice_of :: "nat \<Rightarrow> nat \<Rightarrow> trb \<Rightarrow> u64" where
  "slice_of lo w t = ucast (bf_get lo w t)"

definition request_of :: "trb \<Rightarrow> usb_request" where
  "request_of t = \<lparr>bmRequestType = slice_of 0 8 t, bRequest = slice_of 8 8 t, wValue = slice_of 16 16 t,
     wIndex = slice_of 32 16 t, wLength = slice_of 48 16 t\<rparr>"

text \<open>A setup stage (type 2) holds its request itself (bit 102); bits 112 and 113 give the direction of the data stage.\<close>

definition setup_stage :: "trb \<Rightarrow> (usb_request \<times> u64) option" where
  "setup_stage t = (if slice_of 106 6 t = 2 \<and> slice_of 102 1 t = 1 \<and> slice_of 64 17 t = 8
     then Some (request_of t, slice_of 112 2 t) else None)"

text \<open>A data stage (type 3): buffer, length, whether it goes to the host and whether its completion is reported.\<close>

definition data_stage :: "trb \<Rightarrow> (u64 \<times> u64 \<times> bool \<times> bool) option" where
  "data_stage t = (if slice_of 106 6 t = 3
     then Some (slice_of 0 64 t, slice_of 64 17 t, slice_of 112 1 t = 1, slice_of 101 1 t = 1) else None)"

text \<open>A status stage (type 4): whether it goes to the host, and whether its completion is reported.\<close>

definition status_stage :: "trb \<Rightarrow> (bool \<times> bool) option" where
  "status_stage t = (if slice_of 106 6 t = 4 then Some (slice_of 112 1 t = 1, slice_of 101 1 t = 1) else None)"

lemma slice_set [simp]:
  assumes "field_from 0 L f = (lo, w)" "lo + w \<le> 128" "w \<le> 64"
  shows "slice_of lo w (set_f L f v x) = take_bit w v"
  using get_set_field [of L f lo w v x] assms by (simp add: get_f_def slice_of_def)

lemma slice_set_other [simp]:
  assumes "field_from 0 L f = (lo, w)" "lo' + w' \<le> lo \<or> lo + w \<le> lo'" "lo' + w' \<le> 128"
  shows "slice_of lo' w' (set_f L f v x) = slice_of lo' w' x"
  using assms by (simp add: slice_of_def set_f_def bf_get_set_other)

lemma slice_0 [simp]: "slice_of lo w 0 = 0"
  by (simp add: slice_of_def)

lemma trb_item_slices: "trb_item t \<longleftrightarrow> slice_of 96 1 t = 0 \<and> slice_of 106 6 t \<noteq> 6"
proof -
  have "trb_cycle t \<longleftrightarrow> slice_of 96 1 t \<noteq> 0" by (simp add: trb_cycle_def slice_of_def bf_get_eq_bit del: One_nat_def)
  moreover have "trb_kind t = 6 \<longleftrightarrow> slice_of 106 6 t = 6"
  proof -
    have b: "unat (bf_get 106 6 t) < 64" using bf_get_bound [of 106 6 t] by simp
    have "trb_kind t = 6 \<longleftrightarrow> unat (ucast (bf_get 106 6 t) :: u8) = 6"
      by (simp add: trb_kind_def bf_get_def word_unat_eq_iff)
    also have "\<dots> \<longleftrightarrow> unat (bf_get 106 6 t) = 6" using b by (simp add: unsigned_ucast_eq take_bit_eq_mod)
    also have "\<dots> \<longleftrightarrow> unat (slice_of 106 6 t) = 6" using b by (simp add: slice_of_def unsigned_ucast_eq take_bit_eq_mod)
    finally show ?thesis by (simp add: word_unat_eq_iff)
  qed
  ultimately show ?thesis by (auto simp: trb_item_def)
qed

subsection \<open>\<open>get_descriptor\<close>\<close>

definition descriptor_setup :: "u16 \<Rightarrow> u8 \<Rightarrow> u32 \<Rightarrow> trb" where
  "descriptor_setup ty idx len =
     set_f setup_stage_trb ''trt'' 3 (set_f setup_stage_trb ''wlength'' (ucast len) (set_f setup_stage_trb ''windex'' 0
       (set_f setup_stage_trb ''wvalue'' (push_bit 8 (ucast ty) OR ucast idx)
         (set_f setup_stage_trb ''request'' 6 (set_f setup_stage_trb ''request_type'' 0x80 init_setup_stage_trb)))))"

definition descriptor_data :: "addr \<Rightarrow> u32 \<Rightarrow> trb" where
  "descriptor_data buf len =
     set_f data_stage_trb ''dir'' 1 (set_f data_stage_trb ''tdsize'' 0 (init_data_stage_trb (v2p buf) len))"

definition descriptor_status :: trb where
  "descriptor_status = set_f status_stage_trb ''dir'' 0 init_status_stage_trb"

lemma descriptor_stages:
  "setup_stage (descriptor_setup ty idx len) = Some (\<lparr>bmRequestType = 0x80, bRequest = 6,
     wValue = take_bit 16 (push_bit 8 (ucast ty) OR ucast idx), wIndex = 0, wLength = take_bit 16 (ucast len)\<rparr>, 3)"
  "data_stage (descriptor_data buf len) = Some (v2p buf, take_bit 17 (ucast len), True, True)"
  "status_stage descriptor_status = Some (False, False)"
  by (simp_all add: setup_stage_def request_of_def data_stage_def status_stage_def descriptor_setup_def descriptor_data_def
      descriptor_status_def init_setup_stage_trb_def init_data_stage_trb_def init_status_stage_trb_def
      setup_stage_trb_def data_stage_trb_def status_stage_trb_def take_bit_word_eq_self)

lemma descriptor_items: "trb_item (descriptor_setup ty idx len)" "trb_item (descriptor_data buf len)" "trb_item descriptor_status"
  by (simp_all add: trb_item_slices descriptor_setup_def descriptor_data_def
      descriptor_status_def init_setup_stage_trb_def init_data_stage_trb_def init_status_stage_trb_def
      setup_stage_trb_def data_stage_trb_def status_stage_trb_def)

text \<open>The statements of \<open>get_descriptor\<close> are three writes to the ring and the doorbell.\<close>

lemma get_descriptor_writes:
  "get_descriptor hw p slot ty idx buf len s = write_xhci_doorbell hw slot 1
     (map_mem (fold (write_ring_at p) [descriptor_setup ty idx len, descriptor_data buf len, descriptor_status]) s)"
proof -
  have m: "map_mem f (map_mem g s) = map_mem (f \<circ> g) s" for f g
    by (cases "world s") (simp add: map_mem_def)
  show ?thesis
    by (simp add: get_descriptor_def Let_def m descriptor_setup_def descriptor_data_def descriptor_status_def comp_assoc)
qed

lemma mem_map_mem [simp]: "mem_of (map_mem f s) = f (mem_of s)"
  by (simp add: mem_of_def map_mem_def)

text \<open>What is in a ring is what the controller fetches.\<close>

lemma fetch_all:
  assumes "holds_at p pos h q"
  shows "run_ops (write_ring_at p) (fetch_at p) (replicate (length q) Get) pos h = map Some q"
proof -
  have w: "within n (replicate k Get) m" for n k m by (induction k arbitrary: m) simp_all
  have r: "run_queue (replicate (length q) Get) q = map Some q" by (induction q) simp_all
  show ?thesis using memory_fifo.run_refines [OF assms w] by (simp add: r list_all_iff)
qed

text \<open>
  C15: \<open>get_descriptor\<close> appends to the queue of the transfer ring a complete control transfer: a setup
  stage with the standard request \<open>GET_DESCRIPTOR\<close> for the type, index and length asked for and
  an IN data stage announced, a data stage that leads to the buffer's physical address, takes
  at most \<open>buf_len\<close> bytes and reports its completion, and a status stage to the device. Then it
  rings the doorbell of the slot for the control endpoint. The controller fetches the three
  entries behind what was queued before.
\<close>
theorem get_descriptor_queues:
  assumes "holds_at p pos (mem_of s) q" and "length q \<le> 251"
  shows "\<exists>setup data status s1.
    get_descriptor hw p slot ty idx buf len s = write_xhci_doorbell hw slot 1 s1 \<and>
    run_ops (write_ring_at p) (fetch_at p) (replicate (length q + 3) Get) pos (mem_of s1) = map Some (q @ [setup, data, status]) \<and>
    setup_stage setup = Some (\<lparr>bmRequestType = 0x80, bRequest = 6,
      wValue = take_bit 16 (push_bit 8 (ucast ty) OR ucast idx), wIndex = 0, wLength = take_bit 16 (ucast len)\<rparr>, 3) \<and>
    data_stage data = Some (v2p buf, take_bit 17 (ucast len), True, True) \<and>
    status_stage status = Some (False, False)"
proof -
  let ?ts = "[descriptor_setup ty idx len, descriptor_data buf len, descriptor_status]"
  let ?s1 = "map_mem (fold (write_ring_at p) ?ts) s"
  have "holds_at p pos (fold (write_ring_at p) ?ts (mem_of s)) (q @ ?ts)"
    using assms descriptor_items by (intro memory_fifo.puts_hold) simp_all
  from fetch_all [OF this]
  have "run_ops (write_ring_at p) (fetch_at p) (replicate (length q + 3) Get) pos (mem_of ?s1) = map Some (q @ ?ts)"
    by (simp only: mem_map_mem length_append list.size) (simp only: add_Suc_right add_0_right numeral_3_eq_3)
  then show ?thesis using get_descriptor_writes descriptor_stages by blast
qed

definition demo_transfer_ring :: mem where
  "demo_transfer_ring = store_ring 0xffff806000200000
     \<lparr>rbuf = 0xffff806000100000, cycle_bit = True, ring_size = 256, ring_index = 0\<rparr> (\<lambda>_. 0)"

lemma demo_transfer_ring: "holds_at 0xffff806000200000 (0x100000, True) demo_transfer_ring []"
proof -
  have "v2p 0xffff806000100000 = 0x100000" by (simp add: v2p_def PAGE_OFFSET_def)
  moreover have "bytes_at 0xffff806000200000 20 \<inter> bytes_at (0xffff806000100000 :: addr) 4096 = {}"
    by (rule bytes_at_disjoint) simp_all
  ultimately show ?thesis
    using empty_ring_at [of "0xffff806000100000" "0xffff806000200000" "\<lambda>_. 0"]
    by (simp add: demo_transfer_ring_def ring_page_def PAGE_OFFSET_def)
qed

theorem get_descriptor_queues_witness:
  "\<exists>setup data status s1.
    get_descriptor register_file 0xffff806000200000 1 1 0 0xffff806000300000 8 (map_mem (\<lambda>_. demo_transfer_ring) demo_xhci) =
      write_xhci_doorbell register_file 1 1 s1 \<and>
    run_ops (write_ring_at 0xffff806000200000) (fetch_at 0xffff806000200000) [Get, Get, Get] (0x100000, True) (mem_of s1) =
      [Some setup, Some data, Some status] \<and>
    setup_stage setup = Some (\<lparr>bmRequestType = 0x80, bRequest = 6, wValue = 0x100, wIndex = 0, wLength = 8\<rparr>, 3) \<and>
    data_stage data = Some (0x300000, 8, True, True) \<and> status_stage status = Some (False, False)"
proof -
  have "holds_at 0xffff806000200000 (0x100000, True) (mem_of (map_mem (\<lambda>_. demo_transfer_ring) demo_xhci)) []"
    "length ([] :: trb list) \<le> 251"
    by (simp_all add: demo_transfer_ring)
  from get_descriptor_queues [OF this, of register_file 1 1 0 "0xffff806000300000" 8]
  obtain t1 t2 t3 s1 where g:
    "get_descriptor register_file 0xffff806000200000 1 1 0 0xffff806000300000 8 (map_mem (\<lambda>_. demo_transfer_ring) demo_xhci) =
       write_xhci_doorbell register_file 1 1 s1"
    "run_ops (write_ring_at 0xffff806000200000) (fetch_at 0xffff806000200000) (replicate (length ([] :: trb list) + 3) Get)
       (0x100000, True) (mem_of s1) = map Some ([] @ [t1, t2, t3])"
    "setup_stage t1 = Some (\<lparr>bmRequestType = 0x80, bRequest = 6,
      wValue = take_bit 16 (push_bit 8 (ucast (1 :: u16)) OR ucast (0 :: u8)), wIndex = 0, wLength = take_bit 16 (ucast (8 :: u32))\<rparr>, 3)"
    "data_stage t2 = Some (v2p 0xffff806000300000, take_bit 17 (ucast (8 :: u32)), True, True)"
    "status_stage t3 = Some (False, False)"
    by (elim exE conjE)
  have v: "take_bit 16 (push_bit 8 (ucast (1 :: u16)) OR ucast (0 :: u8)) = (0x100 :: u64)"
    "take_bit 16 (ucast (8 :: u32)) = (8 :: u64)" "take_bit 17 (ucast (8 :: u32)) = (8 :: u64)"
    "v2p 0xffff806000300000 = 0x300000"
    by (simp_all add: v2p_def PAGE_OFFSET_def)
  have r: "replicate (length ([] :: trb list) + 3) Get = [Get, Get, Get]" "map Some ([] @ [t1, t2, t3]) = [Some t1, Some t2, Some t3]"
    by (simp_all add: numeral_3_eq_3)
  show ?thesis using g unfolding v r by blast
qed

end
