(* ===== verification/Usb_Typing.thy ===== *)
theory Usb_Typing
  imports Usb_Requests
begin

unbundle bit_operations_syntax

text \<open>
  The keyboard as the user of vMain's input loop sees it: what \<open>read_usb_keyboard\<close> returns when a
  key was pressed and when not, and what polling it does to the ring of the interrupt endpoint.
\<close>

subsection \<open>One call on a register file\<close>

text \<open>The state after the TRB is enqueued and the doorbell rung.\<close>

definition polled :: "statics \<Rightarrow> (addr \<Rightarrow> u32) xhci \<Rightarrow> (addr \<Rightarrow> u32) xhci" where
  "polled st s = write_xhci_doorbell register_file (s_slot_id s) (ucast (s_dci s))
     (map_mem (write_ring_at (s_endpoint_ring s) (keyboard_trb st)) s)"

lemma polled_fields [simp]:
  "mem_of (polled st s) = write_ring_at (s_endpoint_ring s) (keyboard_trb st) (mem_of s)"
  "event_ring (polled st s) = event_ring s" "mmio_base (polled st s) = mmio_base s"
  "xhci_runtime_space (polled st s) = xhci_runtime_space s" "xhci_doorbell (polled st s) = xhci_doorbell s"
  "s_endpoint_ring (polled st s) = s_endpoint_ring s" "s_slot_id (polled st s) = s_slot_id s" "s_dci (polled st s) = s_dci s"
  "snd (world (polled st s)) = (snd (world s))(mmio_base s + ucast (xhci_doorbell s) + 4 * ucast (s_slot_id s) := ucast (s_dci s))"
  by (simp_all add: polled_def write_xhci_doorbell_def mem_of_def map_mem_def)

lemma rf_event_mem [simp]: "mem_of (write_event_ring register_file s) = mem_of s"
  by (simp add: write_event_ring_def rf_getTRB Let_def write_xhci_runtime_def mem_of_def)

lemma print_keys_rf [simp]: "print_keys register_file st s = s"
proof -
  have "fold (\<lambda>j s. s) js s = s" for js :: "nat list" and s :: "(addr \<Rightarrow> u32) xhci"
    by (induction js) simp_all
  then show ?thesis by (simp only: print_keys_def Let_def rf_print if_cancel)
qed

lemma map_mem_fields [simp]: "s_slot_id (map_mem f s) = s_slot_id s" "s_dci (map_mem f s) = s_dci s"
  by (simp_all add: map_mem_def)

lemma read_keyboard_polled:
  "read_usb_keyboard register_file st s =
     (if queued_at (polled st s) then
        case get_eventring register_file (polled st s) of
          None \<Rightarrow> None
        | Some (trb, s) \<Rightarrow> if trb_field normal_trb ''type'' trb s = 32 then Some (key_event register_file st trb s) else Some (0, s)
      else Some (0, polled st s))"
  by (simp add: read_usb_keyboard_def Let_def rf_queued polled_def split: option.split)

text \<open>A completed transfer of a report: the event at \<open>a\<close> and the normal TRB it names.\<close>

definition report_event :: "mem \<Rightarrow> addr \<Rightarrow> bool" where
  "report_event h a \<longleftrightarrow>
     (let e = trb_at h a; issuer = trb_at h (P2V (get_f transfer_event ''ptr'' e)) in
      get_f transfer_event ''type'' e = 32 \<and> get_f transfer_event ''code'' e \<in> {1, 13} \<and>
      get_f transfer_event ''ptr'' e \<noteq> 0 \<and> get_f normal_trb ''type'' issuer = 1)"

lemma type_field: "get_f normal_trb ''type'' t = get_f transfer_event ''type'' t" for t :: trb
  by (simp add: get_f_def normal_trb_def transfer_event_def)

lemma key_event_report:
  assumes "report_event (mem_of s) a"
  shows "key_event register_file st a s = (key_char st (keybuf st 0 s AND 0x22 \<noteq> 0) (keybuf st 2 s), s)"
  using assms by (simp add: key_event_def report_event_def trb_field_def trb_at_def Let_def)

lemma read_keyboard_event:
  assumes "queued_at (polled st s)" "report_event (mem_of (polled st s)) (P2V (erdp_of (polled st s) AND NOT 0x0f))"
  shows "read_usb_keyboard register_file st s = Some
    (key_char st (keybuf st 0 (polled st s) AND 0x22 \<noteq> 0) (keybuf st 2 (polled st s)), write_event_ring register_file (polled st s))"
proof -
  let ?s = "write_event_ring register_file (polled st s)" and ?a = "P2V (erdp_of (polled st s) AND NOT 0x0f)"
  have g: "get_eventring register_file (polled st s) = Some (?a, ?s)"
    using assms(1) by (simp add: get_eventring_def rf_getTRB wait_event.simps rf_queued)
  have t: "trb_field normal_trb ''type'' ?a ?s = 32"
    using assms(2) by (simp add: trb_field_def type_field report_event_def Let_def trb_at_def del: polled_fields)
  have "keybuf st j ?s = keybuf st j (polled st s)" for j by (simp add: keybuf_def del: polled_fields)
  then show ?thesis
    using key_event_report [of ?s ?a st] assms t
    by (simp add: read_keyboard_polled g del: polled_fields)
qed

text \<open>Without an event the call returns 0; the TRB stays enqueued.\<close>

lemma read_keyboard_idle:
  "\<not> queued_at (polled st s) \<Longrightarrow> read_usb_keyboard register_file st s = Some (0, polled st s)"
  by (simp add: read_keyboard_polled)

subsection \<open>Letters\<close>

text \<open>The usage identifiers 4 to 29 of the HID keyboard page are the letters.\<close>

lemma key_letters:
  assumes "i < 26"
  shows "key_char st shift (word_of_nat (4 + i)) = (if shift then 0x41 else 0x61) + word_of_nat i"
proof -
  have u: "unat (word_of_nat (4 + i) :: u8) = 4 + i"
    using assms by (simp only: unsigned_of_nat, subst take_bit_nat_eq_self) simp_all
  have l: "length keytable0 = 144" "length keytable1 = 144" by (simp_all add: keytable0_def keytable1_def chars_def)
  have "\<forall>i \<in> {..<26}. keytable0 ! (4 + i) = 0x61 + word_of_nat i \<and> keytable1 ! (4 + i) = 0x41 + word_of_nat i"
    by (simp add: keytable0_def keytable1_def chars_def lessThan_nat_numeral lessThan_Suc)
  then show ?thesis using assms l u by (simp add: key_char_def Let_def)
qed

text \<open>
  C16: A key of a letter comes out as that letter, in upper case if one of the shift bits is set: when
  the event ring holds a successful or short transfer of the keyboard's report, which has the
  modifiers in its first and the key in its third byte, \<open>read_usb_keyboard\<close> returns the
  character. In every case one more transfer is enqueued for the next report.
\<close>
theorem read_usb_keyboard_letter:
  assumes "queued_at (polled st s)" and "report_event (mem_of (polled st s)) (P2V (erdp_of (polled st s) AND NOT 0x0f))"
    and "keybuf st 2 (polled st s) = word_of_nat (4 + i)" and "i < 26"
  shows "\<exists>s'. read_usb_keyboard register_file st s =
      Some ((if keybuf st 0 (polled st s) AND 0x22 \<noteq> 0 then 0x41 else 0x61) + word_of_nat i, s') \<and>
    mem_of s' = write_ring_at (s_endpoint_ring s) (keyboard_trb st) (mem_of s)"
  using read_keyboard_event [OF assms(1,2)] key_letters [OF assms(4)] assms(3) by (simp del: of_nat_add)

subsection \<open>Polling\<close>

fun polls :: "nat \<Rightarrow> 'd hw \<Rightarrow> statics \<Rightarrow> 'd xhci \<Rightarrow> (u8 list \<times> 'd xhci) option" where
  "polls 0 hw st s = Some ([], s)"
| "polls (Suc n) hw st s = (case read_usb_keyboard hw st s of
     None \<Rightarrow> None
   | Some (c, s) \<Rightarrow> (case polls n hw st s of None \<Rightarrow> None | Some (cs, s) \<Rightarrow> Some (c # cs, s)))"

text \<open>
  An idle keyboard: the event ring holds no event, and neither the doorbell nor the transfer ring
  touch it.
\<close>

definition idle_keyboard :: "(addr \<Rightarrow> u32) xhci \<Rightarrow> bool" where
  "idle_keyboard s \<longleftrightarrow>
     (let p = s_endpoint_ring s; r = read_ring (mem_of s) p; a = P2V (erdp_of s AND NOT 0x0f);
          door = ucast (xhci_doorbell s) + 4 * ucast (s_slot_id s); rt = ucast (xhci_runtime_space s) in
      memory_ring p (mem_of s) \<and> ring_ok r \<and> \<not> queued_at s \<and>
      bytes_at a 16 \<inter> bytes_at p 20 = {} \<and> bytes_at a 16 \<inter> bytes_at (rbuf r) 4096 = {} \<and>
      door \<noteq> rt + 0x38 \<and> door \<noteq> rt + (0x3c :: u64))"

lemma idle_polled:
  assumes "idle_keyboard s"
  shows "idle_keyboard (polled st s)" "\<not> queued_at (polled st s)"
proof -
  let ?p = "s_endpoint_ring s" and ?h = "mem_of s"
  let ?r = "read_ring ?h ?p" and ?a = "P2V (erdp_of s AND NOT 0x0f)"
  have i: "memory_ring ?p ?h" "ring_ok ?r" "\<not> queued_at s" "bytes_at ?a 16 \<inter> bytes_at ?p 20 = {}"
    "bytes_at ?a 16 \<inter> bytes_at (rbuf ?r) 4096 = {}"
    and d: "ucast (xhci_doorbell s) + 4 * ucast (s_slot_id s) \<noteq> ucast (xhci_runtime_space s) + (0x38 :: u64)"
    "ucast (xhci_doorbell s) + 4 * ucast (s_slot_id s) \<noteq> ucast (xhci_runtime_space s) + (0x3c :: u64)"
    using assms by (simp_all add: idle_keyboard_def Let_def)
  have e: "erdp_of (polled st s) = erdp_of s" using d by (simp add: erdp_of_def add.assoc)
  obtain r' h' where w: "write_ring (keyboard_trb st) (?r, ?h) = (r', h')" by (metis surj_pair)
  note parts = write_ring_at_parts [OF i(1,2) w] and ok = ring_ok_write [OF i(2) w]
  have "trb_at (write_ring_at ?p (keyboard_trb st) ?h) ?a = trb_at ?h ?a"
    using i by (intro trb_at_cong write_ring_at_other) auto
  then show nq: "\<not> queued_at (polled st s)" using i(3) by (simp add: queued_at_def e trb_at_def)
  show "idle_keyboard (polled st s)"
    using parts(1,2) ok i d nq by (simp add: idle_keyboard_def Let_def e)
qed

lemma idle_polls:
  "idle_keyboard s \<Longrightarrow> \<exists>s'. polls n register_file st s = Some (replicate n 0, s') \<and>
     mem_of s' = fold (write_ring_at (s_endpoint_ring s)) (replicate n (keyboard_trb st)) (mem_of s)"
proof (induction n arbitrary: s)
  case (Suc n)
  show ?case using Suc.IH [OF idle_polled(1) [OF Suc.prems, of st]] read_keyboard_idle [OF idle_polled(2) [OF Suc.prems, of st]] by auto
qed simp

lemma keyboard_item: "trb_item (keyboard_trb st)"
  by (simp add: trb_item_slices keyboard_trb_def init_normal_trb_def normal_trb_def)

text \<open>
  C38: The input loop asks again and again, and every call enqueues another transfer although the
  earlier ones still wait for a key. With a new ring of 256 entries and no key pressed, 256 calls
  return 0 each and have overrun the ring: a controller that has completed nothing yet finds it
  empty.
\<close>
theorem polling_overruns:
  assumes "idle_keyboard s" and "read_ring (mem_of s) (s_endpoint_ring s) = r"
    and "ring_state 0 True r (mem_of s) []" and "ring_index r = 0" and "cycle_bit r"
  shows "\<exists>s'. polls 256 register_file st s = Some (replicate 256 0, s') \<and>
    fetch_at (s_endpoint_ring s) (v2p (rbuf r), True) (mem_of s') = None"
proof -
  let ?t = "keyboard_trb st"
  obtain s' where s': "polls 256 register_file st s = Some (replicate 256 0, s')"
    "mem_of s' = fold (write_ring_at (s_endpoint_ring s)) (replicate 256 ?t) (mem_of s)"
    using idle_polls [OF assms(1)] by blast
  have "memory_ring (s_endpoint_ring s) (mem_of s)" using assms(1) by (simp add: idle_keyboard_def Let_def)
  from memory_overrun [OF this assms(2-5), of "replicate 255 ?t" ?t]
  have "fetch_at (s_endpoint_ring s) (v2p (rbuf r), True)
      (fold (write_ring_at (s_endpoint_ring s)) (replicate 255 ?t @ [?t]) (mem_of s)) = None"
    using keyboard_item [of st] by (simp add: list_all_iff del: fold_append)
  moreover have "replicate 255 ?t @ [?t] = replicate 256 ?t"
    using replicate_append_same [of 255 ?t] replicate_add [of 255 1 ?t] by simp
  ultimately show ?thesis using s' by simp
qed

subsection \<open>Concrete keyboards\<close>

text \<open>
  The ring of Usb_Requests.thy as the ring of the keyboard, the event ring at the physical address
  \<open>0x300000\<close>.
\<close>

definition demo_keyboard :: "(mem \<Rightarrow> mem) \<Rightarrow> (addr \<Rightarrow> u32) xhci" where
  "demo_keyboard f = demo_xhci\<lparr>s_endpoint_ring := 0xffff806000200000, s_slot_id := 1, s_dci := 3,
     world := (\<lparr>heap = f demo_transfer_ring, ml_next = 0, ml_pages = 0\<rparr>, (\<lambda>_. 0)(0x1038 := 0x300000))\<rparr>"

lemma demo_keyboard_fields: "mem_of (demo_keyboard f) = f demo_transfer_ring" "s_endpoint_ring (demo_keyboard f) = 0xffff806000200000"
  "erdp_of (demo_keyboard f) = 0x300000" "event_ring (demo_keyboard f) = event_ring demo_xhci"
  "xhci_doorbell (demo_keyboard f) = 0x2000" "xhci_runtime_space (demo_keyboard f) = 0x1000" "s_slot_id (demo_keyboard f) = 1"
  "mmio_base (demo_keyboard f) = 0"
  by (simp_all add: demo_keyboard_def demo_xhci_def mem_of_def erdp_of_def)

lemma demo_event_addr: "P2V (0x300000 AND NOT 0x0f) = 0xffff806000300000" "P2V 0x300000 = 0xffff806000300000"
  by (simp_all add: P2V_def PAGE_OFFSET_def)

lemma demo_ring_facts:
  "read_ring demo_transfer_ring 0xffff806000200000 = \<lparr>rbuf = 0xffff806000100000, cycle_bit = True, ring_size = 256, ring_index = 0\<rparr>"
  "ring_state 0 True \<lparr>rbuf = 0xffff806000100000, cycle_bit = True, ring_size = 256, ring_index = 0\<rparr> demo_transfer_ring []"
  "memory_ring 0xffff806000200000 demo_transfer_ring"
proof -
  have "bytes_at 0xffff806000200000 20 \<inter> bytes_at (0xffff806000100000 :: addr) 4096 = {}"
    by (rule bytes_at_disjoint) simp_all
  then show "read_ring demo_transfer_ring 0xffff806000200000 = \<lparr>rbuf = 0xffff806000100000, cycle_bit = True, ring_size = 256, ring_index = 0\<rparr>"
    "ring_state 0 True \<lparr>rbuf = 0xffff806000100000, cycle_bit = True, ring_size = 256, ring_index = 0\<rparr> demo_transfer_ring []"
    "memory_ring 0xffff806000200000 demo_transfer_ring"
    using empty_ring_state [of "0xffff806000100000" "0xffff806000200000" "\<lambda>_. 0"]
    by (simp_all add: demo_transfer_ring_def ring_page_def PAGE_OFFSET_def)
qed

lemma demo_apart:
  assumes "0xffff806000300000 \<le> unat a" "unat a + n \<le> 2 ^ 64"
  shows "bytes_at a n \<inter> bytes_at 0xffff806000200000 20 = {}" "bytes_at a n \<inter> bytes_at 0xffff806000100000 4096 = {}"
  using assms by (intro bytes_at_disjoint; simp)+

lemma demo_keyboard_idle: "idle_keyboard (demo_keyboard id)"
proof -
  have "load 16 demo_transfer_ring 0xffff806000300000 = 0"
    using demo_apart [of "0xffff806000300000" 16]
    by (intro load_zero) (auto simp: demo_transfer_ring_def intro!: store_ring_other [THEN trans])
  then show ?thesis
    using demo_ring_facts demo_apart [of "0xffff806000300000" 16]
    by (simp add: idle_keyboard_def Let_def demo_keyboard_fields demo_event_addr queued_at_def load_struct_def demo_regs ring_state_def)
qed

theorem polling_overruns_witness:
  "\<exists>s'. polls 256 register_file demo_statics (demo_keyboard id) = Some (replicate 256 0, s') \<and>
    fetch_at 0xffff806000200000 (v2p 0xffff806000100000, True) (mem_of s') = None"
  using polling_overruns [OF demo_keyboard_idle, of "\<lparr>rbuf = 0xffff806000100000, cycle_bit = True, ring_size = 256, ring_index = 0\<rparr>" demo_statics]
    demo_ring_facts by (simp add: demo_keyboard_fields)

text \<open>The key 11 with the left shift key, the letter H.\<close>

definition demo_transfer_event :: trb where
  "demo_transfer_event = set_f transfer_event ''ptr'' 0x400000 (set_f transfer_event ''code'' 1
     (set_f transfer_event ''type'' 32 (set_f transfer_event ''c'' 1 0)))"

definition pressed :: "mem \<Rightarrow> mem" where
  "pressed h = store_struct 0xffff806000300000 demo_transfer_event
     (store_struct 0xffff806000400000 (init_normal_trb 0) (h(0xffff806000500000 := 2, 0xffff806000500002 := 11)))"

lemma demo_event_fields:
  "get_f transfer_event ''type'' demo_transfer_event = 32" "get_f transfer_event ''code'' demo_transfer_event = 1"
  "get_f transfer_event ''ptr'' demo_transfer_event = 0x400000" "get_f normal_trb ''c'' demo_transfer_event = 1"
  "get_f normal_trb ''type'' (init_normal_trb 0) = 1"
  by (simp_all add: demo_transfer_event_def init_normal_trb_def get_f_def set_f_def transfer_event_def normal_trb_def
      bf_get_set bf_get_set_other)

lemma pressed_low: "unat x < 0xffff806000300000 \<Longrightarrow> pressed h x = h x"
  by (auto simp: pressed_def store_struct_def store_other in_bytes_at)

lemma pressed_reads: "trb_at (pressed h) 0xffff806000300000 = demo_transfer_event" "trb_at (pressed h) 0xffff806000400000 = init_normal_trb 0"
  "pressed h 0xffff806000500000 = 2" "pressed h 0xffff806000500002 = 11"
proof -
  have d: "bytes_at 0xffff806000400000 16 \<inter> bytes_at (0xffff806000300000 :: addr) 16 = {}"
    by (rule bytes_at_disjoint) simp_all
  have s: "trb_at (store_struct a t m) a = t" for a t m by (simp add: trb_at_def trb_load_store)
  show "trb_at (pressed h) 0xffff806000300000 = demo_transfer_event" by (simp add: pressed_def s)
  have "trb_at (store_struct 0xffff806000300000 u m) 0xffff806000400000 = trb_at m 0xffff806000400000" for m and u :: trb
    using d by (intro trb_at_cong) (auto simp: store_struct_def intro!: store_other)
  then show "trb_at (pressed h) 0xffff806000400000 = init_normal_trb 0" by (simp add: pressed_def s)
  show "pressed h 0xffff806000500000 = 2" "pressed h 0xffff806000500002 = 11"
    by (simp_all add: pressed_def store_struct_def store_other in_bytes_at)
qed

lemma demo_polled:
  assumes "0xffff806000300000 \<le> unat x"
  shows "write_ring_at 0xffff806000200000 d (pressed demo_transfer_ring) x = pressed demo_transfer_ring x"
proof -
  have r: "read_ring (pressed demo_transfer_ring) 0xffff806000200000 = read_ring demo_transfer_ring 0xffff806000200000"
    by (intro read_ring_cong pressed_low) (simp_all add: in_bytes_at)
  have "x \<notin> bytes_at 0xffff806000200000 20" "x \<notin> bytes_at 0xffff806000100000 4096" using assms by (simp_all add: in_bytes_at)
  then show ?thesis
    using demo_ring_facts r by (intro write_ring_at_other) (simp_all add: memory_ring_def ring_state_def)
qed

theorem read_usb_keyboard_letter_witness:
  "\<exists>s'. read_usb_keyboard register_file demo_statics (demo_keyboard pressed) = Some (of_char CHR ''H'', s')"
proof -
  let ?s = "demo_keyboard pressed" and ?st = demo_statics
  let ?M = "write_ring_at 0xffff806000200000 (keyboard_trb ?st) (pressed demo_transfer_ring)"
  have e: "erdp_of (polled ?st ?s) = 0x300000" by (simp add: erdp_of_def demo_keyboard_def demo_xhci_def)
  have m: "mem_of (polled ?st ?s) = ?M" by (simp add: demo_keyboard_fields)
  have t: "trb_at ?M a = trb_at (pressed demo_transfer_ring) a" if "0xffff806000300000 \<le> unat a" "unat a + 16 \<le> 2 ^ 64" for a
    using that by (intro trb_at_cong demo_polled) (simp add: in_bytes_at)
  have r: "report_event (mem_of (polled ?st ?s)) (P2V (erdp_of (polled ?st ?s) AND NOT 0x0f))"
    unfolding m e by (simp add: report_event_def Let_def demo_event_addr t pressed_reads demo_event_fields)
      (simp add: P2V_def PAGE_OFFSET_def t pressed_reads demo_event_fields)
  have q: "queued_at (polled ?st ?s)"
    unfolding queued_at_def m e by (simp add: demo_event_addr t pressed_reads demo_event_fields demo_keyboard_fields demo_regs flip: trb_at_def)
  have k: "keybuf ?st 0 (polled ?st ?s) = 2" "keybuf ?st 2 (polled ?st ?s) = word_of_nat (4 + 7)"
    unfolding keybuf_def m by (simp_all add: demo_statics_def demo_polled pressed_reads)
  from read_usb_keyboard_letter [OF q r k(2)] k(1) show ?thesis by auto
qed

end
