(* ===== verification/Kernel.thy ===== *)
theory Kernel
  imports Usb_Typing Xhci_Capabilities Interrupts Mem_Props Graphics Paging Format
begin

unbundle bit_operations_syntax

text \<open>
  \<open>vMain\<close> of kernel/kernel.c: the components in the order the kernel starts them, on the state of
  Xhci.thy (the statics of the USB driver, memory with the allocator, the devices).
\<close>

subsection \<open>Components on the kernel's state\<close>

definition on_memory :: "(mem_state \<Rightarrow> mem_state) \<Rightarrow> 'd xhci \<Rightarrow> 'd xhci" where
  "on_memory f s = s\<lparr>world := apfst f (world s)\<rparr>"

definition run_memory :: "(mem_state \<Rightarrow> ((panic + 'a) \<times> mem_state) option) \<Rightarrow> ('a, 'd) run" where
  "run_memory m s = (case m (fst (world s)) of
     None \<Rightarrow> None
   | Some (r, k) \<Rightarrow> Some (r, s\<lparr>world := (k, snd (world s))\<rparr>))"

text \<open>
  A kernel that may have stopped, in a panic or in a loop that does not end; then nothing changes
  any more. The instructions act on its devices as long as it runs.
\<close>

type_synonym 'd kernel = "((panic + unit) \<times> 'd xhci) option"

definition while_running :: "(unit, 'd) run \<Rightarrow> 'd kernel \<Rightarrow> 'd kernel" where
  "while_running m k = (case k of Some (Inr _, s) \<Rightarrow> m s | _ \<Rightarrow> k)"

definition read_running :: "((mem_state \<times> 'd) \<Rightarrow> 'a \<times> (mem_state \<times> 'd)) \<Rightarrow> 'a \<Rightarrow> 'd kernel \<Rightarrow> 'a \<times> 'd kernel" where
  "read_running f x k = (case k of
     Some (Inr u, s) \<Rightarrow> (case f (world s) of (v, w) \<Rightarrow> (v, Some (Inr u, s\<lparr>world := w\<rparr>)))
   | _ \<Rightarrow> (x, k))"

definition write_running :: "((mem_state \<times> 'd) \<Rightarrow> (mem_state \<times> 'd)) \<Rightarrow> 'd kernel \<Rightarrow> 'd kernel" where
  "write_running f = while_running (act (\<lambda>s. s\<lparr>world := f (world s)\<rparr>))"

definition running_hardware :: "'d hw \<Rightarrow> 'd kernel hardware" where
  "running_hardware hw = \<lparr>in8 = \<lambda>p. read_running (in8 hw p) 0, out8 = \<lambda>p v. write_running (out8 hw p v),
     in32 = \<lambda>p. read_running (in32 hw p) 0, out32 = \<lambda>p v. write_running (out32 hw p v),
     mmio_read = \<lambda>a. read_running (mmio_read hw a) 0, mmio_write = \<lambda>a v. write_running (mmio_write hw a v),
     cpuid_edx = cpuid_edx hw,
     readMSR = \<lambda>r k. fst (read_running (\<lambda>w. (readMSR hw r w, w)) 0 k), writeMSR = \<lambda>r v. write_running (writeMSR hw r v),
     printk_to = \<lambda>m. write_running (printk_to hw m)\<rparr>"

text \<open>\<open>init_pci\<close> calls \<open>init_xhci\<close> for every controller.\<close>

definition pci_and_xhci :: "'d hw \<Rightarrow> statics \<Rightarrow> (unit, 'd) run" where
  "pci_and_xhci hw st s =
     init_pci (running_hardware hw) (\<lambda>dev. while_running (init_xhci hw st dev)) (Some (Inr (), s))"

subsection \<open>The input loop\<close>

text \<open>\<open>p\<close> is the string of one character, or the empty one: it is the format of \<open>printk\<close>.\<close>

definition key_text :: "u8 \<Rightarrow> string" where
  "key_text c = (if c = 0 then [] else [char_of (unat c)])"

text \<open>The loop does not end; \<open>input_turns n\<close> is its first \<open>n\<close> turns with what they read.\<close>

fun input_turns :: "nat \<Rightarrow> 'd hw \<Rightarrow> statics \<Rightarrow> (u8 list, 'd) run" where
  "input_turns 0 hw st = ret []"
| "input_turns (Suc n) hw st =
     seq (\<lambda>s. case read_usb_keyboard hw st s of None \<Rightarrow> None | Some (c, s) \<Rightarrow> ret c s) (\<lambda>c.
     seq (act (print_run hw (key_text c) [])) (\<lambda>_.
     seq (input_turns n hw st) (\<lambda>cs. ret (c # cs))))"

subsection \<open>\<open>vMain\<close>\<close>

text \<open>
  What the boot program hands over (\<open>memmap\<close>, the mode of \<open>gop\<close>), where the linker put the task state
  segment and the entry points, and the page tables in CR3.
\<close>

record boot_info =
  cr3 :: u64
  boot_memmap :: uefi_memory_map
  gop_info :: gop_mode
  tss_at :: addr
  entries :: entry_points

text \<open>
  The devices depend on the graphics mode because \<open>printk\<close> ends there: \<open>init_console\<close> connects it
  with \<open>put_console\<close> on the screen \<open>init_gop\<close> set up (Console.thy). The flags of include/flags.h leave the
  memory test out and the frame buffer in; \<open>sti\<close> is not part of the state.
\<close>

definition start_screen :: "boot_info \<Rightarrow> (gop_state, 'd) run" where
  "start_screen bi =
     seq (act (on_memory (actual_init_paging (cr3 bi)))) (\<lambda>_.
     calc (\<lambda>s. case init_gop (gop_info bi) (mem_of s) of (gs, h) \<Rightarrow> (gs, map_mem (\<lambda>_. h) s)))"

definition vMain ::
  "(gop_state \<Rightarrow> 'd hw) \<Rightarrow> statics \<Rightarrow> boot_info \<Rightarrow> nat \<Rightarrow> (segments \<times> irq_state \<times> u8 list, 'd) run" where
  "vMain hwf st bi n =
     seq (start_screen bi) (\<lambda>gs. let hw = hwf gs in
     seq (act (print_run hw (''Welcome Vim-OS!'' @ [CHR 0x0A]) [])) (\<lambda>_.
     seq (run_memory (\<lambda>k. map_option (Pair (Inr ())) (init_mem (boot_memmap bi) k))) (\<lambda>_.
     seq (run_memory (init_segments (tss_at bi))) (\<lambda>segs.
     seq (calc (\<lambda>s. case init_interrupt (hardware.truncate hw) (entries bi) (world s) of (irq, w) \<Rightarrow> (irq, s\<lparr>world := w\<rparr>))) (\<lambda>irq.
     seq (act (print_run hw (''init_pci'' @ [CHR 0x0A]) [])) (\<lambda>_.
     seq (pci_and_xhci hw st) (\<lambda>_.
     seq (usb_process_events hw st) (\<lambda>_.
     seq (act (print_run hw ''input>'' [])) (\<lambda>_.
     seq (input_turns n hw st) (\<lambda>keys.
     ret (segs, irq, keys)))))))))))"

subsection \<open>Echo\<close>

lemma vsprintf_percent: "vsprintf ''%'' args = Some (''%'', 1)"
  by (simp add: vsprintf_def directive_def parse_width_def parse_precision_def skip_qualifier_def conversion_def peek_def
      is_digit_def Let_def)

text \<open>
  What is typed is what appears, although the character itself is the format string: the percent
  sign, too, is printed as it is, and 0 prints nothing.
\<close>
theorem echo_key: "vsprintf (key_text c) args = Some (key_text c, int (length (key_text c)))"
proof (cases "key_text c = ''%''")
  case True
  then show ?thesis by (simp add: vsprintf_percent)
next
  case False
  then have "CHR ''%'' \<notin> set (key_text c)" by (auto simp: key_text_def)
  from vsprintf_text [OF this, of "[]" args] show ?thesis by (simp add: vsprintf_def)
qed

subsection \<open>Too little memory\<close>

lemma seq_Some: "m s = Some (Inr x, s1) \<Longrightarrow> seq m f s = f x s1" "m s = Some (Inl e, s1) \<Longrightarrow> seq m f s = Some (Inl e, s1)"
  by (simp_all add: seq_def)

text \<open>
  C39: When no run of usable descriptors that \<open>init_mem\<close> enters into the free list has two pages,
  \<open>vMain\<close> panics in \<open>init_segments\<close>, before it touches an interrupt controller or a bus. A run that
  reaches to the end of the memory map is never entered, so this also happens with a large memory
  at the end of the map.
\<close>
theorem vMain_out_of_memory:
  assumes "start_screen bi s = Some (Inr gs, s1)" and "s2 = print_run (hwf gs) (''Welcome Vim-OS!'' @ [CHR 0x0A]) [] s1"
    and "mm = boot_memmap bi" and "unat (P2V (buffer mm)) + k * unat (descsize mm) = unat (P2V (buffer mm) + mapsize mm)"
    and "40 \<le> unat (descsize mm)" and "ds = descs_at (mem_of s2) (P2V (buffer mm)) (descsize mm) k" and "map_ok ds"
    and "node_bytes (runs (0, 0) ds) \<inter> bytes_at (P2V (buffer mm)) (k * unat (descsize mm)) = {}"
    and "ml_next (fst (world s2)) = 0" and "\<forall>b \<in> set (runs (0, 0) ds). snd b < 2"
  shows "\<exists>k'. vMain hwf st bi n s = Some (Inl (Panic ''rsp0_stack is NULL!''), s2\<lparr>world := (k', snd (world s2))\<rparr>)"
proof -
  obtain k' where k': "init_mem mm (fst (world s2)) = Some k'" "alloc_inv k' (runs (0, 0) ds)"
    using init_mem_runs [OF assms(4,5) assms(6) [unfolded mem_of_def] assms(7-9)] by blast
  have "abs_alloc 2 (runs (0, 0) ds) = None" using assms(10) by (auto simp: abs_alloc_None)
  from alloc_mem_None [OF k'(2) _ _ this] have a: "alloc_mem 2 k' = Some (0, k')" by simp
  have "init_segments (tss_at bi) k' = Some (Inl (Panic ''rsp0_stack is NULL!''), k')" by (simp add: init_segments_def a)
  then show ?thesis
    using assms(1-3) k'(1) by (simp add: vMain_def seq_Some Let_def) (auto simp: seq_def run_memory_def)
qed

text \<open>A machine whose registers keep their values, without a PCI bus, that records what is printed.\<close>

definition logging_machine :: "((addr \<Rightarrow> u32) \<times> print list) hw" where
  "logging_machine = \<lparr>in8 = \<lambda>_ w. (0xff, w), out8 = \<lambda>_ _ w. w, in32 = \<lambda>_ w. (0xffffffff, w), out32 = \<lambda>_ _ w. w,
     mmio_read = \<lambda>a (k, d, l). (d a, k, d, l), mmio_write = \<lambda>a v (k, d, l). (k, d(a := v), l),
     cpuid_edx = \<lambda>_. 0, readMSR = \<lambda>_ _. 0, writeMSR = \<lambda>_ _ w. w,
     printk_to = \<lambda>m (k, d, l). (k, d, l @ [m]), scroll_screen_to = \<lambda>w. w\<rparr>"

text \<open>The static variables as the loader leaves them.\<close>

definition boot_statics :: "mem_state \<times> 'd \<Rightarrow> 'd xhci" where
  "boot_statics w = \<lparr>xhci_caplength = 0, xhci_runtime_space = 0, xhci_doorbell = 0, xhci_extend_capability = 0,
     mmio_base = 0, cmd_ring = \<lparr>rbuf = 0, cycle_bit = False, ring_size = 0, ring_index = 0\<rparr>,
     event_ring = \<lparr>rbuf = 0, cycle_bit = False, ring_size = 0, ring_index = 0\<rparr>,
     csz = False, device_contexts = 0, dev_state = \<lambda>_. 0, dev_ring = \<lambda>_. 0,
     device_speed = \<lambda>_. 0, current_port = -1, start = 0, s_endpoint_ring = 0, s_slot_id = 0, s_dci = 0,
     usb_keyboard_found = False, world = w\<rparr>"

lemma logging_print: "print_run logging_machine f a s = s\<lparr>world := (fst (world s), fst (snd (world s)), snd (snd (world s)) @ [(f, a)])\<rparr>"
  by (cases "world s") (auto simp: print_run_def logging_machine_def)

lemma logging_interrupt:
  obtains irq where "init_interrupt (hardware.truncate logging_machine) ep w = (irq, w)"
proof -
  have "init_pic (hardware.truncate logging_machine) w = w" "disable_pic (hardware.truncate logging_machine) w = w"
    by (simp_all add: init_pic_def disable_pic_def pic_init_writes_def logging_machine_def hardware.truncate_def)
  then show thesis
    by (intro that) (simp add: init_interrupt_def Let_def check_apic_def, simp add: logging_machine_def hardware.truncate_def)
qed

lemma logging_pci: "pci_and_xhci logging_machine st s = Some (Inr (), s)"
proof -
  let ?hw = "running_hardware logging_machine"
  have r: "pci_read ?hw b d f off (Some (Inr (), s)) = (0xffff, Some (Inr (), s))" if "off AND 2 = 0 \<or> off AND 2 = 2" for b d f off
    using that by (auto simp: pci_read_def running_hardware_def logging_machine_def read_running_def write_running_def
        while_running_def act_def ret_def Let_def)
  have "fold (\<lambda>func k. let (v, k2) = pci_read ?hw 0 0 func 0 k in if v = 0xffff then k2 else g func k2) fs (Some (Inr (), s)) = Some (Inr (), s)"
    for fs g by (induction fs) (simp_all add: r)
  then show ?thesis by (simp add: pci_and_xhci_def init_pci_def readHeaderType_def r isSingleFunctionDevice_def Let_def)
qed

subsection \<open>The prompt\<close>

lemma start_screen_world:
  "\<exists>gs h. start_screen bi s = Some (Inr gs, s\<lparr>world := ((fst (world s))\<lparr>heap := h\<rparr>, snd (world s))\<rparr>)"
proof -
  obtain gs h where g: "init_gop (gop_info bi) (mem_of (on_memory (actual_init_paging (cr3 bi)) s)) = (gs, h)" by force
  show ?thesis
    by (cases "world s") (use g in \<open>auto simp: start_screen_def calc_def ret_def on_memory_def map_mem_def actual_init_paging_def\<close>)
qed

text \<open>
  Without a controller the static variables are all 0: the event ring is the entry at the physical
  address 0, and it holds an event if its cycle bit is 0.
\<close>

lemma no_controller_event:
  assumes "mmio_base s = 0" "xhci_runtime_space s = 0" "fst (snd (world s)) = (\<lambda>_. 0)"
  shows "er_isQueued logging_machine s = ((get_f normal_trb ''c'' (load_struct (mem_of s) PAGE_OFFSET :: trb) = 1) = cycle_bit (event_ring s), s)"
proof -
  have "mmio_get logging_machine a s = (0, s)" for a
    using assms(3) by (cases "world s") (auto simp: mmio_get_def logging_machine_def)
  then show ?thesis using assms by (simp add: er_isQueued_def getTRB_def read_xhci_runtime_def P2V_def)
qed

lemma nodes_free: "wf_blocks bs \<Longrightarrow> node_bytes bs \<subseteq> free_bytes bs"
proof (induction bs)
  case (Cons b bs)
  obtain a n where b: "b = (a, n)" by force
  with Cons hdr_in_block [of a n] show ?case by auto
qed simp

lemma boot_statics_simps [simp]:
  "(boot_statics w)\<lparr>world := w'\<rparr> = boot_statics w'" "world (boot_statics w) = w" "mmio_base (boot_statics w) = 0"
  "xhci_runtime_space (boot_statics w) = 0" "cycle_bit (event_ring (boot_statics w)) = False"
  by (simp_all add: boot_statics_def)

lemma prompt_idle:
  assumes "get_f normal_trb ''c'' (load_struct (heap k) PAGE_OFFSET :: trb) = 1"
  shows "usb_process_events logging_machine st (boot_statics (k, (\<lambda>_. 0), l)) = Some (Inr (), boot_statics (k, (\<lambda>_. 0), l))"
  using no_controller_event [of "boot_statics (k, (\<lambda>_. 0), l)"] assms
  by (simp add: usb_process_events.simps ret_def mem_of_def)

text \<open>\<open>init_mem\<close> and \<open>init_segments\<close> one after the other.\<close>

lemma memory_and_segments:
  assumes "unat (P2V (buffer mm)) + m * unat (descsize mm) = unat (P2V (buffer mm) + mapsize mm)"
    and "40 \<le> unat (descsize mm)" and "ds = descs_at (heap k) (P2V (buffer mm)) (descsize mm) m" and "map_ok ds"
    and "node_bytes (runs (0, 0) ds) \<inter> bytes_at (P2V (buffer mm)) (m * unat (descsize mm)) = {}"
    and "ml_next k = 0" and big: "\<exists>b \<in> set (runs (0, 0) ds). 4 \<le> unat (snd b)"
  obtains k1 segs k2 where "init_mem mm k = Some k1" "init_segments tss_addr k1 = Some (Inr segs, k2)"
    "\<And>x. x \<notin> free_bytes (runs (0, 0) ds) \<Longrightarrow> heap k2 x = heap k x"
proof -
  let ?bs = "runs (0, 0) ds"
  obtain k1 where k1: "init_mem mm k = Some k1" "alloc_inv k1 ?bs" "\<forall>x. x \<notin> node_bytes ?bs \<longrightarrow> heap k1 x = heap k x"
    using init_mem_runs [OF assms(1-6)] by blast
  have "owns k1 (free_bytes ?bs)" using k1(2) by (auto simp: owns_def)
  then obtain segs k2 where k2: "init_segments tss_addr k1 = Some (Inr segs, k2)" "\<And>x. x \<notin> free_bytes ?bs \<Longrightarrow> heap k2 x = heap k1 x"
  proof (cases rule: init_segments_ends [where tss_addr = tss_addr])
    case (no_stack msg s')
    then show ?thesis using k1(2) big by force
  qed blast
  have nodes: "node_bytes ?bs \<subseteq> free_bytes ?bs" using k1(2) by (intro nodes_free) (simp add: alloc_inv_def)
  have "heap k2 x = heap k x" if "x \<notin> free_bytes ?bs" for x
  proof -
    have "x \<notin> node_bytes ?bs" using that nodes by blast
    then show ?thesis using k1(3) k2(2) [OF that] by simp
  qed
  then show thesis using that k1(1) k2(1) by blast
qed


subsection \<open>A concrete machine\<close>

text \<open>One usable run of 16 pages, an event ring entry of the other lap at the physical address 0, a screen without pixels.\<close>

definition demo_boot_memory :: mem_state where
  "demo_boot_memory = demo_map\<lparr>heap := (heap demo_map)(0xffff80600000000c := 1)\<rparr>"

definition demo_boot :: "u64 \<Rightarrow> boot_info" where
  "demo_boot msize = \<lparr>cr3 = 0x200000, boot_memmap = \<lparr>buffer = 0x1000, mapsize = msize, descsize = 48\<rparr>,
     gop_info = \<lparr>HorizontalResolution = 0, VerticalResolution = 0, PixelFormat = 1, PixelsPerScanLine = 0, FrameBufferBase = 0\<rparr>,
     tss_at = 0xffff800000010000, entries = demo_entries\<rparr>"

lemma store_zero: "(\<And>x. x \<in> bytes_at a n \<Longrightarrow> h x = 0) \<Longrightarrow> store n a 0 h = h"
proof (induction n arbitrary: a)
  case (Suc n)
  have "h a = 0" by (rule Suc.prems) (simp add: bytes_at_Suc)
  then have "h(a := 0) = h" by auto
  moreover have "store n (a + 1) 0 h = h" by (rule Suc.IH, rule Suc.prems) (simp add: bytes_at_Suc)
  ultimately show ?case by simp
qed simp

lemma demo_screen:
  "\<exists>gs. start_screen (demo_boot msize) (boot_statics (demo_boot_memory, d)) = Some (Inr gs, boot_statics (demo_boot_memory, d))"
proof -
  have "write64 0xffff806000200000 0 (heap demo_boot_memory) = heap demo_boot_memory"
    unfolding write64_def by (simp, rule store_zero) (auto simp: demo_boot_memory_def demo_map_def in_bytes_at)
  then have "actual_init_paging 0x200000 demo_boot_memory = demo_boot_memory"
    by (simp add: actual_init_paging_def P2V_def PAGE_OFFSET_def)
  then show ?thesis
    by (simp add: start_screen_def seq_calc demo_boot_def calc_def ret_def on_memory_def init_gop_def clear_screen_def map_mem_def mem_of_def Let_def)
qed

lemma demo_boot_descs:
  "descs_at (heap demo_boot_memory) 0xffff806000001000 48 2 =
    [\<lparr>Type = 7, PhysicalStart = 0x100000, VirtualStart = 0, NumberOfPage = 16, Attribute = 0\<rparr>,
     \<lparr>Type = 0, PhysicalStart = 0, VirtualStart = 0, NumberOfPage = 0, Attribute = 0\<rparr>]"
  unfolding descs_at_2
  by (simp add: demo_boot_memory_def demo_map_def read_desc_def read32_def read64_def load_numeral)

lemmas usable_defs = usable_def isUsableMemType_def EfiLoaderCode_def EfiLoaderData_def EfiBootServicesCode_def
  EfiBootServicesData_def EfiConventionalMemory_def

lemma demo_boot_runs:
  "runs (0, 0) (descs_at (heap demo_boot_memory) 0xffff806000001000 48 2) = [(0xffff806000100000, 16)]"
  "map_ok (descs_at (heap demo_boot_memory) 0xffff806000001000 48 2)"
  "runs (0, 0) (take 1 (descs_at (heap demo_boot_memory) 0xffff806000001000 48 2)) = []"
  "map_ok (take 1 (descs_at (heap demo_boot_memory) 0xffff806000001000 48 2))"
  by (simp_all add: demo_boot_descs usable_defs extend_run_def region_bytes_def P2V_def PAGE_OFFSET_def)

lemma demo_boot_desc:
  "descs_at (heap demo_boot_memory) 0xffff806000001000 48 (Suc 0) =
    take 1 (descs_at (heap demo_boot_memory) 0xffff806000001000 48 2)"
  by (simp add: numeral_2_eq_2)

lemma demo_boot_start:
  "ml_next demo_boot_memory = 0" "boot_memmap (demo_boot n) = \<lparr>buffer = 0x1000, mapsize = n, descsize = 48\<rparr>"
  "P2V 0x1000 = 0xffff806000001000"
  by (simp_all add: demo_boot_memory_def demo_map_def demo_boot_def P2V_def PAGE_OFFSET_def)


theorem vMain_out_of_memory_witness:
  "\<exists>s'. vMain (\<lambda>_. logging_machine) demo_statics (demo_boot 48) 0 (boot_statics (demo_boot_memory, (\<lambda>_. 0), [])) =
    Some (Inl (Panic ''rsp0_stack is NULL!''), s')"
proof -
  let ?s = "boot_statics (demo_boot_memory, (\<lambda>_. 0), []) :: ((addr \<Rightarrow> u32) \<times> print list) xhci"
  obtain gs where gs: "start_screen (demo_boot 48) ?s = Some (Inr gs, ?s)"
    using demo_screen [of 48 "((\<lambda>_. 0) :: addr \<Rightarrow> u32, [] :: print list)"] by auto
  have "\<exists>k'. vMain (\<lambda>_. logging_machine) demo_statics (demo_boot 48) 0 ?s =
      Some (Inl (Panic ''rsp0_stack is NULL!''), (print_run logging_machine (''Welcome Vim-OS!'' @ [CHR 0x0A]) [] ?s)\<lparr>world := (k', snd (world (print_run logging_machine (''Welcome Vim-OS!'' @ [CHR 0x0A]) [] ?s)))\<rparr>)"
    by (rule vMain_out_of_memory [OF gs refl demo_boot_start(2) [symmetric] _ _ refl, where k = "Suc 0"])
      (simp_all only: logging_print demo_boot_desc demo_boot_start boot_statics_simps xhci.simps mem_of_def fst_conv snd_conv uefi_memory_map.simps demo_boot_runs, simp_all)
  then show ?thesis by blast
qed

end
