(* ===== verification/Spec2Isabelle.thy ===== *)
theory Spec2Isabelle
  imports Entry Memcmp Boot Strings Console Usb_Ports Usb_Descriptors Xhci_Start Kernel
begin

text \<open>
  A verification development of VimOS: a UEFI boot program (src/boot), a 64-bit kernel
  (src/kernel) that drives a frame buffer console, the interrupt controllers, PCI, and a USB
  keyboard behind an xHCI controller, and the part of the C library they use (src/stdlib).

  \<^bold>\<open>How the parts interact.\<close> The boot program loads the kernel's ELF image, builds page tables
  with all physical memory at \<open>PAGE_OFFSET\<close> and the image at \<open>KERNEL_MAPPING\<close>, leaves the firmware
  and jumps to the kernel with a \<open>BootInfo\<close>. \<open>vMain\<close> starts the screen, the page allocator (from the
  firmware's memory map), the segments, the interrupt descriptor table with PIC or APIC, and scans
  PCI; for each xHCI controller \<open>init_xhci\<close> allocates rings and contexts and starts it. Events then
  drive the enumeration of the ports and the configuration of a keyboard, whose reports the input
  loop polls and prints. Exceptions enter through the stubs of kernel/asm.S; a page fault in the
  demand range of a program maps a page with the allocator.

  \<^bold>\<open>State.\<close> C integers are words of their width (\<open>u8\<close> to \<open>u64\<close>; \<open>int\<close> where C's \<open>int\<close> cannot
  overflow), memory is a function from addresses to bytes with little-endian loads and stores, so
  that aliasing is what it is in C. Statics of a file are a record (\<open>mem_state\<close>: memory and
  allocator; \<open>'d xhci\<close>: the statics of the driver and, in \<open>world\<close>, the kernel's memory and the
  devices). Packed structures are words with fields at bit positions computed from their
  declarations (Bitfields, Trb). Devices, firmware and the keyboard's controller are parameters:
  \<open>hw\<close>, a record of the accesses (Hardware), and \<open>efi\<close>, a record of the boot services (Boot); every
  theorem about code that uses them holds for all devices or names the documented behaviour it
  relies on, and is applied to a concrete device by its witness. A panic, a null dereference and an
  endless wait are values: \<open>Inl\<close> of an error, or \<open>None\<close> when the code does not return.

  \<^bold>\<open>Theories.\<close>
  \<^item> Prelude, Memory (memset, memcpy, C strings in memory), Addresses (include/paging.h windows),
    Bitfields, Hardware: the vocabulary all others share.
  \<^item> Page_Alloc, Page_Free, Mem_Init, Mem_Props: kernel/mem.c. The list in memory refines a list of
    blocks (\<open>alloc_inv\<close>); first fit, merging, the scan of the memory map, and the inputs on which
    \<open>free_mem\<close> fails. Alloc_Contract is the interface its clients rely on, interpreted by \<open>alloc_mem\<close>.
  \<^item> Paging, Exceptions: kernel/paging.c and exception.c, against the address translation of the
    processor (\<open>walk\<close>): a page mapped, everything else as before.
  \<^item> Segments, Interrupts, Irq, Pci: gdt.c, interrupt.c, pic.c and apic.c (both interpret the
    interface \<open>irq_controller\<close>), pci.c (the scan against the configuration space).
  \<^item> Cpu, Entry, Memcmp: asm.S and memcmp.s, instruction by instruction on a model of the processor;
    what the stubs keep of an interrupted program, the entry of a program, the calling convention.
  \<^item> Format, Strings, Font, Graphics, Console: vsprintf and the string functions, uefi_graphics.c on
    the frame buffer, console.c and printk; the console refines a screen of text cells.
  \<^item> Elf_Load, Boot_Paging, Boot: boot.c and lib.c; the loaded image, the translation of the tables
    (\<open>boot_translation\<close>) and the state in which the kernel is entered.
  \<^item> Trb, Ring, Ring_Memory: include/xhci.h, usb.h and the rings of xhci.c, which interpret the queue of
    Fifo_Contract between driver and controller.
  \<^item> Xhci, Xhci_Capabilities, Xhci_Start: registers, events, control transfers and \<open>init_xhci\<close>, on a
    controller as the specification describes it. Register_File holds a concrete controller.
  \<^item> Usb, Usb_Requests, Usb_Descriptors, Usb_Ports: enumeration. Usb_Ports is an abstract state machine
    (\<open>usb_step\<close>) that \<open>usb_process_events\<close> refines; its invariants are those of the code.
  \<^item> Usb_Keyboard, Usb_Typing: usb_keyboard.c, from reports to the characters of the input loop.
  \<^item> Kernel: \<open>vMain\<close>, from the boot information to the prompt or to the panic without memory.

  \<^bold>\<open>Loops and bounds.\<close> A loop that may run for ever (a wait for the device, a walk along a list in
  memory or to the end of a string) is a \<open>partial_function (option)\<close> whose value is \<open>None\<close> when it does not
  end; the theorems state that the value is \<open>Some\<close>, or that it is \<open>None\<close>. \<open>vMain\<close>'s input loop never
  ends: \<open>input_turns n\<close> is its first \<open>n\<close> turns, for every \<open>n\<close>. \<open>parse_turns n\<close> is at most \<open>n\<close> turns of the
  walk over descriptors; as many turns as there are bytes are enough (\<open>parse_descriptors_turns\<close>).
  The string functions are stated for strings below 2 GiB, the range of their \<open>int\<close> indices.

  \<^bold>\<open>Not modelled.\<close> The build files and the headers that only declare functions. Code that the flags
  of include/flags.h or \<open>#if 0\<close> switch off (the memory test, debugging output, the other
  enumeration by a list of ports), and the members of the structures of uefi.h, xhci.h and elf.h the
  program does not use. \<open>syscall_entry\<close>, which is declared but not defined. Addresses of
  instructions, status flags other than ZF, caches, and the time between accesses: a device
  changes its state only when it is accessed. Interrupts that arrive while the kernel runs: it
  waits by polling and unmasks no line.
\<close>

end
